(* ===== verification/Oracle_Prelude.thy ===== *)
theory Oracle_Prelude
  imports Main "HOL-Library.Sublist" "HOL-Library.List_Lexorder" "HOL-Library.Code_Target_Nat"
begin

text \<open>
  Shared ground of the development: the proof-hint collections, the Python string type and
  the operations of \<^verbatim>\<open>str\<close> and \<^verbatim>\<open>re\<close> that the scripts call, with the list lemmas about them.

  A Python \<^verbatim>\<open>str\<close> is a sequence of Unicode code points, so a string here is a list of natural
  numbers, one per code point; \<open>length\<close> counts what Python's \<^verbatim>\<open>len\<close> counts, and comparing two
  strings (lexicographically, by \<^theory_text>\<open>List_Lexorder\<close>) is what \<^verbatim>\<open>sorted\<close> does.
  Literals are written \<open>lit ''...''\<close>.
\<close>

named_theorems py_str \<open>definitions of string operations, for unfolding on closed strings\<close>
named_theorems fs_simps \<open>equations that evaluate file-tree operations\<close>

section \<open>Python strings\<close>

type_synonym pystr = "nat list"

definition lit :: "char list \<Rightarrow> pystr" where
  "lit s = map of_char s"

lemma lit_simps [py_str]:
  "lit [] = []"
  "lit (c # cs) = of_char c # lit cs"
  by (simp_all add: lit_def)

lemma lit_Nil_iff [simp]: "lit s = [] \<longleftrightarrow> s = []" "[] = lit s \<longleftrightarrow> s = []"
  by (auto simp: lit_def)

lemma lit_eq_iff [simp]: "lit s = lit t \<longleftrightarrow> s = t"
  unfolding lit_def by (rule inj_map_eq_map) (simp add: inj_def)

lemma set_lit [simp]: "set (lit s) = of_char ` set s"
  by (simp add: lit_def)

lemma length_lit [simp]: "length (lit s) = length s"
  by (simp add: lit_def)

subsection \<open>Character classes\<close>

text \<open>\<^verbatim>\<open>str.isspace\<close>, which is also what \<^verbatim>\<open>\s\<close> matches in a \<^verbatim>\<open>str\<close> pattern.\<close>

definition is_space :: "nat \<Rightarrow> bool" where
  "is_space c \<longleftrightarrow> (9 \<le> c \<and> c \<le> 13) \<or> (28 \<le> c \<and> c \<le> 32) \<or> c = 133 \<or> c = 160 \<or> c = 5760
     \<or> (8192 \<le> c \<and> c \<le> 8202) \<or> c = 8232 \<or> c = 8233 \<or> c = 8239 \<or> c = 8287 \<or> c = 12288"

text \<open>The line boundaries of \<^verbatim>\<open>str.splitlines\<close>: LF, VT, FF, CR, FS, GS, RS, NEL, LS and PS.\<close>

definition is_linebreak :: "nat \<Rightarrow> bool" where
  "is_linebreak c \<longleftrightarrow> (10 \<le> c \<and> c \<le> 13) \<or> (28 \<le> c \<and> c \<le> 30) \<or> c = 133 \<or> c = 8232 \<or> c = 8233"

lemma linebreak_LF_CR [simp]: "is_linebreak 10" "is_linebreak 13"
  by (simp_all add: is_linebreak_def)

lemma linebreak_is_space: "is_linebreak c \<Longrightarrow> is_space c"
  by (auto simp: is_linebreak_def is_space_def)

definition is_lower :: "nat \<Rightarrow> bool" where "is_lower c \<longleftrightarrow> 97 \<le> c \<and> c \<le> 122"
definition is_upper :: "nat \<Rightarrow> bool" where "is_upper c \<longleftrightarrow> 65 \<le> c \<and> c \<le> 90"
definition is_digit :: "nat \<Rightarrow> bool" where "is_digit c \<longleftrightarrow> 48 \<le> c \<and> c \<le> 57"

text \<open>The class \<^verbatim>\<open>[a-z0-9]\<close>.\<close>

definition is_lodi :: "nat \<Rightarrow> bool" where
  "is_lodi c \<longleftrightarrow> is_lower c \<or> is_digit c"

text \<open>
  The Unicode character database beyond Latin-1 is a table of the Python build, not code of the
  program: it is a parameter. \<open>ulower\<close> gives the lower-case form of a code point (one code point
  may become several), \<open>ualnum\<close> says whether it is alphanumeric. Below U+0100 both are written out.
\<close>

record unidb =
  ulower :: "nat \<Rightarrow> pystr"
  ualnum :: "nat \<Rightarrow> bool"

definition lower_cp :: "unidb \<Rightarrow> nat \<Rightarrow> pystr" where
  "lower_cp U c =
     (if is_upper c then [c + 32]
      else if c < 192 then [c]
      else if c \<le> 222 then (if c = 215 then [c] else [c + 32])
      else if c < 256 then [c]
      else ulower U c)"

definition py_lower :: "unidb \<Rightarrow> pystr \<Rightarrow> pystr" where
  "py_lower U s = concat (map (lower_cp U) s)"

text \<open>
  A surrogate is no character: it stands alone in a \<^verbatim>\<open>str\<close> only for an undecodable byte or an escape in JSON, and
  strict UTF-8 can encode no text that has one.
\<close>

definition surrogate :: "nat \<Rightarrow> bool" where
  "surrogate c \<longleftrightarrow> 55296 \<le> c \<and> c \<le> 57343"

definition utf8_ok :: "pystr \<Rightarrow> bool" where
  "utf8_ok s \<longleftrightarrow> list_all (\<lambda>c. \<not> surrogate c) s"

lemma utf8_ok_simps [simp]:
  "utf8_ok []" "utf8_ok (c # s) \<longleftrightarrow> \<not> surrogate c \<and> utf8_ok s" "utf8_ok (s @ t) \<longleftrightarrow> utf8_ok s \<and> utf8_ok t"
  by (simp_all add: utf8_ok_def)

lemma surrogate_low [simp]: "c < 55296 \<Longrightarrow> \<not> surrogate c"
  by (simp add: surrogate_def)

lemma utf8_ok_lit [simp]: "utf8_ok (lit s)"
proof -
  have "\<not> surrogate (of_char c)" for c :: char
    using nat_of_char_less_256 [of c] by (intro surrogate_low) linarith
  then show ?thesis by (simp add: utf8_ok_def lit_def list.pred_map comp_def list_all_iff)
qed

definition alnum_cp :: "unidb \<Rightarrow> nat \<Rightarrow> bool" where
  "alnum_cp U c \<longleftrightarrow>
     (if c < 256
      then is_lower c \<or> is_upper c \<or> is_digit c \<or> c \<in> {170, 178, 179, 181, 185, 186, 188, 189, 190}
           \<or> (192 \<le> c \<and> c \<noteq> 215 \<and> c \<noteq> 247)
      else \<not> surrogate c \<and> ualnum U c)"

text \<open>\<^verbatim>\<open>str.isalnum\<close> is false on the empty string.\<close>

definition py_isalnum :: "unidb \<Rightarrow> pystr \<Rightarrow> bool" where
  "py_isalnum U s \<longleftrightarrow> s \<noteq> [] \<and> list_all (alnum_cp U) s"

text \<open>The \<^verbatim>\<open>\w\<close> of a pattern: alphanumeric or underscore.\<close>

definition word_cp :: "unidb \<Rightarrow> nat \<Rightarrow> bool" where
  "word_cp U c \<longleftrightarrow> c = 95 \<or> alnum_cp U c"

text \<open>A database for closed examples: no upper case and no letters beyond Latin-1.\<close>

definition latin_db :: unidb where
  "latin_db = \<lparr>ulower = (\<lambda>c. [c]), ualnum = (\<lambda>_. False)\<rparr>"

subsection \<open>Stripping\<close>

definition lstrip_by :: "(nat \<Rightarrow> bool) \<Rightarrow> pystr \<Rightarrow> pystr" where
  "lstrip_by p s = dropWhile p s"

definition rstrip_by :: "(nat \<Rightarrow> bool) \<Rightarrow> pystr \<Rightarrow> pystr" where
  "rstrip_by p s = rev (dropWhile p (rev s))"

definition strip_by :: "(nat \<Rightarrow> bool) \<Rightarrow> pystr \<Rightarrow> pystr" where
  "strip_by p s = rstrip_by p (lstrip_by p s)"

definition py_lstrip :: "pystr \<Rightarrow> pystr" where "py_lstrip = lstrip_by is_space"
definition py_rstrip :: "pystr \<Rightarrow> pystr" where "py_rstrip = rstrip_by is_space"
definition py_strip :: "pystr \<Rightarrow> pystr" where "py_strip = strip_by is_space"

subsection \<open>Searching, splitting and replacing\<close>

text \<open>\<open>cut sep s\<close> splits \<open>s\<close> at the first occurrence of \<open>sep\<close>.\<close>

fun cut :: "pystr \<Rightarrow> pystr \<Rightarrow> (pystr \<times> pystr) option" where
  "cut sep [] = (if sep = [] then Some ([], []) else None)"
| "cut sep (c # cs) =
     (if prefix sep (c # cs) then Some ([], drop (length sep) (c # cs))
      else map_option (\<lambda>(a, b). (c # a, b)) (cut sep cs))"

text \<open>\<^verbatim>\<open>s.split(sep, n)\<close>: at most \<open>n\<close> cuts.\<close>

fun split_max :: "pystr \<Rightarrow> nat \<Rightarrow> pystr \<Rightarrow> pystr list" where
  "split_max sep 0 s = [s]"
| "split_max sep (Suc n) s =
     (case cut sep s of None \<Rightarrow> [s] | Some (a, b) \<Rightarrow> a # split_max sep n b)"

text \<open>\<^verbatim>\<open>s.partition(c)\<close> for a one-character separator that occurs in \<open>s\<close>: what is before and after it.\<close>

definition before_cp :: "nat \<Rightarrow> pystr \<Rightarrow> pystr" where
  "before_cp c s = takeWhile (\<lambda>x. x \<noteq> c) s"

definition after_cp :: "nat \<Rightarrow> pystr \<Rightarrow> pystr" where
  "after_cp c s = tl (dropWhile (\<lambda>x. x \<noteq> c) s)"

text \<open>\<^verbatim>\<open>s.replace(old, new, 1)\<close> and \<^verbatim>\<open>s.replace(old, new)\<close> for a non-empty \<open>old\<close>.\<close>

definition replace_first :: "pystr \<Rightarrow> pystr \<Rightarrow> pystr \<Rightarrow> pystr" where
  "replace_first old new s = (case cut old s of None \<Rightarrow> s | Some (a, b) \<Rightarrow> a @ new @ b)"

function replace_all :: "pystr \<Rightarrow> pystr \<Rightarrow> pystr \<Rightarrow> pystr" where
  "replace_all old new [] = []"
| "replace_all old new (c # cs) =
     (if old \<noteq> [] \<and> prefix old (c # cs) then new @ replace_all old new (drop (length old) (c # cs))
      else c # replace_all old new cs)"
  by pat_completeness auto
termination
proof (relation "measure (\<lambda>(_, _, s). length s)", goal_cases)
  case (2 old new c cs)
  then show ?case by (cases old) auto
qed auto

definition replace_cp :: "nat \<Rightarrow> pystr \<Rightarrow> pystr \<Rightarrow> pystr" where
  "replace_cp c new s = concat (map (\<lambda>x. if x = c then new else [x]) s)"

text \<open>\<^verbatim>\<open>s.count(sub)\<close>: non-overlapping occurrences, for a non-empty \<open>sub\<close>.\<close>

function count_sub :: "pystr \<Rightarrow> pystr \<Rightarrow> nat" where
  "count_sub sub [] = 0"
| "count_sub sub (c # cs) =
     (if sub \<noteq> [] \<and> prefix sub (c # cs) then Suc (count_sub sub (drop (length sub) (c # cs)))
      else count_sub sub cs)"
  by pat_completeness auto
termination
proof (relation "measure (\<lambda>(_, s). length s)", goal_cases)
  case (2 sub c cs)
  then show ?case by (cases sub) auto
qed auto

text \<open>\<^verbatim>\<open>sep.join(xs)\<close>.\<close>

fun py_join :: "pystr \<Rightarrow> pystr list \<Rightarrow> pystr" where
  "py_join sep [] = []"
| "py_join sep [x] = x"
| "py_join sep (x # y # ys) = x @ sep @ py_join sep (y # ys)"

text \<open>\<open>re.sub("[..]+", c, s)\<close>: every maximal run of the class becomes one \<open>c\<close>.\<close>

function squash :: "(nat \<Rightarrow> bool) \<Rightarrow> nat \<Rightarrow> pystr \<Rightarrow> pystr" where
  "squash p c [] = []"
| "squash p c (x # xs) = (if p x then c # squash p c (dropWhile p xs) else x # squash p c xs)"
  by pat_completeness auto
termination
  by (relation "measure (\<lambda>(_, _, s). length s)") (auto simp: le_imp_less_Suc length_dropWhile_le)

text \<open>\<open>re.findall("[..]+", s)\<close>: the maximal runs of the class, in order.\<close>

function runs :: "(nat \<Rightarrow> bool) \<Rightarrow> pystr \<Rightarrow> pystr list" where
  "runs p [] = []"
| "runs p (x # xs) =
     (if p x then (x # takeWhile p xs) # runs p (dropWhile p xs) else runs p xs)"
  by pat_completeness auto
termination
  by (relation "measure (\<lambda>(_, s). length s)") (auto simp: le_imp_less_Suc length_dropWhile_le)

subsection \<open>Lines\<close>

text \<open>One line terminator is taken off the front; CR LF counts as one.\<close>

fun skip_break :: "pystr \<Rightarrow> pystr" where
  "skip_break [] = []"
| "skip_break (c # cs) =
     (if c = 13 then (case cs of [] \<Rightarrow> [] | d # ds \<Rightarrow> if d = 10 then ds else cs) else cs)"

lemma length_skip_break: "s \<noteq> [] \<Longrightarrow> length (skip_break s) < length s"
  by (cases s) (auto split: list.splits)

function splitlines :: "pystr \<Rightarrow> pystr list" where
  "splitlines s =
     (if s = [] then []
      else takeWhile (\<lambda>c. \<not> is_linebreak c) s
             # splitlines (skip_break (dropWhile (\<lambda>c. \<not> is_linebreak c) s)))"
  by pat_completeness auto
termination
proof (relation "measure length", goal_cases)
  case (2 s)
  let ?r = "dropWhile (\<lambda>c. \<not> is_linebreak c) s"
  have "length ?r \<le> length s" by (rule length_dropWhile_le)
  with 2 have "length (skip_break ?r) < length s"
    using length_skip_break [of ?r] by (metis le_trans leD length_greater_0_conv list.size(3) not_le skip_break.simps(1))
  then show ?case by simp
qed simp

declare splitlines.simps [simp del]

text \<open>Text-mode reading turns CR LF and lone CR into LF (universal newlines).\<close>

fun univ_nl :: "pystr \<Rightarrow> pystr" where
  "univ_nl [] = []"
| "univ_nl (c # cs) =
     (if c = 13 then 10 # (case cs of [] \<Rightarrow> [] | d # ds \<Rightarrow> if d = 10 then univ_nl ds else univ_nl cs)
      else c # univ_nl cs)"


subsection \<open>Lemmas on stripping\<close>

lemma takeWhile_id: "\<forall>x\<in>set xs. P x \<Longrightarrow> takeWhile P xs = xs"
  by simp

lemma strip_by_Nil [simp]: "strip_by p [] = []"
  by (simp add: strip_by_def lstrip_by_def rstrip_by_def)

lemma py_strip_Nil [simp]: "py_strip [] = []"
  by (simp add: py_strip_def)

lemma rstrip_by_decomp: "\<exists>b. s = rstrip_by p s @ b \<and> (\<forall>x\<in>set b. p x)"
proof -
  have "s = rev (dropWhile p (rev s)) @ rev (takeWhile p (rev s))"
    by (metis rev_append rev_rev_ident takeWhile_dropWhile_id)
  moreover have "\<forall>x\<in>set (rev (takeWhile p (rev s))). p x"
    by (auto dest: set_takeWhileD)
  ultimately show ?thesis unfolding rstrip_by_def by blast
qed

lemma lstrip_by_decomp: "\<exists>a. s = a @ lstrip_by p s \<and> (\<forall>x\<in>set a. p x)"
  unfolding lstrip_by_def by (metis set_takeWhileD takeWhile_dropWhile_id)

lemma strip_by_decomp:
  "\<exists>a b. s = a @ strip_by p s @ b \<and> (\<forall>x\<in>set a. p x) \<and> (\<forall>x\<in>set b. p x)"
proof -
  obtain a where a: "s = a @ lstrip_by p s" "\<forall>x\<in>set a. p x" using lstrip_by_decomp by blast
  obtain b where "lstrip_by p s = strip_by p s @ b" "\<forall>x\<in>set b. p x"
    unfolding strip_by_def using rstrip_by_decomp by blast
  with a show ?thesis by metis
qed

lemma set_strip_by: "set (strip_by p s) \<subseteq> set s"
  using strip_by_decomp [of s p] by (metis Un_iff set_append subsetI)

lemma set_py_strip: "set (py_strip s) \<subseteq> set s"
  by (simp add: py_strip_def set_strip_by)

lemma lstrip_by_hd: "lstrip_by p s \<noteq> [] \<Longrightarrow> \<not> p (hd (lstrip_by p s))"
  by (simp add: lstrip_by_def hd_dropWhile)

lemma rstrip_by_last: "rstrip_by p s \<noteq> [] \<Longrightarrow> \<not> p (last (rstrip_by p s))"
  by (simp add: rstrip_by_def last_rev hd_dropWhile)

lemma strip_by_last: "strip_by p s \<noteq> [] \<Longrightarrow> \<not> p (last (strip_by p s))"
  by (simp add: strip_by_def rstrip_by_last)

lemma strip_by_hd: "strip_by p s \<noteq> [] \<Longrightarrow> \<not> p (hd (strip_by p s))"
proof -
  assume ne: "strip_by p s \<noteq> []"
  obtain b where b: "lstrip_by p s = strip_by p s @ b"
    unfolding strip_by_def using rstrip_by_decomp by blast
  then have "hd (strip_by p s) = hd (lstrip_by p s)" using ne by simp
  moreover have "lstrip_by p s \<noteq> []" using b ne by auto
  ultimately show ?thesis using lstrip_by_hd by metis
qed

lemma rstrip_by_id: "s = [] \<or> \<not> p (last s) \<Longrightarrow> rstrip_by p s = s"
  by (cases s rule: rev_cases) (auto simp: rstrip_by_def)

lemma lstrip_by_id: "s = [] \<or> \<not> p (hd s) \<Longrightarrow> lstrip_by p s = s"
  by (cases s) (auto simp: lstrip_by_def)

lemma strip_by_id: "s = [] \<or> (\<not> p (hd s) \<and> \<not> p (last s)) \<Longrightarrow> strip_by p s = s"
  by (auto simp: strip_by_def lstrip_by_id rstrip_by_id)

lemma strip_by_idem [simp]: "strip_by p (strip_by p s) = strip_by p s"
  using strip_by_hd strip_by_last by (intro strip_by_id) blast

lemma py_strip_idem [simp]: "py_strip (py_strip s) = py_strip s"
  by (simp add: py_strip_def)

lemma strip_by_Nil_iff: "strip_by p s = [] \<longleftrightarrow> (\<forall>x\<in>set s. p x)"
proof
  show "\<forall>x\<in>set s. p x" if "strip_by p s = []"
    using strip_by_decomp [of s p] that by (metis Un_iff append.left_neutral set_append)
  show "strip_by p s = []" if all: "\<forall>x\<in>set s. p x"
  proof (rule ccontr)
    assume ne: "strip_by p s \<noteq> []"
    then have "hd (strip_by p s) \<in> set s" using set_strip_by by (metis hd_in_set subsetD)
    with all strip_by_hd [OF ne] show False by blast
  qed
qed

lemma strip_by_append:
  assumes "\<forall>x\<in>set a. p x" "\<forall>x\<in>set b. p x" "m = [] \<or> (\<not> p (hd m) \<and> \<not> p (last m))"
  shows "strip_by p (a @ m @ b) = m"
proof (cases "m = []")
  case True
  with assms have "\<forall>x\<in>set (a @ m @ b). p x" by auto
  with True show ?thesis by (simp only: strip_by_Nil_iff)
next
  case False
  with assms have "lstrip_by p (a @ m @ b) = m @ b"
    by (cases m) (auto simp: lstrip_by_def)
  moreover have "rstrip_by p (m @ b) = m"
  proof -
    have "dropWhile p (rev b @ rev m) = dropWhile p (rev m)"
      by (rule dropWhile_append2) (use assms(2) in auto)
    then show ?thesis using assms(3) False
      by (cases m rule: rev_cases) (auto simp: rstrip_by_def)
  qed
  ultimately show ?thesis by (simp add: strip_by_def)
qed

lemma py_strip_space: "py_strip (32 # s) = py_strip s"
  by (simp add: py_strip_def strip_by_def lstrip_by_def is_space_def)

subsection \<open>Lemmas on cutting\<close>

definition contains :: "pystr \<Rightarrow> pystr \<Rightarrow> bool" where
  "contains sub s \<longleftrightarrow> cut sub s \<noteq> None"

lemma contains_Nil [simp]: "sub \<noteq> [] \<Longrightarrow> \<not> contains sub []"
  by (simp add: contains_def)

lemma cut_at_start: "sep \<noteq> [] \<Longrightarrow> cut sep (sep @ s) = Some ([], s)"
  by (cases sep) auto

lemma cut_Some_append: "cut sep s = Some (a, b) \<Longrightarrow> s = a @ sep @ b"
proof (induction sep s arbitrary: a rule: cut.induct)
  case (1 sep)
  then show ?case by (auto split: if_splits)
next
  case (2 sep c cs)
  then show ?case
    by (auto split: if_splits simp: prefix_def)
qed

lemma contains_iff_sublist: "contains sub s \<longleftrightarrow> sublist sub s"
proof (induction sub s rule: cut.induct)
  case (1 sep)
  then show ?case by (auto simp: contains_def)
next
  case (2 sep c cs)
  then show ?case
    by (auto simp: contains_def sublist_Cons_right)
qed

lemma cut_append:
  assumes "\<not> contains sep (a @ butlast sep)" "sep \<noteq> []"
  shows "cut sep (a @ sep @ b) = Some (a, b)"
  using assms
proof (induction a)
  case Nil
  then show ?case by (cases sep) auto
next
  case (Cons x xs)
  have "\<not> prefix sep (x # xs @ sep @ b)"
  proof
    assume p: "prefix sep (x # xs @ sep @ b)"
    have "prefix (x # xs @ butlast sep) (x # xs @ sep @ b)"
      using \<open>sep \<noteq> []\<close> by (metis append.assoc append_Cons append_butlast_last_id prefixI)
    with p have "prefix sep (x # xs @ butlast sep)"
      by (rule prefix_length_prefix) simp
    then show False using Cons.prems(1)
      by (metis append_Cons contains_iff_sublist prefix_imp_sublist)
  qed
  moreover have "\<not> contains sep (xs @ butlast sep)"
    using Cons.prems(1) by (auto simp: contains_iff_sublist sublist_Cons_right)
  ultimately show ?case using Cons by simp
qed

lemma contains_append_sep:
  assumes "c \<notin> set sub" "sub \<noteq> []"
  shows "contains sub (a @ c # b) \<longleftrightarrow> contains sub a \<or> contains sub b"
proof (induction a)
  case Nil
  have "\<not> prefix sub (c # b)" using assms by (cases sub) auto
  then show ?case using assms by (simp add: contains_iff_sublist sublist_Cons_right)
next
  case (Cons x a)
  have "prefix sub ((x # a) @ c # b) \<longleftrightarrow> prefix sub (x # a)"
  proof
    assume p: "prefix sub ((x # a) @ c # b)"
    then show "prefix sub (x # a)"
    proof (rule contrapos_pp)
      assume n: "\<not> prefix sub (x # a)"
      show "\<not> prefix sub ((x # a) @ c # b)"
      proof
        assume "prefix sub ((x # a) @ c # b)"
        then obtain us where "prefix us (c # b)" "sub = (x # a) @ us" 
          using n by (metis prefix_append)
        with n have "us \<noteq> []" by auto
        with \<open>prefix us (c # b)\<close> have "c \<in> set us" by (cases us) auto
        with \<open>sub = (x # a) @ us\<close> assms show False by simp
      qed
    qed
  next
    assume "prefix sub (x # a)"
    then show "prefix sub ((x # a) @ c # b)" by (rule prefix_prefix)
  qed
  with Cons show ?case by (auto simp: contains_iff_sublist sublist_Cons_right)
qed

lemma contains_subset: "contains sub s \<Longrightarrow> set sub \<subseteq> set s"
  by (auto simp: contains_iff_sublist dest: set_mono_sublist)

lemma before_cp_append [simp]: "c \<notin> set k \<Longrightarrow> before_cp c (k @ c # v) = k"
  by (induction k) (auto simp: before_cp_def)

lemma after_cp_append [simp]: "c \<notin> set k \<Longrightarrow> after_cp c (k @ c # v) = v"
  by (induction k) (auto simp: after_cp_def)

subsection \<open>Lemmas on replacing\<close>

lemma replace_cp_Nil [simp]: "replace_cp c n [] = []"
  by (simp add: replace_cp_def)

lemma replace_cp_Cons: "replace_cp c n (x # s) = (if x = c then n else [x]) @ replace_cp c n s"
  by (simp add: replace_cp_def)

lemma set_replace_cp: "set (replace_cp c n s) \<subseteq> (set s - {c}) \<union> set n"
  by (induction s) (auto simp: replace_cp_Cons)

lemma replace_cp_id: "c \<notin> set s \<Longrightarrow> replace_cp c n s = s"
  by (induction s) (auto simp: replace_cp_Cons)

text \<open>Doubling a character and halving the pairs again is the identity.\<close>

lemma undouble: "replace_all [q, q] [q] (replace_cp q [q, q] s) = s"
  by (induction s) (auto simp: replace_cp_Cons)

lemma replace_all_id: "\<not> contains old s \<Longrightarrow> replace_all old new s = s"
  by (induction old new s rule: replace_all.induct)
     (auto simp: contains_iff_sublist sublist_Cons_right)

subsection \<open>Lemmas on lines\<close>

definition one_line :: "pystr \<Rightarrow> bool" where
  "one_line s \<longleftrightarrow> list_all (\<lambda>c. \<not> is_linebreak c) s"

lemma one_line_simps [simp]:
  "one_line []"
  "one_line (c # s) \<longleftrightarrow> \<not> is_linebreak c \<and> one_line s"
  "one_line (s @ t) \<longleftrightarrow> one_line s \<and> one_line t"
  by (auto simp: one_line_def)

lemma one_line_iff: "one_line s \<longleftrightarrow> (\<forall>c\<in>set s. \<not> is_linebreak c)"
  by (simp add: one_line_def list_all_iff)

lemma splitlines_Nil [simp]: "splitlines [] = []"
  by (simp add: splitlines.simps)

lemma splitlines_LF:
  assumes "one_line l"
  shows "splitlines (l @ 10 # r) = l # splitlines r"
proof -
  have "takeWhile (\<lambda>c. \<not> is_linebreak c) (l @ 10 # r) = l"
    using assms by (induction l) (auto simp: is_linebreak_def)
  moreover have "dropWhile (\<lambda>c. \<not> is_linebreak c) (l @ 10 # r) = 10 # r"
    using assms by (induction l) (auto simp: is_linebreak_def)
  ultimately show ?thesis
    by (simp add: splitlines.simps [of "l @ 10 # r"])
qed

lemma splitlines_LF0 [simp]: "splitlines (10 # r) = [] # splitlines r"
  using splitlines_LF [of "[]"] by simp

lemma splitlines_one: "one_line l \<Longrightarrow> splitlines l = (if l = [] then [] else [l])"
  by (simp add: splitlines.simps [of l] one_line_iff dropWhile_eq_Nil_conv [THEN iffD2])

lemma splitlines_block:
  "list_all one_line ls \<Longrightarrow> splitlines (concat (map (\<lambda>l. l @ [10]) ls) @ r) = ls @ splitlines r"
  by (induction ls) (auto simp: splitlines_LF)

lemma set_skip_break: "set (skip_break s) \<subseteq> set s"
  by (cases s) (auto split: list.splits)

lemma splitlines_lines: "l \<in> set (splitlines s) \<Longrightarrow> one_line l \<and> set l \<subseteq> set s"
proof (induction s rule: splitlines.induct)
  case (1 s)
  show ?case
  proof (cases "s = []")
    case True
    with "1.prems" show ?thesis by simp
  next
    case False
    let ?r = "skip_break (dropWhile (\<lambda>c. \<not> is_linebreak c) s)"
    from False "1.prems" consider "l = takeWhile (\<lambda>c. \<not> is_linebreak c) s" | "l \<in> set (splitlines ?r)"
      by (auto simp: splitlines.simps [of s])
    then show ?thesis
    proof cases
      case 1
      then show ?thesis by (auto simp: one_line_iff dest: set_takeWhileD)
    next
      case 2
      with "1.IH" [OF False] have "one_line l \<and> set l \<subseteq> set ?r" by blast
      moreover have "set ?r \<subseteq> set s"
        using set_skip_break by (meson set_dropWhileD subset_iff)
      ultimately show ?thesis by blast
    qed
  qed
qed

lemma one_line_py_strip: "one_line s \<Longrightarrow> one_line (py_strip s)"
  using set_py_strip [of s] by (auto simp: one_line_iff)

lemma univ_nl_id: "13 \<notin> set s \<Longrightarrow> univ_nl s = s"
  by (induction s) auto

lemma univ_nl_no_CR: "13 \<notin> set (univ_nl s)"
  by (induction s rule: univ_nl.induct) (auto split: list.splits)

subsection \<open>Lemmas on runs\<close>

lemma squash_no_class: "\<not> p c \<Longrightarrow> list_all (\<lambda>x. \<not> p x) (squash p c s)"
  by (induction p c s rule: squash.induct) auto

lemma set_squash: "set (squash p c s) \<subseteq> insert c {x \<in> set s. \<not> p x}"
  by (induction p c s rule: squash.induct) (auto dest!: subsetD set_dropWhileD)

lemma squash_id: "list_all (\<lambda>x. \<not> p x) s \<Longrightarrow> squash p c s = s"
  by (induction s) auto

lemma hd_squash: "s \<noteq> [] \<Longrightarrow> squash p c s \<noteq> [] \<and> hd (squash p c s) = (if p (hd s) then c else hd s)"
  by (cases s) auto

lemma squash_Nil_iff [simp]: "squash p c s = [] \<longleftrightarrow> s = []"
  using hd_squash [of s p c] by (cases s) auto

text \<open>No two replacement characters are adjacent, unless one of them was in the text.\<close>

lemma squash_no_adjacent:
  "p c \<Longrightarrow> successively (\<lambda>a b. a \<noteq> c \<or> b \<noteq> c) (squash p c s)"
proof (induction p c s rule: squash.induct)
  case (2 p c x xs)
  have next_ok: "squash p c (dropWhile p xs) = [] \<or> hd (squash p c (dropWhile p xs)) \<noteq> c"
    using hd_squash [of "dropWhile p xs" p c] hd_dropWhile [of p xs] "2.prems"
    by (cases "dropWhile p xs = []") auto
  with 2 show ?case
    by (auto simp: successively_Cons)
qed simp

lemma successively_no_pair:
  assumes "successively (\<lambda>a b. a \<noteq> c \<or> b \<noteq> c) s"
  shows "\<not> contains [c, c] s"
proof
  assume "contains [c, c] s"
  then obtain a b where "s = a @ [c, c] @ b"
    by (auto simp: contains_iff_sublist sublist_def)
  with assms show False by (auto simp: successively_append_iff)
qed

lemma contains_shorter: "contains (sub @ rest) s \<Longrightarrow> contains sub s"
  by (auto simp: contains_iff_sublist sublist_def)

lemma runs_in_class: "w \<in> set (runs p s) \<Longrightarrow> w \<noteq> [] \<and> list_all p w \<and> set w \<subseteq> set s"
proof (induction p s rule: runs.induct)
  case (2 p x xs)
  have drop: "set (dropWhile p xs) \<subseteq> set xs" by (auto dest: set_dropWhileD)
  have take: "\<forall>y\<in>set (takeWhile p xs). p y \<and> y \<in> set xs" by (auto dest: set_takeWhileD)
  show ?case
  proof (cases "p x")
    case True
    with "2.prems" consider "w = x # takeWhile p xs" | "w \<in> set (runs p (dropWhile p xs))" by auto
    then show ?thesis
    proof cases
      case 1
      with True take show ?thesis by (auto simp: list_all_iff)
    next
      case 2
      with "2.IH"(1) True drop show ?thesis by auto
    qed
  next
    case False
    with "2.prems" "2.IH"(2) show ?thesis by auto
  qed
qed simp

section \<open>Numbers as text\<close>

text \<open>Decimal digits, \<^verbatim>\<open>str(n)\<close>.\<close>

fun decimal :: "nat \<Rightarrow> pystr" where
  "decimal n = (if n < 10 then [48 + n] else decimal (n div 10) @ [48 + n mod 10])"

declare decimal.simps [simp del]

fun value_of :: "pystr \<Rightarrow> nat" where
  "value_of s = foldl (\<lambda>v c. 10 * v + (c - 48)) 0 s"

lemma value_decimal: "value_of (decimal n) = n"
  by (induction n rule: decimal.induct) (subst decimal.simps, auto)

lemma decimal_inj: "decimal m = decimal n \<longleftrightarrow> m = n"
  by (metis value_decimal)

text \<open>\<^verbatim>\<open>len(s.encode("utf-8"))\<close>\<close>

definition utf8_len :: "pystr \<Rightarrow> nat" where
  "utf8_len s = sum_list (map (\<lambda>c. if c < 128 then 1 else if c < 2048 then 2 else if c < 65536 then 3 else 4) s)"

end
