(* ===== verification/File_Tree.thy ===== *)
theory File_Tree
  imports Oracle_Prelude "HOL-Library.AList"
begin

text \<open>
  The file system the scripts work on: a tree of files, symbolic links and directories, and the
  operations of \<^verbatim>\<open>os\<close>, \<^verbatim>\<open>os.path\<close> and \<^verbatim>\<open>shutil\<close> they call, with the errors these raise as values.

  A directory is a list of named entries whose order is the order a listing shows them in (the
  operating system promises none, so the theorems hold for every order). A path is the list of its
  components below the root directory.
\<close>

section \<open>Trees\<close>

datatype node = File pystr | Link pystr | Dir "(pystr \<times> node) list"

type_synonym path = "pystr list"

datatype oserror = NoSuchFile | NotADirectory | IsADirectory | FileExists | LinkLoop | IsALink | CopyError

fun is_dir :: "node \<Rightarrow> bool" where
  "is_dir (Dir _) = True"
| "is_dir _ = False"

fun is_file :: "node \<Rightarrow> bool" where
  "is_file (File _) = True"
| "is_file _ = False"

fun is_link :: "node \<Rightarrow> bool" where
  "is_link (Link _) = True"
| "is_link _ = False"

text \<open>\<open>tget\<close> looks a place up without following links; \<open>tput\<close> stores a node there when its parent
  directory exists; \<open>tdel\<close> removes what is there.\<close>

fun tget :: "node \<Rightarrow> path \<Rightarrow> node option" where
  "tget n [] = Some n"
| "tget (Dir cs) (x # xs) = (case map_of cs x of None \<Rightarrow> None | Some m \<Rightarrow> tget m xs)"
| "tget _ (x # xs) = None"

fun tput :: "path \<Rightarrow> node \<Rightarrow> node \<Rightarrow> node" where
  "tput [] m n = m"
| "tput (x # xs) m (Dir cs) =
     (case map_of cs x of
        Some c \<Rightarrow> Dir (AList.update x (tput xs m c) cs)
      | None \<Rightarrow> if xs = [] then Dir (cs @ [(x, m)]) else Dir cs)"
| "tput (x # xs) m n = n"

fun tdel :: "path \<Rightarrow> node \<Rightarrow> node" where
  "tdel [] n = n"
| "tdel (x # xs) (Dir cs) =
     (if xs = [] then Dir (AList.delete x cs)
      else case map_of cs x of
             Some c \<Rightarrow> Dir (AList.update x (tdel xs c) cs)
           | None \<Rightarrow> Dir cs)"
| "tdel (x # xs) n = n"

definition dir_at :: "node \<Rightarrow> path \<Rightarrow> bool" where
  "dir_at fs p \<longleftrightarrow> (case tget fs p of Some n \<Rightarrow> is_dir n | None \<Rightarrow> False)"

subsection \<open>Laws of the tree\<close>

lemma map_of_snoc: "map_of (cs @ [(x, m)]) y = (case map_of cs y of None \<Rightarrow> if y = x then Some m else None | Some v \<Rightarrow> Some v)"
  by (auto simp: map_add_def split: option.splits)

lemma tget_append: "tget n (p @ q) = (case tget n p of None \<Rightarrow> None | Some m \<Rightarrow> tget m q)"
  by (induction n p rule: tget.induct) (auto split: option.splits)

lemma tget_File [simp]: "tget (File t) p = (if p = [] then Some (File t) else None)"
  by (cases p) auto

lemma tget_Link [simp]: "tget (Link t) p = (if p = [] then Some (Link t) else None)"
  by (cases p) auto

lemma dir_at_Nil [simp]: "dir_at n [] = is_dir n"
  by (simp add: dir_at_def)

lemma dir_at_Cons [simp]:
  "dir_at (Dir cs) (x # xs) = (case map_of cs x of None \<Rightarrow> False | Some m \<Rightarrow> dir_at m xs)"
  "dir_at (File t) (x # xs) = False"
  "dir_at (Link t) (x # xs) = False"
  by (auto simp: dir_at_def split: option.splits)

lemma dir_at_prefix: "tget n (p @ q) = Some m \<Longrightarrow> q \<noteq> [] \<Longrightarrow> dir_at n p"
  by (cases q) (auto simp: dir_at_def tget_append split: option.splits elim: tget.elims)

lemma dir_at_append: "dir_at n (p @ q) \<Longrightarrow> dir_at n p"
  by (cases "q = []") (auto simp: dir_at_def [of n "p @ q"] split: option.splits dest: dir_at_prefix)

lemma dir_at_mono: "dir_at n q \<Longrightarrow> prefix p q \<Longrightarrow> dir_at n p"
  by (auto simp: prefix_def dest: dir_at_append)

lemma tget_tput_same:
  "p = [] \<or> dir_at n (butlast p) \<Longrightarrow> tget (tput p m n) (p @ q) = tget m q"
proof (induction p m n rule: tput.induct)
  case (2 x xs m cs)
  then show ?case
    by (cases "xs = []")
       (auto simp: map_of_snoc update_conv' dir_at_def split: option.splits)
qed (auto simp: dir_at_def split: if_splits)

lemma tget_tput_self: "p = [] \<or> dir_at n (butlast p) \<Longrightarrow> tget (tput p m n) p = Some m"
  using tget_tput_same [of p n m "[]"] by simp

lemma tget_tput_other:
  "\<not> prefix p q \<Longrightarrow> \<not> prefix q p \<Longrightarrow> tget (tput p m n) q = tget n q"
proof (induction p m n arbitrary: q rule: tput.induct)
  case (2 x xs m cs)
  then obtain y ys where q: "q = y # ys" by (cases q) auto
  with 2 show ?case
    by (auto simp: map_of_snoc update_conv' split: option.splits)
qed auto

lemma tget_tdel_other:
  "\<not> prefix p q \<Longrightarrow> \<not> prefix q p \<Longrightarrow> tget (tdel p n) q = tget n q"
proof (induction p n arbitrary: q rule: tdel.induct)
  case (2 x xs cs)
  then obtain y ys where q: "q = y # ys" by (cases q) auto
  with 2 show ?case
    by (auto simp: map_of_snoc update_conv' delete_conv' split: option.splits)
qed auto

lemma tget_tdel_below: "p \<noteq> [] \<Longrightarrow> tget (tdel p n) (p @ q) = None"
proof (induction p n rule: tdel.induct)
  case (2 x xs cs)
  then show ?case
    by (auto simp: update_conv' delete_conv' split: option.splits)
qed auto

lemma tget_tdel_self: "p \<noteq> [] \<Longrightarrow> tget (tdel p n) p = None"
  using tget_tdel_below [of p n "[]"] by simp

text \<open>A change at or below a place keeps every directory strictly above it.\<close>

lemma dir_at_tput_above: "strict_prefix q p \<Longrightarrow> dir_at n q \<Longrightarrow> dir_at (tput p m n) q"
proof (induction p m n arbitrary: q rule: tput.induct)
  case (2 x xs m cs)
  then show ?case
    by (cases q) (auto simp: map_of_snoc update_conv' split: option.splits)
qed auto

lemma dir_at_tdel_above: "strict_prefix q p \<Longrightarrow> dir_at n q \<Longrightarrow> dir_at (tdel p n) q"
proof (induction p n arbitrary: q rule: tdel.induct)
  case (2 x xs cs)
  then show ?case
    by (cases q) (auto simp: update_conv' delete_conv' split: option.splits)
qed auto

section \<open>Path resolution\<close>

lemma length_tl_dropWhile: "s \<noteq> [] \<Longrightarrow> length (tl (dropWhile P s)) < length s"
proof -
  assume "s \<noteq> []"
  then have "0 < length s" by simp
  moreover have "length (dropWhile P s) \<le> length s" by (rule length_dropWhile_le)
  ultimately show ?thesis by (simp only: length_tl)
qed

text \<open>
  A path string is absolute when it starts with a slash; splitting drops empty and single-dot
  components. \<open>resolve\<close> walks a path from \<open>cur\<close>, following at most \<open>fuel\<close> symbolic links (the
  kernel gives up after 40); components that do not exist are kept as they are, which is
  \<^verbatim>\<open>os.path.realpath\<close>. \<open>None\<close> stands for a chain of links that is too long or cyclic.
\<close>

abbreviation slash :: nat where "slash \<equiv> 47"

function comps :: "pystr \<Rightarrow> path" where
  "comps s =
     (if s = [] then []
      else (let c = takeWhile (\<lambda>x. x \<noteq> slash) s
            in (if c = [] \<or> c = lit ''.'' then [] else [c])) @ comps (tl (dropWhile (\<lambda>x. x \<noteq> slash) s)))"
  by pat_completeness auto
termination
proof (relation "measure length", goal_cases)
  case (2 s)
  then show ?case by (simp add: length_tl_dropWhile del: length_tl)
qed simp

declare comps.simps [simp del]

definition is_abs :: "pystr \<Rightarrow> bool" where
  "is_abs s \<longleftrightarrow> s \<noteq> [] \<and> hd s = slash"

function resolve :: "node \<Rightarrow> nat \<Rightarrow> path \<Rightarrow> path \<Rightarrow> path option" where
  "resolve fs fuel cur [] = Some cur"
| "resolve fs fuel cur (c # rest) =
     (if c = [] \<or> c = lit ''.'' then resolve fs fuel cur rest
      else if c = lit ''..'' then resolve fs fuel (butlast cur) rest
      else case tget fs (cur @ [c]) of
             Some (Link t) \<Rightarrow>
               (case fuel of
                  0 \<Rightarrow> None
                | Suc k \<Rightarrow> resolve fs k (if is_abs t then [] else cur) (comps t @ rest))
           | _ \<Rightarrow> resolve fs fuel (cur @ [c]) rest)"
  by pat_completeness auto
termination
  by (relation "measures [\<lambda>(_, k, _, _). k, \<lambda>(_, _, _, r). length r]") auto

definition link_limit :: nat where "link_limit = 40"

definition realpath :: "node \<Rightarrow> path \<Rightarrow> path" where
  "realpath fs p = (case resolve fs link_limit [] p of Some q \<Rightarrow> q | None \<Rightarrow> p)"

text \<open>What a following call (\<^verbatim>\<open>stat\<close>, \<^verbatim>\<open>open\<close>) finds at a path, and where a call that does not follow the
  last component (\<^verbatim>\<open>lstat\<close>, \<^verbatim>\<open>mkdir\<close>, \<^verbatim>\<open>unlink\<close>, exclusive create) acts.\<close>

definition stat :: "node \<Rightarrow> path \<Rightarrow> node option" where
  "stat fs p = (case resolve fs link_limit [] p of None \<Rightarrow> None | Some q \<Rightarrow> tget fs q)"

definition lplace :: "node \<Rightarrow> path \<Rightarrow> path option" where
  "lplace fs p =
     (if p = [] then Some []
      else map_option (\<lambda>d. d @ [last p]) (resolve fs link_limit [] (butlast p)))"

definition path_exists :: "node \<Rightarrow> path \<Rightarrow> bool" where
  "path_exists fs p \<longleftrightarrow> stat fs p \<noteq> None"

definition isdir :: "node \<Rightarrow> path \<Rightarrow> bool" where
  "isdir fs p \<longleftrightarrow> (case stat fs p of Some n \<Rightarrow> is_dir n | None \<Rightarrow> False)"

definition isfile :: "node \<Rightarrow> path \<Rightarrow> bool" where
  "isfile fs p \<longleftrightarrow> (case stat fs p of Some n \<Rightarrow> is_file n | None \<Rightarrow> False)"

definition islink :: "node \<Rightarrow> path \<Rightarrow> bool" where
  "islink fs p \<longleftrightarrow>
     (case lplace fs p of None \<Rightarrow> False
      | Some q \<Rightarrow> (case tget fs q of Some n \<Rightarrow> is_link n | None \<Rightarrow> False))"

subsection \<open>Laws of resolution\<close>

definition plain_name :: "pystr \<Rightarrow> bool" where
  "plain_name c \<longleftrightarrow> c \<noteq> [] \<and> c \<noteq> lit ''.'' \<and> c \<noteq> lit ''..''"

definition plain_path :: "path \<Rightarrow> bool" where
  "plain_path p \<longleftrightarrow> list_all plain_name p"

lemma plain_path_simps [simp]:
  "plain_path []"
  "plain_path (x # p) \<longleftrightarrow> plain_name x \<and> plain_path p"
  "plain_path (p @ q) \<longleftrightarrow> plain_path p \<and> plain_path q"
  by (auto simp: plain_path_def)

text \<open>The five kinds of step, as equations and as an induction rule.\<close>

lemma resolve_skip: "c = [] \<or> c = lit ''.'' \<Longrightarrow> resolve fs k cur (c # rest) = resolve fs k cur rest"
  by auto

lemma resolve_up: "resolve fs k cur (lit ''..'' # rest) = resolve fs k (butlast cur) rest"
  by simp

lemma resolve_loop:
  "plain_name c \<Longrightarrow> tget fs (cur @ [c]) = Some (Link t) \<Longrightarrow> resolve fs 0 cur (c # rest) = None"
  by (simp add: plain_name_def)

lemma resolve_follow:
  "plain_name c \<Longrightarrow> tget fs (cur @ [c]) = Some (Link t) \<Longrightarrow>
   resolve fs (Suc k) cur (c # rest) = resolve fs k (if is_abs t then [] else cur) (comps t @ rest)"
  by (simp add: plain_name_def)

lemma resolve_step:
  "plain_name c \<Longrightarrow> \<nexists>t. tget fs (cur @ [c]) = Some (Link t) \<Longrightarrow>
   resolve fs k cur (c # rest) = resolve fs k (cur @ [c]) rest"
  by (auto simp: plain_name_def split: option.splits node.splits)

lemmas resolve_steps = resolve_skip resolve_up resolve_loop resolve_follow resolve_step

declare resolve.simps(2) [simp del]

lemma resolve_induct [case_names Nil skip up loop follow step]:
  assumes "\<And>k cur. P k cur []"
    and "\<And>k cur c rest. c = [] \<or> c = lit ''.'' \<Longrightarrow> P k cur rest \<Longrightarrow> P k cur (c # rest)"
    and "\<And>k cur rest. P k (butlast cur) rest \<Longrightarrow> P k cur (lit ''..'' # rest)"
    and "\<And>cur c rest t. plain_name c \<Longrightarrow> tget fs (cur @ [c]) = Some (Link t) \<Longrightarrow> P 0 cur (c # rest)"
    and "\<And>k cur c rest t. plain_name c \<Longrightarrow> tget fs (cur @ [c]) = Some (Link t) \<Longrightarrow>
           P k (if is_abs t then [] else cur) (comps t @ rest) \<Longrightarrow> P (Suc k) cur (c # rest)"
    and "\<And>k cur c rest. plain_name c \<Longrightarrow> \<nexists>t. tget fs (cur @ [c]) = Some (Link t) \<Longrightarrow>
           P k (cur @ [c]) rest \<Longrightarrow> P k cur (c # rest)"
  shows "P k cur p"
  using assms
proof (induction fs k cur p rule: resolve.induct)
  case (1 fs k cur)
  show ?case by (rule "1.prems"(1))
next
  case (2 fs k cur c rest)
  note rules = "2.prems"
  consider (skip) "c = [] \<or> c = lit ''.''" | (up) "c = lit ''..''" "\<not> (c = [] \<or> c = lit ''.'')"
    | (link) t where "plain_name c" "tget fs (cur @ [c]) = Some (Link t)"
    | (step) "plain_name c" "\<nexists>t. tget fs (cur @ [c]) = Some (Link t)"
    unfolding plain_name_def by blast
  then show ?case
  proof cases
    case skip
    from rules(2) [OF this "2.IH"(1) [OF this rules]] show ?thesis .
  next
    case up
    from rules(3) [OF "2.IH"(2) [OF up(2,1) rules]] up(1) show ?thesis by simp
  next
    case link
    then have c: "\<not> (c = [] \<or> c = lit ''.'')" "c \<noteq> lit ''..''" by (auto simp: plain_name_def)
    show ?thesis
    proof (cases k)
      case 0
      with rules(4) [OF link] show ?thesis by simp
    next
      case (Suc k0)
      from rules(5) [OF link "2.IH"(5) [OF c link(2) refl Suc rules]] Suc show ?thesis by simp
    qed
  next
    case step
    then have c: "\<not> (c = [] \<or> c = lit ''.'')" "c \<noteq> lit ''..''" by (auto simp: plain_name_def)
    have "P k (cur @ [c]) rest"
    proof (cases "tget fs (cur @ [c])")
      case None
      from "2.IH"(3) [OF c None rules] show ?thesis .
    next
      case (Some n)
      with step(2) show ?thesis
        using "2.IH"(4) [OF c Some _ rules] "2.IH"(6) [OF c Some _ rules] by (cases n) auto
    qed
    from rules(6) [OF step this] show ?thesis .
  qed
qed

lemma resolve_append:
  "resolve fs k cur (p @ q) = Some r \<Longrightarrow>
   \<exists>k' s. resolve fs k cur p = Some s \<and> k' \<le> k \<and> resolve fs k' s q = Some r"
proof (induction k cur p rule: resolve_induct [where fs = fs])
  case (follow k cur c rest t)
  then obtain k' s where "resolve fs k (if is_abs t then [] else cur) (comps t @ rest) = Some s"
      "k' \<le> k" "resolve fs k' s q = Some r"
    by (auto simp: resolve_follow)
  with follow(1,2) show ?case by (intro exI [of _ k'] exI [of _ s]) (simp add: resolve_follow)
qed (auto simp: resolve_steps)

text \<open>Along directories and ordinary names resolution changes nothing.\<close>

lemma resolve_dirs:
  "dir_at fs (cur @ p) \<Longrightarrow> plain_path p \<Longrightarrow> resolve fs k cur (p @ q) = resolve fs k (cur @ p) q"
proof (induction p arbitrary: cur)
  case (Cons c p)
  then have "dir_at fs (cur @ [c])" using dir_at_append [of fs "cur @ [c]" p] by simp
  then obtain cs where "tget fs (cur @ [c]) = Some (Dir cs)"
    by (auto simp: dir_at_def split: option.splits elim: is_dir.elims)
  with Cons.prems Cons.IH [of "cur @ [c]"] show ?case
    by (simp add: resolve_step)
qed simp

lemma realpath_dir: "dir_at fs p \<Longrightarrow> plain_path p \<Longrightarrow> resolve fs k [] p = Some p"
  using resolve_dirs [of fs "[]" p k "[]"] by simp

lemma resolve_child:
  assumes "dir_at fs p" "plain_path p" "plain_name c" "\<nexists>t. tget fs (p @ [c]) = Some (Link t)"
  shows "resolve fs k [] (p @ [c]) = Some (p @ [c])"
  using assms resolve_dirs [of fs "[]" p k "[c]"] by (simp add: resolve_step)

lemma lplace_child:
  assumes "dir_at fs p" "plain_path p"
  shows "lplace fs (p @ [c]) = Some (p @ [c])"
  using assms by (simp add: lplace_def realpath_dir)

text \<open>What resolution returns has no link left in it.\<close>

definition link_free :: "node \<Rightarrow> path \<Rightarrow> bool" where
  "link_free fs p \<longleftrightarrow> (\<forall>q t. prefix q p \<longrightarrow> tget fs q \<noteq> Some (Link t))"

lemma link_free_snoc:
  "link_free fs (p @ [c]) \<longleftrightarrow> link_free fs p \<and> (\<nexists>t. tget fs (p @ [c]) = Some (Link t))"
  by (auto simp: link_free_def)

lemma link_free_butlast: "link_free fs p \<Longrightarrow> link_free fs (butlast p)"
  by (auto simp: link_free_def) (meson prefixeq_butlast prefix_order.trans)

lemma link_free_Nil: "link_free fs p \<Longrightarrow> link_free fs []"
  unfolding link_free_def by (metis Nil_prefix prefix_Nil)

lemma resolve_link_free:
  "resolve fs k cur p = Some r \<Longrightarrow> link_free fs cur \<Longrightarrow> link_free fs r"
proof (induction k cur p rule: resolve_induct [where fs = fs])
  case (follow k cur c rest t)
  then show ?case by (auto simp: resolve_follow link_free_Nil split: if_splits)
next
  case (step k cur c rest)
  then show ?case by (auto simp: resolve_step link_free_snoc)
qed (auto simp: resolve_steps link_free_butlast)

section \<open>Operations\<close>

text \<open>
  An operation takes the tree and returns the tree and a result; an exception is the left side of
  the result, and the tree keeps what was done before it. \<open>bindio\<close> stops at the first exception.
\<close>

type_synonym 'a io = "node \<Rightarrow> node \<times> (oserror + 'a)"

definition retio :: "'a \<Rightarrow> 'a io" where
  "retio a fs = (fs, Inr a)"

definition bindio :: "'a io \<Rightarrow> ('a \<Rightarrow> 'b io) \<Rightarrow> 'b io" where
  "bindio m f fs = (case m fs of (fs', Inl e) \<Rightarrow> (fs', Inl e) | (fs', Inr a) \<Rightarrow> f a fs')"

definition read_text :: "path \<Rightarrow> pystr io" where
  "read_text p fs =
     (fs, case stat fs p of
            None \<Rightarrow> Inl NoSuchFile
          | Some (File t) \<Rightarrow> Inr (univ_nl t)
          | Some (Dir _) \<Rightarrow> Inl IsADirectory
          | Some (Link _) \<Rightarrow> Inl LinkLoop)"

definition parent_error :: "node \<Rightarrow> path \<Rightarrow> oserror" where
  "parent_error fs q = (if tget fs (butlast q) = None then NoSuchFile else NotADirectory)"

text \<open>Creating a node at a place that must be vacant: \<^verbatim>\<open>os.mkdir\<close> and \<^verbatim>\<open>open(p, "x")\<close>.\<close>

definition create_at :: "path \<Rightarrow> node \<Rightarrow> unit io" where
  "create_at p m fs =
     (case lplace fs p of
        None \<Rightarrow> (fs, Inl LinkLoop)
      | Some q \<Rightarrow>
          if tget fs q \<noteq> None then (fs, Inl FileExists)
          else if dir_at fs (butlast q) then (tput q m fs, Inr ())
          else (fs, Inl (parent_error fs q)))"

definition mkdir :: "path \<Rightarrow> unit io" where
  "mkdir p = create_at p (Dir [])"

definition open_excl :: "path \<Rightarrow> pystr \<Rightarrow> unit io" where
  "open_excl p t = create_at p (File t)"

text \<open>\<^verbatim>\<open>os.makedirs\<close>, on the reversed path.\<close>

definition mkdir_ok :: "bool \<Rightarrow> path \<Rightarrow> unit io" where
  "mkdir_ok ok p fs =
     (case mkdir p fs of
        (fs', Inl e) \<Rightarrow> if ok \<and> isdir fs' p then (fs', Inr ()) else (fs', Inl e)
      | (fs', Inr u) \<Rightarrow> (fs', Inr u))"

definition swallow_exists :: "unit io \<Rightarrow> unit io" where
  "swallow_exists m fs = (case m fs of (fs', Inl FileExists) \<Rightarrow> (fs', Inr ()) | r \<Rightarrow> r)"

fun makedirs_rev :: "bool \<Rightarrow> path \<Rightarrow> unit io" where
  "makedirs_rev ok [] fs = mkdir_ok ok [] fs"
| "makedirs_rev ok (c # r) fs =
     bindio (\<lambda>fs. if path_exists fs (rev r) then (fs, Inr ())
                  else swallow_exists (makedirs_rev ok r) fs)
            (\<lambda>_. mkdir_ok ok (rev (c # r))) fs"

definition makedirs :: "bool \<Rightarrow> path \<Rightarrow> unit io" where
  "makedirs ok p = makedirs_rev ok (rev p)"

text \<open>\<^verbatim>\<open>open(p, "w")\<close> followed by a write, and \<^verbatim>\<open>open(p, "a")\<close>; both follow links.\<close>

definition write_with :: "(pystr \<Rightarrow> pystr) \<Rightarrow> path \<Rightarrow> unit io" where
  "write_with f p fs =
     (case resolve fs link_limit [] p of
        None \<Rightarrow> (fs, Inl LinkLoop)
      | Some q \<Rightarrow>
          (case tget fs q of
             Some (File t) \<Rightarrow> (tput q (File (f t)) fs, Inr ())
           | Some (Dir _) \<Rightarrow> (fs, Inl IsADirectory)
           | Some (Link _) \<Rightarrow> (fs, Inl LinkLoop)
           | None \<Rightarrow>
               if dir_at fs (butlast q) then (tput q (File (f [])) fs, Inr ())
               else (fs, Inl (parent_error fs q))))"

definition open_write :: "path \<Rightarrow> pystr \<Rightarrow> unit io" where
  "open_write p t = write_with (\<lambda>_. t) p"

definition open_append :: "path \<Rightarrow> pystr \<Rightarrow> unit io" where
  "open_append p t = write_with (\<lambda>old. old @ t) p"

text \<open>\<^verbatim>\<open>shutil.rmtree\<close> refuses a link and a plain file.\<close>

definition rmtree :: "path \<Rightarrow> unit io" where
  "rmtree p fs =
     (case lplace fs p of
        None \<Rightarrow> (fs, Inl LinkLoop)
      | Some q \<Rightarrow>
          (case tget fs q of
             None \<Rightarrow> (fs, Inl NoSuchFile)
           | Some (Link _) \<Rightarrow> (fs, Inl IsALink)
           | Some (File _) \<Rightarrow> (fs, Inl NotADirectory)
           | Some (Dir _) \<Rightarrow> (tdel q fs, Inr ())))"

text \<open>
  \<^verbatim>\<open>shutil.copytree\<close> copies what links lead to. \<open>deref\<close> is the copied content, without the entries
  whose link leads nowhere, and whether there was none of these: any such entry makes the call raise
  after everything else is copied.
\<close>

function (sequential) deref :: "nat \<Rightarrow> node \<Rightarrow> path \<Rightarrow> node \<Rightarrow> node option \<times> bool"
  and deref_list :: "nat \<Rightarrow> node \<Rightarrow> path \<Rightarrow> (pystr \<times> node) list \<Rightarrow> (pystr \<times> node) list \<times> bool" where
  "deref k fs p (File t) = (Some (File t), True)"
| "deref k fs p (Dir cs) = (let r = deref_list k fs p cs in (Some (Dir (fst r)), snd r))"
| "deref 0 fs p (Link t) = (None, False)"
| "deref (Suc k) fs p (Link t) =
     (case resolve fs link_limit [] ((if is_abs t then [] else butlast p) @ comps t) of
        None \<Rightarrow> (None, False)
      | Some q \<Rightarrow> (case tget fs q of None \<Rightarrow> (None, False) | Some n \<Rightarrow> deref k fs q n))"
| "deref_list k fs p [] = ([], True)"
| "deref_list k fs p ((x, c) # cs) =
     (let d = deref k fs (p @ [x]) c; r = deref_list k fs p cs
      in (case fst d of None \<Rightarrow> fst r | Some n \<Rightarrow> (x, n) # fst r, snd d \<and> snd r))"
  by pat_completeness auto
termination
  by (relation "measures [\<lambda>x. case x of Inl (k, _) \<Rightarrow> k | Inr (k, _) \<Rightarrow> k,
        \<lambda>x. case x of Inl (_, _, _, n) \<Rightarrow> size n | Inr (_, _, _, cs) \<Rightarrow> size_list (size_prod (\<lambda>_. 0) size) cs]")
     auto

fun links_in :: "node \<Rightarrow> bool" where
  "links_in (File _) = False"
| "links_in (Link _) = True"
| "links_in (Dir cs) = list_ex (\<lambda>(_, c). links_in c) cs"

definition copytree :: "path \<Rightarrow> path \<Rightarrow> unit io" where
  "copytree src dst fs =
     (case stat fs src of
        None \<Rightarrow> (fs, Inl NoSuchFile)
      | Some (File _) \<Rightarrow> (fs, Inl NotADirectory)
      | Some (Link _) \<Rightarrow> (fs, Inl LinkLoop)
      | Some (Dir cs) \<Rightarrow>
          (let r = deref_list link_limit fs (realpath fs src) cs
           in bindio (makedirs False dst)
                (\<lambda>_ fs'. case lplace fs' dst of
                   None \<Rightarrow> (fs', Inl LinkLoop)
                 | Some d \<Rightarrow> (tput d (Dir (fst r)) fs', if snd r then Inr () else Inl CopyError)) fs))"

text \<open>\<^verbatim>\<open>shutil.move\<close> to a place that is not a directory: a rename.\<close>

definition move_to :: "path \<Rightarrow> path \<Rightarrow> unit io" where
  "move_to src dst fs =
     (case lplace fs src of
        None \<Rightarrow> (fs, Inl LinkLoop)
      | Some q \<Rightarrow>
          (case tget fs q of
             None \<Rightarrow> (fs, Inl NoSuchFile)
           | Some n \<Rightarrow>
               (case lplace fs dst of
                  None \<Rightarrow> (fs, Inl LinkLoop)
                | Some d \<Rightarrow>
                    if isdir fs dst \<or> prefix q d \<or> (is_dir n \<and> tget fs d \<noteq> None) then (fs, Inl CopyError)
                    else if dir_at fs (butlast d) then (tput d n (tdel q fs), Inr ())
                    else (fs, Inl (parent_error fs d)))))"

subsection \<open>Frames: what an operation leaves alone\<close>

text \<open>
  \<open>frame_on look R s s'\<close>: every place that is neither at or below \<open>R\<close> nor on the way to it is the same
  in both states. Any store with the three laws below keeps the frame of \<open>R\<close> when it stores or
  removes at or below \<open>R\<close>.
\<close>

definition frame_on :: "('s \<Rightarrow> path \<Rightarrow> 'n option) \<Rightarrow> path \<Rightarrow> 's \<Rightarrow> 's \<Rightarrow> bool" where
  "frame_on look R s s' \<longleftrightarrow> (\<forall>q. \<not> prefix R q \<longrightarrow> \<not> prefix q R \<longrightarrow> look s' q = look s q)"

lemma frame_on_refl [simp]: "frame_on look R s s"
  by (simp add: frame_on_def)

lemma frame_on_trans: "frame_on look R s t \<Longrightarrow> frame_on look R t u \<Longrightarrow> frame_on look R s u"
  by (auto simp: frame_on_def)

lemma frame_on_weaken:
  assumes "frame_on look R s t" "prefix P R"
  shows "frame_on look P s t"
  unfolding frame_on_def
proof (intro allI impI)
  fix q
  assume "\<not> prefix P q" "\<not> prefix q P"
  then have "\<not> prefix R q" "\<not> prefix q R"
    using assms(2) prefix_same_cases [of q R P] by (auto dest: prefix_order.trans)
  then show "look t q = look s q" using assms(1) by (simp add: frame_on_def)
qed

locale tree_store =
  fixes look :: "'s \<Rightarrow> path \<Rightarrow> 'n option"
    and store :: "path \<Rightarrow> 'n \<Rightarrow> 's \<Rightarrow> 's"
    and remove :: "path \<Rightarrow> 's \<Rightarrow> 's"
  assumes look_store_other: "\<not> prefix p q \<Longrightarrow> \<not> prefix q p \<Longrightarrow> look (store p m s) q = look s q"
    and look_remove_other: "\<not> prefix p q \<Longrightarrow> \<not> prefix q p \<Longrightarrow> look (remove p s) q = look s q"
    and look_remove_below: "p \<noteq> [] \<Longrightarrow> look (remove p s) (p @ q) = None"
begin

lemma frame_store: "prefix R p \<Longrightarrow> frame_on look R s (store p m s)"
  by (rule frame_on_weaken [of _ p]) (auto simp: frame_on_def look_store_other)

lemma frame_remove: "prefix R p \<Longrightarrow> frame_on look R s (remove p s)"
  by (rule frame_on_weaken [of _ p]) (auto simp: frame_on_def look_remove_other)

lemma frame_replace: "prefix R p \<Longrightarrow> prefix R q \<Longrightarrow> frame_on look R s (store p m (remove q s))"
  by (blast intro: frame_on_trans frame_store frame_remove)

lemma removed: "p \<noteq> [] \<Longrightarrow> prefix p q \<Longrightarrow> look (remove p s) q = None"
  by (auto simp: prefix_def look_remove_below)

end

interpretation tree: tree_store tget tput tdel
  by unfold_locales (auto simp: tget_tput_other tget_tdel_other tget_tdel_below)

abbreviation frame :: "path \<Rightarrow> node \<Rightarrow> node \<Rightarrow> bool" where
  "frame \<equiv> frame_on tget"

text \<open>Growth: whatever was there is still there, directories possibly with more entries.\<close>

definition grows :: "node \<Rightarrow> node \<Rightarrow> bool" where
  "grows fs fs' \<longleftrightarrow>
     (\<forall>q n. tget fs q = Some n \<longrightarrow> (if is_dir n then dir_at fs' q else tget fs' q = Some n))"

lemma grows_refl [simp]: "grows fs fs"
  by (auto simp: grows_def dir_at_def)

lemma dir_atE:
  assumes "dir_at fs q"
  obtains cs where "tget fs q = Some (Dir cs)"
  using assms by (auto simp: dir_at_def split: option.splits elim: is_dir.elims)

lemma growsD: "grows fs fs' \<Longrightarrow> tget fs q = Some n \<Longrightarrow> if is_dir n then dir_at fs' q else tget fs' q = Some n"
  unfolding grows_def by blast

lemma grows_dir: "grows fs fs' \<Longrightarrow> dir_at fs q \<Longrightarrow> dir_at fs' q"
  by (erule dir_atE) (auto dest: growsD)

lemma grows_trans:
  assumes "grows s t" "grows t u"
  shows "grows s u"
  unfolding grows_def
proof (intro allI impI)
  fix q n
  assume "tget s q = Some n"
  from growsD [OF assms(1) this] show "if is_dir n then dir_at u q else tget u q = Some n"
    using grows_dir [OF assms(2)] growsD [OF assms(2)] by (cases "is_dir n") auto
qed

lemma grows_file: "grows fs fs' \<Longrightarrow> tget fs q = Some (File t) \<Longrightarrow> tget fs' q = Some (File t)"
  by (auto simp: grows_def)

lemma grows_tput:
  assumes "tget fs q = None" "dir_at fs (butlast q)"
  shows "grows fs (tput q m fs)"
  unfolding grows_def
proof (intro allI impI)
  fix p n
  assume p: "tget fs p = Some n"
  have np: "\<not> prefix q p"
  proof
    assume "prefix q p"
    then have "tget fs p = None" using assms(1) by (auto simp: prefix_def tget_append)
    with p show False by simp
  qed
  show "if is_dir n then dir_at (tput q m fs) p else tget (tput q m fs) p = Some n"
  proof (cases "prefix p q")
    case True
    with np have sp: "strict_prefix p q" by (auto simp: strict_prefix_def)
    then have "prefix p (butlast q)"
      by (cases q rule: rev_cases) (auto simp: strict_prefix_def)
    then have dir: "dir_at fs p" using assms(2) dir_at_mono by blast
    then have "is_dir n" using p by (simp add: dir_at_def)
    with dir_at_tput_above [OF sp dir] show ?thesis by simp
  next
    case False
    with np p show ?thesis by (simp add: tget_tput_other dir_at_def)
  qed
qed

lemma grows_create_at: "grows fs (fst (create_at p m fs))"
  by (auto simp: create_at_def grows_tput split: option.splits)

lemma grows_mkdir_ok: "grows fs (fst (mkdir_ok ok p fs))"
  using grows_create_at [of fs p "Dir []"]
  by (auto simp: mkdir_ok_def mkdir_def split: prod.splits sum.splits)

lemma fst_swallow: "fst (swallow_exists m fs) = fst (m fs)"
  by (auto simp: swallow_exists_def split: prod.splits sum.splits oserror.splits)

lemma grows_bindio:
  assumes "grows fs (fst (m fs))" "\<And>a fs'. grows fs' (fst (f a fs'))"
  shows "grows fs (fst (bindio m f fs))"
  using assms by (auto simp: bindio_def split: prod.splits sum.splits intro: grows_trans)

lemma grows_makedirs_rev: "grows fs (fst (makedirs_rev ok r fs))"
proof (induction r arbitrary: fs)
  case Nil
  show ?case by (simp add: grows_mkdir_ok)
next
  case (Cons c r)
  show ?case
    by (simp, rule grows_bindio) (auto simp: fst_swallow Cons.IH grows_mkdir_ok)
qed

lemma grows_makedirs: "grows fs (fst (makedirs ok p fs))"
  by (simp add: makedirs_def grows_makedirs_rev)


subsection \<open>Links stay as they are\<close>

definition same_links :: "node \<Rightarrow> node \<Rightarrow> bool" where
  "same_links fs fs' \<longleftrightarrow> (\<forall>q t. tget fs' q = Some (Link t) \<longleftrightarrow> tget fs q = Some (Link t))"

lemma same_links_refl [simp]: "same_links fs fs"
  by (simp add: same_links_def)

lemma same_links_trans: "same_links s t \<Longrightarrow> same_links t u \<Longrightarrow> same_links s u"
  by (simp add: same_links_def)

lemma resolve_same_links: "same_links fs fs' \<Longrightarrow> resolve fs' k cur p = resolve fs k cur p"
  by (induction k cur p rule: resolve_induct [where fs = fs])
     (auto simp: resolve_steps same_links_def)

lemma same_links_tput:
  assumes "(tget fs q = None \<and> dir_at fs (butlast q)) \<or> (\<exists>t. tget fs q = Some (File t))"
    and "m = Dir [] \<or> (\<exists>u. m = File u)"
  shows "same_links fs (tput q m fs)"
  unfolding same_links_def
proof (intro allI)
  fix p t
  have par: "q = [] \<or> dir_at fs (butlast q)"
    using assms(1) by (cases q rule: rev_cases) (auto dest: dir_at_prefix)
  show "tget (tput q m fs) p = Some (Link t) \<longleftrightarrow> tget fs p = Some (Link t)"
  proof (cases "prefix q p")
    case True
    then obtain r where p: "p = q @ r" by (auto simp: prefix_def)
    have "tget m r \<noteq> Some (Link t)" using assms(2) by (cases r) auto
    moreover have "tget fs (q @ r) \<noteq> Some (Link t)" using assms(1) by (auto simp: tget_append split: if_splits)
    ultimately show ?thesis using tget_tput_same [OF par] p by simp
  next
    case False
    show ?thesis
    proof (cases "prefix p q")
      case True
      with False have sp: "strict_prefix p q" by (auto simp: strict_prefix_def)
      then have "prefix p (butlast q)" "q \<noteq> []" by (cases q rule: rev_cases; auto simp: strict_prefix_def)+
      then have "dir_at fs p" using par dir_at_mono by blast
      with dir_at_tput_above [OF sp this, of m] show ?thesis by (auto simp: dir_at_def split: option.splits)
    next
      case False
      with \<open>\<not> prefix q p\<close> show ?thesis by (simp add: tget_tput_other)
    qed
  qed
qed

lemma same_links_create_at:
  "m = Dir [] \<or> (\<exists>u. m = File u) \<Longrightarrow> same_links fs (fst (create_at p m fs))"
  by (auto simp: create_at_def intro!: same_links_tput split: option.splits)

lemma same_links_mkdir_ok: "same_links fs (fst (mkdir_ok ok p fs))"
  using same_links_create_at [of "Dir []" fs p]
  by (auto simp: mkdir_ok_def mkdir_def split: prod.splits sum.splits)

lemma same_links_bindio:
  assumes "same_links fs (fst (m fs))" "\<And>a fs'. same_links fs' (fst (f a fs'))"
  shows "same_links fs (fst (bindio m f fs))"
  using assms by (auto simp: bindio_def split: prod.splits sum.splits intro: same_links_trans)

lemma same_links_makedirs: "same_links fs (fst (makedirs ok p fs))"
proof -
  have "same_links fs (fst (makedirs_rev ok r fs))" for r
  proof (induction r arbitrary: fs)
    case Nil
    show ?case by (simp add: same_links_mkdir_ok)
  next
    case (Cons c r)
    show ?case
      by (simp, rule same_links_bindio) (auto simp: fst_swallow Cons.IH same_links_mkdir_ok)
  qed
  then show ?thesis by (simp add: makedirs_def)
qed

lemma same_links_write_with: "same_links fs (fst (write_with f p fs))"
  by (auto simp: write_with_def intro!: same_links_tput split: option.splits node.splits)

lemma stat_kept:
  assumes "grows fs fs'" "same_links fs fs'" "stat fs p = Some n"
  shows "if is_dir n then isdir fs' p else stat fs' p = Some n"
proof -
  from assms(3) obtain q where q: "resolve fs link_limit [] p = Some q" "tget fs q = Some n"
    by (auto simp: stat_def split: option.splits)
  have "resolve fs' link_limit [] p = Some q" using q assms(2) by (simp add: resolve_same_links)
  with growsD [OF assms(1) q(2)] show ?thesis
    by (auto simp: isdir_def stat_def dir_at_def split: option.splits)
qed

lemma isdir_kept: "grows fs fs' \<Longrightarrow> same_links fs fs' \<Longrightarrow> isdir fs p \<Longrightarrow> isdir fs' p"
  by (auto simp: isdir_def [of fs] split: option.splits dest: stat_kept)

lemma read_text_kept:
  "grows fs fs' \<Longrightarrow> same_links fs fs' \<Longrightarrow> snd (read_text p fs) = Inr t \<Longrightarrow> read_text p fs' = (fs', Inr t)"
  by (auto simp: read_text_def split: option.splits node.splits dest: stat_kept)

lemma fst_read_text [simp]: "fst (read_text p fs) = fs"
  by (simp add: read_text_def)

subsection \<open>Making directories and files\<close>

lemma resolve_snoc:
  "resolve fs k cur p = Some s \<Longrightarrow> plain_name c \<Longrightarrow> \<nexists>t. tget fs (s @ [c]) = Some (Link t) \<Longrightarrow>
   resolve fs k cur (p @ [c]) = Some (s @ [c])"
  by (induction k cur p rule: resolve_induct [where fs = fs]) (auto simp: resolve_steps)

lemma create_at_stat:
  assumes "create_at (d @ [c]) m fs = (fs', Inr ())" "plain_name c" "m = Dir [] \<or> (\<exists>u. m = File u)"
  shows "stat fs' (d @ [c]) = Some m"
proof -
  from assms(1) obtain s where s: "resolve fs link_limit [] d = Some s"
      "tget fs (s @ [c]) = None" "dir_at fs s" "fs' = tput (s @ [c]) m fs"
    by (auto simp: create_at_def lplace_def split: option.splits if_splits)
  have sl: "same_links fs fs'" using s assms(3) by (auto intro!: same_links_tput)
  have get: "tget fs' (s @ [c]) = Some m" using s by (auto intro!: tget_tput_self)
  have "resolve fs' link_limit [] (d @ [c]) = Some (s @ [c])"
    using s sl assms(2,3) get by (intro resolve_snoc) (auto simp: resolve_same_links)
  with get show ?thesis by (simp add: stat_def)
qed

lemma mkdir_ok_isdir:
  "mkdir_ok True (d @ [c]) fs = (fs', Inr ()) \<Longrightarrow> plain_name c \<Longrightarrow> isdir fs' (d @ [c])"
  by (auto simp: mkdir_ok_def mkdir_def isdir_def split: prod.splits sum.splits if_splits
      dest: create_at_stat)

lemma makedirs_isdir:
  "makedirs True (d @ [c]) fs = (fs', Inr ()) \<Longrightarrow> plain_name c \<Longrightarrow> isdir fs' (d @ [c])"
  by (auto simp: makedirs_def bindio_def mkdir_ok_isdir split: prod.splits sum.splits)

lemma child_exists:
  assumes "stat fs (d @ [c]) \<noteq> None" "plain_name c"
  shows "\<exists>s. resolve fs link_limit [] d = Some s \<and> dir_at fs s \<and> tget fs (s @ [c]) \<noteq> None"
proof -
  from assms(1) obtain q where q: "resolve fs link_limit [] (d @ [c]) = Some q" "tget fs q \<noteq> None"
    by (auto simp: stat_def split: option.splits)
  from resolve_append [OF q(1)] obtain k' s where s: "resolve fs link_limit [] d = Some s"
      "resolve fs k' s [c] = Some q" by blast
  have "tget fs (s @ [c]) \<noteq> None"
  proof
    assume "tget fs (s @ [c]) = None"
    with s assms(2) have "q = s @ [c]" by (simp add: resolve_step)
    with q \<open>tget fs (s @ [c]) = None\<close> show False by simp
  qed
  then show ?thesis using s by (auto intro: dir_at_prefix)
qed

lemma makedirs_present:
  assumes "isdir fs (d @ [c])" "plain_name c"
  shows "makedirs True (d @ [c]) fs = (fs, Inr ())"
proof -
  have "stat fs (d @ [c]) \<noteq> None" using assms(1) by (auto simp: isdir_def split: option.splits)
  from child_exists [OF this assms(2)] obtain s where
    s: "resolve fs link_limit [] d = Some s" "dir_at fs s" "tget fs (s @ [c]) \<noteq> None" by blast
  then have "path_exists fs d" by (auto simp: path_exists_def stat_def dir_at_def split: option.splits)
  moreover have "mkdir (d @ [c]) fs = (fs, Inl FileExists)"
    using s by (simp add: mkdir_def create_at_def lplace_def)
  ultimately show ?thesis using assms(1)
    by (simp add: makedirs_def bindio_def mkdir_ok_def)
qed

lemma makedirs_child:
  assumes "dir_at fs D" "plain_path D" "plain_name c" "tget fs (D @ [c]) = None"
  shows "makedirs ok (D @ [c]) fs = (tput (D @ [c]) (Dir []) fs, Inr ())"
proof -
  have "path_exists fs D" using assms
    by (auto simp: path_exists_def stat_def realpath_dir dir_at_def split: option.splits)
  moreover have "mkdir (D @ [c]) fs = (tput (D @ [c]) (Dir []) fs, Inr ())"
    using assms by (simp add: mkdir_def create_at_def lplace_child)
  ultimately show ?thesis by (simp add: makedirs_def bindio_def mkdir_ok_def)
qed

lemma open_excl_present:
  assumes "stat fs (d @ [c]) = Some n" "plain_name c"
  shows "open_excl (d @ [c]) t fs = (fs, Inl FileExists)"
  using child_exists [of fs d c] assms by (auto simp: open_excl_def create_at_def lplace_def)

lemma read_text_File: "stat fs p = Some (File t) \<Longrightarrow> read_text p fs = (fs, Inr (univ_nl t))"
  by (simp add: read_text_def)

end
