(* ===== verification/Py_Regex.thy ===== *)
theory Py_Regex
  imports Oracle_Prelude
begin

text \<open>
  The part of Python's \<^verbatim>\<open>re\<close> that the scripts use: a backtracking matcher that yields every way to
  match, in the order Python tries them, so the first one is the match Python reports. Patterns are
  written as values of \<open>regex\<close>, next to the source's pattern; classes are predicates on code points.
\<close>

datatype regex =
    Eps
  | Cls "nat \<Rightarrow> bool"
  | Seq regex regex
  | Alt regex regex
  | Rep nat "nat option" regex
  | Grp nat regex
  | Bol
  | BolM
  | Eol
  | EolM
  | WordB

text \<open>A matcher state: the position reached and the group spans, the latest first.\<close>

type_synonym rstate = "nat \<times> (nat \<times> nat \<times> nat) list"

text \<open>
  A greedy repetition takes one more copy before it stops, and never one that consumes nothing.
  \<open>fuel\<close> bounds the copies; one more than the length of the text is enough, because each copy
  moves the position.
\<close>

fun rep :: "nat \<Rightarrow> (rstate \<Rightarrow> rstate list) \<Rightarrow> nat \<Rightarrow> nat option \<Rightarrow> rstate \<Rightarrow> rstate list" where
  "rep 0 f mn mx st = (if mn = 0 then [st] else [])"
| "rep (Suc k) f mn mx st =
     (if mx = Some 0 then []
      else concat (map (\<lambda>st'. if fst st' = fst st then []
                               else rep k f (mn - 1) (map_option (\<lambda>n. n - 1) mx) st') (f st)))
     @ (if mn = 0 then [st] else [])"

primrec rmatch :: "(nat \<Rightarrow> bool) \<Rightarrow> pystr \<Rightarrow> regex \<Rightarrow> rstate \<Rightarrow> rstate list" where
  "rmatch W s Eps = (\<lambda>st. [st])"
| "rmatch W s (Cls p) = (\<lambda>st. if fst st < length s \<and> p (s ! fst st) then [(Suc (fst st), snd st)] else [])"
| "rmatch W s (Seq a b) = (\<lambda>st. concat (map (rmatch W s b) (rmatch W s a st)))"
| "rmatch W s (Alt a b) = (\<lambda>st. rmatch W s a st @ rmatch W s b st)"
| "rmatch W s (Rep mn mx a) = rep (Suc (length s)) (rmatch W s a) mn mx"
| "rmatch W s (Grp n a) =
     (\<lambda>st. map (\<lambda>st'. (fst st', (n, fst st, fst st') # snd st')) (rmatch W s a st))"
| "rmatch W s Bol = (\<lambda>st. if fst st = 0 then [st] else [])"
| "rmatch W s BolM = (\<lambda>st. if fst st = 0 \<or> s ! (fst st - 1) = 10 then [st] else [])"
| "rmatch W s Eol =
     (\<lambda>st. if fst st = length s \<or> (Suc (fst st) = length s \<and> s ! fst st = 10) then [st] else [])"
| "rmatch W s EolM =
     (\<lambda>st. if fst st = length s \<or> (fst st < length s \<and> s ! fst st = 10) then [st] else [])"
| "rmatch W s WordB =
     (\<lambda>st. if (0 < fst st \<and> W (s ! (fst st - 1))) \<noteq> (fst st < length s \<and> W (s ! fst st))
           then [st] else [])"

text \<open>\<^verbatim>\<open>re.match\<close> and \<^verbatim>\<open>re.search\<close>: the state after the first match, and the text of a group.\<close>

definition re_match :: "(nat \<Rightarrow> bool) \<Rightarrow> regex \<Rightarrow> pystr \<Rightarrow> rstate option" where
  "re_match W r s = (case rmatch W s r (0, []) of [] \<Rightarrow> None | st # _ \<Rightarrow> Some st)"

fun search_from :: "(nat \<Rightarrow> bool) \<Rightarrow> regex \<Rightarrow> pystr \<Rightarrow> nat list \<Rightarrow> rstate option" where
  "search_from W r s [] = None"
| "search_from W r s (i # is) =
     (case rmatch W s r (i, []) of [] \<Rightarrow> search_from W r s is | st # _ \<Rightarrow> Some st)"

definition re_search :: "(nat \<Rightarrow> bool) \<Rightarrow> regex \<Rightarrow> pystr \<Rightarrow> rstate option" where
  "re_search W r s = search_from W r s [0..<Suc (length s)]"

definition re_group :: "pystr \<Rightarrow> nat \<Rightarrow> rstate \<Rightarrow> pystr" where
  "re_group s n st =
     (case map_of (snd st) n of None \<Rightarrow> [] | Some (i, j) \<Rightarrow> take (j - i) (drop i s))"

abbreviation star :: "regex \<Rightarrow> regex" where "star r \<equiv> Rep 0 None r"
abbreviation plus1 :: "regex \<Rightarrow> regex" where "plus1 r \<equiv> Rep 1 None r"
abbreviation cp :: "nat \<Rightarrow> regex" where "cp c \<equiv> Cls (\<lambda>x. x = c)"

fun Str :: "pystr \<Rightarrow> regex" where
  "Str [] = Eps"
| "Str (c # cs) = Seq (cp c) (Str cs)"

text \<open>For patterns without \<^verbatim>\<open>\b\<close> the word class does not matter.\<close>

abbreviation no_word :: "nat \<Rightarrow> bool" where "no_word \<equiv> (\<lambda>_. False)"

section \<open>Laws\<close>

definition span :: "(nat \<Rightarrow> bool) \<Rightarrow> pystr \<Rightarrow> nat \<Rightarrow> nat \<Rightarrow> bool" where
  "span q s i j \<longleftrightarrow> i \<le> j \<and> (i = j \<or> j \<le> length s) \<and> (\<forall>x. i \<le> x \<and> x < j \<longrightarrow> q (s ! x))"

lemma span_step: "span q s i j \<longleftrightarrow> i = j \<or> (i < length s \<and> q (s ! i) \<and> span q s (Suc i) j)"
proof (cases "i = j")
  case True
  then show ?thesis by (auto simp: span_def)
next
  case False
  have "(\<forall>x. i \<le> x \<and> x < j \<longrightarrow> q (s ! x)) \<longleftrightarrow> q (s ! i) \<and> (\<forall>x. Suc i \<le> x \<and> x < j \<longrightarrow> q (s ! x))"
    if "i < j" using that by (metis Suc_leD Suc_leI le_eq_less_or_eq)
  with False show ?thesis unfolding span_def by auto
qed

definition count_ok :: "nat \<Rightarrow> nat \<Rightarrow> nat option \<Rightarrow> nat \<Rightarrow> bool" where
  "count_ok k mn mx n \<longleftrightarrow> mn \<le> n \<and> n \<le> k \<and> (case mx of None \<Rightarrow> True | Some m \<Rightarrow> n \<le> m)"

lemma rep_cls:
  "st' \<in> set (rep k (rmatch W s (Cls q)) mn mx (i, c)) \<longleftrightarrow>
     (\<exists>j. st' = (j, c) \<and> span q s i j \<and> count_ok k mn mx (j - i))"
proof (induction k arbitrary: mn mx i)
  case 0
  show ?case by (auto simp: count_ok_def span_def split: option.splits)
next
  case (Suc k)
  let ?mx = "map_option (\<lambda>n. n - 1) mx"
  have step: "st' \<in> set (rep (Suc k) (rmatch W s (Cls q)) mn mx (i, c)) \<longleftrightarrow>
      (mx \<noteq> Some 0 \<and> i < length s \<and> q (s ! i)
        \<and> st' \<in> set (rep k (rmatch W s (Cls q)) (mn - 1) ?mx (Suc i, c)))
      \<or> (mn = 0 \<and> st' = (i, c))"
    by auto
  have cnt: "count_ok (Suc k) mn mx (j - i) \<longleftrightarrow> mx \<noteq> Some 0 \<and> count_ok k (mn - 1) ?mx (j - Suc i)"
    if "Suc i \<le> j" for j
    using that by (auto simp: count_ok_def split: option.splits)
  have cnt0: "count_ok (Suc k) mn mx 0 \<longleftrightarrow> mn = 0"
    by (auto simp: count_ok_def split: option.splits)
  show ?case
  proof
    assume "st' \<in> set (rep (Suc k) (rmatch W s (Cls q)) mn mx (i, c))"
    with step consider (more) j where "mx \<noteq> Some 0" "i < length s" "q (s ! i)" "st' = (j, c)"
        "span q s (Suc i) j" "count_ok k (mn - 1) ?mx (j - Suc i)" | (stop) "mn = 0" "st' = (i, c)"
      using Suc.IH by blast
    then show "\<exists>j. st' = (j, c) \<and> span q s i j \<and> count_ok (Suc k) mn mx (j - i)"
    proof cases
      case more
      then have "Suc i \<le> j" by (simp add: span_def)
      with more cnt show ?thesis using span_step [of q s i j] by auto
    next
      case stop
      then show ?thesis using cnt0 by (auto simp: span_def)
    qed
  next
    assume "\<exists>j. st' = (j, c) \<and> span q s i j \<and> count_ok (Suc k) mn mx (j - i)"
    then obtain j where j: "st' = (j, c)" "span q s i j" "count_ok (Suc k) mn mx (j - i)" by blast
    show "st' \<in> set (rep (Suc k) (rmatch W s (Cls q)) mn mx (i, c))"
    proof (cases "i = j")
      case True
      with j cnt0 step show ?thesis by simp
    next
      case False
      with j span_step [of q s i j] have sp: "i < length s" "q (s ! i)" "span q s (Suc i) j" by auto
      then have "Suc i \<le> j" by (simp add: span_def)
      with cnt j sp step Suc.IH show ?thesis by blast
    qed
  qed
qed

text \<open>
  The shape \<open>^[p][q]{mn,mx}$\<close> used for names: one character, then a bounded run, up to the end or
  to one trailing line feed (\<open>$\<close> also matches just before it).
\<close>

definition name_regex :: "(nat \<Rightarrow> bool) \<Rightarrow> (nat \<Rightarrow> bool) \<Rightarrow> nat \<Rightarrow> nat \<Rightarrow> regex" where
  "name_regex p q mn mx = Seq Bol (Seq (Cls p) (Seq (Rep mn (Some mx) (Cls q)) Eol))"

definition name_shape :: "(nat \<Rightarrow> bool) \<Rightarrow> (nat \<Rightarrow> bool) \<Rightarrow> nat \<Rightarrow> nat \<Rightarrow> pystr \<Rightarrow> bool" where
  "name_shape p q mn mx s \<longleftrightarrow>
     s \<noteq> [] \<and> p (hd s) \<and> list_all q (tl s) \<and> mn \<le> length (tl s) \<and> length (tl s) \<le> mx"

lemma re_match_iff: "re_match W r s \<noteq> None \<longleftrightarrow> (\<exists>st. st \<in> set (rmatch W s r (0, [])))"
  by (cases "rmatch W s r (0, [])") (auto simp: re_match_def)

lemma rmatch_mem:
  "st' \<in> set (rmatch W s (Seq a b) st) \<longleftrightarrow> (\<exists>m. m \<in> set (rmatch W s a st) \<and> st' \<in> set (rmatch W s b m))"
  "st' \<in> set (rmatch W s (Alt a b) st) \<longleftrightarrow> st' \<in> set (rmatch W s a st) \<or> st' \<in> set (rmatch W s b st)"
  "st' \<in> set (rmatch W s (Cls p) st) \<longleftrightarrow>
     fst st < length s \<and> p (s ! fst st) \<and> st' = (Suc (fst st), snd st)"
  "st' \<in> set (rmatch W s Bol st) \<longleftrightarrow> fst st = 0 \<and> st' = st"
  "st' \<in> set (rmatch W s Eol st) \<longleftrightarrow>
     (fst st = length s \<or> (Suc (fst st) = length s \<and> s ! fst st = 10)) \<and> st' = st"
  by auto

lemma span_tl: "span q (x # t) (Suc 0) (Suc n) \<longleftrightarrow> n = 0 \<or> (n \<le> length t \<and> list_all q (take n t))"
  unfolding span_def list_all_length by (auto simp: nth_Cons split: nat.splits)

lemma name_regex_Cons:
  "re_match W (name_regex p q mn mx) (x # t) \<noteq> None \<longleftrightarrow>
     p x \<and> (\<exists>n. n \<le> length t \<and> list_all q (take n t) \<and> mn \<le> n \<and> n \<le> mx
              \<and> (n = length t \<or> (Suc n = length t \<and> t ! n = 10)))"
proof -
  let ?s = "x # t"
  let ?eol = "\<lambda>j. j = length ?s \<or> (Suc j = length ?s \<and> ?s ! j = 10)"
  have "re_match W (name_regex p q mn mx) ?s \<noteq> None \<longleftrightarrow>
      p x \<and> (\<exists>st. st \<in> set (rep (Suc (length ?s)) (rmatch W ?s (Cls q)) mn (Some mx) (Suc 0, [])) \<and> ?eol (fst st))"
    unfolding re_match_iff name_regex_def rmatch_mem by (auto simp del: rep.simps)
  also have "\<dots> \<longleftrightarrow> p x \<and> (\<exists>j. span q ?s (Suc 0) j \<and> count_ok (Suc (length ?s)) mn (Some mx) (j - Suc 0) \<and> ?eol j)"
    unfolding rep_cls by auto
  also have "\<dots> \<longleftrightarrow> p x \<and> (\<exists>n. span q ?s (Suc 0) (Suc n) \<and> mn \<le> n \<and> n \<le> mx \<and> ?eol (Suc n))"
  proof -
    have shift: "(\<exists>j. span q ?s (Suc 0) j \<and> P (j - Suc 0) \<and> Q j) \<longleftrightarrow> (\<exists>n. span q ?s (Suc 0) (Suc n) \<and> P n \<and> Q (Suc n))"
      for P :: "nat \<Rightarrow> bool" and Q
    proof
      assume "\<exists>j. span q ?s (Suc 0) j \<and> P (j - Suc 0) \<and> Q j"
      then obtain j where j: "span q ?s (Suc 0) j" "P (j - Suc 0)" "Q j" by blast
      then obtain n where "j = Suc n" by (cases j) (auto simp: span_def)
      with j show "\<exists>n. span q ?s (Suc 0) (Suc n) \<and> P n \<and> Q (Suc n)" by auto
    next
      assume "\<exists>n. span q ?s (Suc 0) (Suc n) \<and> P n \<and> Q (Suc n)"
      then show "\<exists>j. span q ?s (Suc 0) j \<and> P (j - Suc 0) \<and> Q j" by (metis diff_Suc_1 One_nat_def)
    qed
    have "count_ok (Suc (length ?s)) mn (Some mx) n \<and> ?eol (Suc n) \<longleftrightarrow> (mn \<le> n \<and> n \<le> mx) \<and> ?eol (Suc n)" for n
      by (auto simp: count_ok_def)
    with shift [of "count_ok (Suc (length ?s)) mn (Some mx)" ?eol] show ?thesis by auto
  qed
  also have "\<dots> \<longleftrightarrow> p x \<and> (\<exists>n. n \<le> length t \<and> list_all q (take n t) \<and> mn \<le> n \<and> n \<le> mx
              \<and> (n = length t \<or> (Suc n = length t \<and> t ! n = 10)))"
  proof -
    have "span q ?s (Suc 0) (Suc n) \<longleftrightarrow> n \<le> length t \<and> list_all q (take n t)" for n
      using span_tl [of q x t n] by (cases n) auto
    then show ?thesis by auto
  qed
  finally show ?thesis .
qed

lemma name_regex_match:
  "re_match W (name_regex p q mn mx) s \<noteq> None \<longleftrightarrow>
     name_shape p q mn mx s \<or> (\<exists>t. s = t @ [10] \<and> name_shape p q mn mx t)"
proof (cases s)
  case Nil
  then show ?thesis by (simp add: re_match_def name_regex_def name_shape_def)
next
  case (Cons x t)
  have "(\<exists>n. n \<le> length t \<and> list_all q (take n t) \<and> mn \<le> n \<and> n \<le> mx
              \<and> (n = length t \<or> (Suc n = length t \<and> t ! n = 10)))
      \<longleftrightarrow> (list_all q t \<and> mn \<le> length t \<and> length t \<le> mx)
         \<or> (\<exists>u. t = u @ [10] \<and> list_all q u \<and> mn \<le> length u \<and> length u \<le> mx)"
    (is "?L \<longleftrightarrow> ?A \<or> ?B")
  proof
    assume ?L
    then obtain n where n: "list_all q (take n t)" "mn \<le> n" "n \<le> mx"
        "n = length t \<or> (Suc n = length t \<and> t ! n = 10)" by blast
    then show "?A \<or> ?B"
    proof (cases "n = length t")
      case False
      with n(4) have "t = take n t @ [10]" by (metis lessI take_Suc_conv_app_nth take_all_iff le_refl)
      moreover have "length (take n t) = n" using n(4) False by simp
      ultimately show ?thesis using n(1-3) by metis
    qed (use n in simp)
  next
    assume "?A \<or> ?B"
    then show ?L
    proof
      assume ?B
      then obtain u where "t = u @ [10]" "list_all q u" "mn \<le> length u" "length u \<le> mx" by blast
      then show ?L by (intro exI [of _ "length u"]) simp
    qed (auto intro!: exI [of _ "length t"])
  qed
  moreover have "(\<exists>t'. s = t' @ [10] \<and> name_shape p q mn mx t')
      \<longleftrightarrow> p x \<and> (\<exists>u. t = u @ [10] \<and> list_all q u \<and> mn \<le> length u \<and> length u \<le> mx)
         \<or> (t = [] \<and> x = 10 \<and> name_shape p q mn mx [])"
    using Cons by (auto simp: name_shape_def append_eq_Cons_conv Cons_eq_append_conv)
  ultimately show ?thesis
    unfolding Cons name_regex_Cons by (auto simp: name_shape_def)
qed

end
