(* ===== verification/Frontmatter.thy ===== *)
theory Frontmatter
  imports Oracle_Prelude "HOL-Library.AList"
begin

text \<open>
  The head of a SKILL.md file: how \<^verbatim>\<open>auto_skill.py\<close> writes it (\<^verbatim>\<open>_yaml_scalar\<close>, \<^verbatim>\<open>_render\<close>) and how the
  scripts read it back (\<^verbatim>\<open>_unquote\<close>, \<^verbatim>\<open>_read_frontmatter\<close>, the \<^verbatim>\<open>_fm\<close> copies of \<^verbatim>\<open>collect_commit.py\<close> and
  \<^verbatim>\<open>sync_skills.py\<close>, the janitor's \<^verbatim>\<open>_frontmatter\<close>). The contract of all readers is the locale
  \<open>frontmatter_reader\<close>; each is interpreted on the code's own definition.
\<close>

section \<open>Scalars\<close>

abbreviation quote :: nat where "quote \<equiv> 39"
abbreviation dquote :: nat where "dquote \<equiv> 34"
abbreviation colon :: nat where "colon \<equiv> 58"
abbreviation newline :: nat where "newline \<equiv> 10"
abbreviation blank :: nat where "blank \<equiv> 32"
abbreviation dashes :: pystr where "dashes \<equiv> lit ''---''"

lemma dashes_facts [simp]:
  "newline \<notin> set dashes" "colon \<notin> set dashes" "blank \<notin> set dashes" "quote \<notin> set dashes"
  "13 \<notin> set dashes" "hd dashes = 45" "last dashes = 45" "one_line dashes" "prefix dashes (dashes @ s)"
  by (auto simp: lit_simps is_linebreak_def)

lemma strip_dashes [simp]: "py_strip dashes = dashes"
  unfolding py_strip_def by (rule strip_by_id) (simp add: is_space_def)

lemma butlast_dashes [simp]: "butlast dashes = lit ''--''"
  by (simp add: lit_simps)

lemma short_dashes [simp]: "\<not> contains dashes (lit ''--'')"
  by code_simp

text \<open>What a free-text value is flattened to before quoting.\<close>

definition flat_text :: "pystr option \<Rightarrow> pystr" where
  "flat_text v =
     (case v of None \<Rightarrow> []
      | Some t \<Rightarrow> py_strip (replace_cp 13 [blank] (replace_cp newline [blank] t)))"

definition yaml_scalar :: "pystr option \<Rightarrow> pystr" where
  "yaml_scalar v = [quote] @ replace_cp quote [quote, quote] (flat_text v) @ [quote]"

definition unquote :: "pystr \<Rightarrow> pystr" where
  "unquote v =
     (if 2 \<le> length v \<and> hd v = last v \<and> hd v \<in> {dquote, quote}
      then (let inner = butlast (tl v)
            in if hd v = quote then replace_all [quote, quote] [quote] inner else inner)
      else v)"

text \<open>A codec for one value of a line: reading back what was written gives its normal form.\<close>

locale scalar_codec =
  fixes enc :: "'v \<Rightarrow> pystr" and dec :: "pystr \<Rightarrow> pystr" and norm :: "'v \<Rightarrow> pystr"
  assumes dec_enc: "dec (enc v) = norm v"
    and enc_trimmed: "py_strip (enc v) = enc v"
begin

lemma dec_line: "dec (py_strip (blank # enc v)) = norm v"
  by (simp add: py_strip_space enc_trimmed dec_enc)

lemma enc_agree: "enc v = enc w \<Longrightarrow> norm v = norm w"
  using dec_enc by metis

end

lemma quoted_strip: "py_strip ([quote] @ s @ [quote]) = [quote] @ s @ [quote]"
  unfolding py_strip_def by (rule strip_by_id) (simp add: is_space_def)

lemma unquote_quoted: "unquote ([quote] @ s @ [quote]) = replace_all [quote, quote] [quote] s"
  by (simp add: unquote_def Let_def)

lemma unquote_yaml_scalar: "unquote (yaml_scalar v) = flat_text v"
  unfolding yaml_scalar_def unquote_quoted by (rule undouble)

interpretation quoted: scalar_codec yaml_scalar unquote flat_text
  by unfold_locales (simp_all add: unquote_yaml_scalar, simp add: yaml_scalar_def quoted_strip [simplified])

lemma unquote_plain: "v = [] \<or> hd v \<notin> {quote, dquote} \<Longrightarrow> unquote v = v"
  by (cases v) (auto simp: unquote_def)

text \<open>Machine-shaped values (names, hashes, time stamps) are written bare.\<close>

definition bare_ok :: "pystr \<Rightarrow> bool" where
  "bare_ok v \<longleftrightarrow> py_strip v = v \<and> (v = [] \<or> hd v \<notin> {quote, dquote})"

lemma flat_text_trimmed: "py_strip (flat_text v) = flat_text v"
  by (simp add: flat_text_def split: option.splits)

lemma flat_text_id: "one_line t \<Longrightarrow> py_strip t = t \<Longrightarrow> flat_text (Some t) = t"
proof -
  assume "one_line t" and t: "py_strip t = t"
  then have "newline \<notin> set t" "13 \<notin> set t"
    unfolding one_line_iff by (metis linebreak_LF_CR)+
  with t show ?thesis by (simp add: flat_text_def replace_cp_id)
qed

section \<open>Blocks\<close>

text \<open>A parsed head is an insertion-ordered dictionary; a repeated key overwrites its value in place.\<close>

type_synonym pydict = "(pystr \<times> pystr) list"

definition dget :: "pydict \<Rightarrow> pystr \<Rightarrow> pystr \<Rightarrow> pystr" where
  "dget d k dflt = (case map_of d k of None \<Rightarrow> dflt | Some v \<Rightarrow> v)"

definition fm_line :: "pystr \<times> pystr \<Rightarrow> pystr" where
  "fm_line kv = fst kv @ [colon, blank] @ snd kv"

definition fm_block :: "pydict \<Rightarrow> pystr \<Rightarrow> pystr" where
  "fm_block kvs rest =
     dashes @ [newline] @ concat (map (\<lambda>kv. fm_line kv @ [newline]) kvs) @ dashes @ [newline] @ rest"

text \<open>A line a reader gets back whole: a key without colon or surrounding space, no line break.\<close>

definition line_ok :: "pystr \<times> pystr \<Rightarrow> bool" where
  "line_ok kv \<longleftrightarrow> fst kv \<noteq> [] \<and> py_strip (fst kv) = fst kv \<and> colon \<notin> set (fst kv)
     \<and> one_line (fst kv) \<and> one_line (snd kv)"

definition no_dashes :: "pystr \<times> pystr \<Rightarrow> bool" where
  "no_dashes kv \<longleftrightarrow> \<not> contains dashes (fst kv) \<and> \<not> contains dashes (snd kv)"

locale frontmatter_reader =
  fixes read :: "pystr \<Rightarrow> pydict" and clean :: "pystr \<times> pystr \<Rightarrow> bool" and val :: "pystr \<Rightarrow> pystr"
  assumes read_block:
    "list_all clean kvs \<Longrightarrow> distinct (map fst kvs) \<Longrightarrow>
     read (fm_block kvs rest) = map (\<lambda>(k, r). (k, val r)) kvs"
begin

lemma read_field:
  "list_all clean kvs \<Longrightarrow> distinct (map fst kvs) \<Longrightarrow>
   map_of (read (fm_block kvs rest)) k = map_option val (map_of kvs k)"
  by (simp add: read_block map_of_map [of val kvs, unfolded comp_def] )

lemma read_rest: "list_all clean kvs \<Longrightarrow> distinct (map fst kvs) \<Longrightarrow>
   read (fm_block kvs rest) = read (fm_block kvs rest')"
  by (simp add: read_block)

lemma dget_field:
  "list_all clean kvs \<Longrightarrow> distinct (map fst kvs) \<Longrightarrow> map_of kvs k = Some r \<Longrightarrow>
   dget (read (fm_block kvs rest)) k dflt = val r"
  by (simp add: dget_def read_field)

end

section \<open>The readers\<close>

definition fm_step :: "pydict \<Rightarrow> pystr \<Rightarrow> pydict" where
  "fm_step fm line =
     (if py_strip line = [] \<or> py_lstrip line \<noteq> line then fm
      else if colon \<in> set line
      then AList.update (py_strip (before_cp colon line)) (unquote (py_strip (after_cp colon line))) fm
      else fm)"

definition read_frontmatter :: "pystr \<Rightarrow> pydict \<times> pystr" where
  "read_frontmatter text =
     (if \<not> prefix dashes text then ([], text)
      else (case split_max dashes 2 text of
              [_, raw, body] \<Rightarrow> (foldl fm_step [] (splitlines raw), lstrip_by (\<lambda>c. c = newline) body)
            | _ \<Rightarrow> ([], text)))"

text \<open>The janitor's reader: the head ends at the first line that is three dashes when stripped, and
  doubled quotes inside a quoted value stay doubled.\<close>

definition janitor_unquote :: "pystr \<Rightarrow> pystr" where
  "janitor_unquote v =
     (if 2 \<le> length v \<and> hd v = last v \<and> hd v \<in> {dquote, quote} then butlast (tl v) else v)"

fun janitor_lines :: "pydict \<Rightarrow> pystr list \<Rightarrow> pydict" where
  "janitor_lines fm [] = fm"
| "janitor_lines fm (ln # lns) =
     (if py_strip ln = dashes then fm
      else if py_lstrip ln \<noteq> ln \<or> colon \<notin> set ln then janitor_lines fm lns
      else janitor_lines
             (AList.update (py_strip (before_cp colon ln)) (janitor_unquote (py_strip (after_cp colon ln))) fm)
             lns)"

definition janitor_frontmatter :: "pystr \<Rightarrow> pydict" where
  "janitor_frontmatter text =
     (if \<not> prefix dashes text then [] else janitor_lines [] (tl (splitlines text)))"

subsection \<open>They meet the contract\<close>

lemma update_fresh: "k \<notin> fst ` set d \<Longrightarrow> AList.update k v d = d @ [(k, v)]"
  by (induction d) auto

lemma map_update_fresh:
  "distinct (map fst kvs) \<Longrightarrow> fst ` set kvs \<inter> fst ` set d = {} \<Longrightarrow>
   foldl (\<lambda>d (k, r). AList.update k (f r) d) d kvs = d @ map (\<lambda>(k, r). (k, f r)) kvs"
proof (induction kvs arbitrary: d)
  case (Cons kv kvs)
  obtain k r where kv: "kv = (k, r)" by (cases kv)
  with Cons.prems have "AList.update k (f r) d = d @ [(k, f r)]"
    by (intro update_fresh) auto
  with Cons kv show ?case by auto
qed simp

lemma line_hd:
  assumes "line_ok kv"
  shows "py_lstrip (fm_line kv) = fm_line kv" and "py_strip (fm_line kv) \<noteq> []"
    and "colon \<in> set (fm_line kv)" and "py_strip (fm_line kv) \<noteq> dashes"
proof -
  obtain k r where kv: "kv = (k, r)" by (cases kv)
  from assms kv have k: "k \<noteq> []" "py_strip k = k" by (auto simp: line_ok_def)
  then have nsp: "\<not> is_space (hd k)"
    using strip_by_hd [of is_space k] by (auto simp: py_strip_def)
  then show "py_lstrip (fm_line kv) = fm_line kv"
    using k kv by (auto simp: py_lstrip_def fm_line_def intro!: lstrip_by_id)
  show "colon \<in> set (fm_line kv)" by (simp add: fm_line_def)
  have cin: "colon \<in> set (py_strip (fm_line kv))"
  proof -
    obtain a b where ab: "fm_line kv = a @ py_strip (fm_line kv) @ b"
        "\<forall>x\<in>set a. is_space x" "\<forall>x\<in>set b. is_space x"
      using strip_by_decomp [of "fm_line kv" is_space] by (auto simp: py_strip_def)
    have "colon \<notin> set a" "colon \<notin> set b" using ab by (auto simp: is_space_def)
    then show ?thesis using \<open>colon \<in> set (fm_line kv)\<close> ab(1) by (metis Un_iff set_append)
  qed
  then show "py_strip (fm_line kv) \<noteq> []" by auto
  from cin show "py_strip (fm_line kv) \<noteq> dashes" by auto
qed

lemma line_cut:
  assumes "line_ok kv"
  shows "py_strip (before_cp colon (fm_line kv)) = fst kv"
    and "py_strip (after_cp colon (fm_line kv)) = py_strip (snd kv)"
  using assms by (auto simp: line_ok_def fm_line_def py_strip_space)

lemma line_one: "line_ok kv \<Longrightarrow> one_line (fm_line kv)"
  by (auto simp: line_ok_def fm_line_def is_linebreak_def)

lemma fm_step_line:
  "line_ok kv \<Longrightarrow> fm_step d (fm_line kv) = AList.update (fst kv) (unquote (py_strip (snd kv))) d"
  by (simp add: fm_step_def line_hd line_cut)

lemma foldl_fm_step:
  "list_all line_ok kvs \<Longrightarrow>
   foldl fm_step d (map fm_line kvs) = foldl (\<lambda>d (k, r). AList.update k (unquote (py_strip r)) d) d kvs"
  by (induction kvs arbitrary: d) (auto simp: fm_step_line)

lemma dashes_line:
  assumes "line_ok kv" "no_dashes kv"
  shows "\<not> contains dashes (fm_line kv)"
proof -
  have "\<not> contains dashes (blank # snd kv)"
    using assms(2) contains_append_sep [of blank dashes "[]" "snd kv"]
    by (simp add: no_dashes_def)
  then show ?thesis
    using assms(2) contains_append_sep [of colon dashes "fst kv" "blank # snd kv"]
    by (simp add: no_dashes_def fm_line_def)
qed

lemma dashes_lines:
  assumes "list_all line_ok kvs" "list_all no_dashes kvs"
  shows "\<not> contains dashes (concat (map (\<lambda>kv. fm_line kv @ [newline]) kvs) @ lit ''--'')"
  using assms
proof (induction kvs)
  case Nil
  show ?case by simp
next
  case (Cons kv kvs)
  then show ?case
    using contains_append_sep [of newline dashes "fm_line kv"] dashes_line [of kv] by simp
qed

lemma read_frontmatter_block:
  assumes ok: "list_all line_ok kvs" and nd: "list_all no_dashes kvs" and d: "distinct (map fst kvs)"
  shows "read_frontmatter (fm_block kvs rest) =
     (map (\<lambda>(k, r). (k, unquote (py_strip r))) kvs, lstrip_by (\<lambda>c. c = newline) rest)"
proof -
  let ?ls = "concat (map (\<lambda>l. l @ [newline]) (map fm_line kvs))"
  have ls: "concat (map (\<lambda>kv. fm_line kv @ [newline]) kvs) = ?ls" by (simp add: comp_def)
  have "\<not> contains dashes ((newline # ?ls) @ lit ''--'')"
    using dashes_lines [OF ok nd] contains_append_sep [of newline dashes "[]" "?ls @ lit ''--''"]
    by (simp add: ls)
  then have cut2: "cut dashes ((newline # ?ls) @ dashes @ newline # rest) = Some (newline # ?ls, newline # rest)"
    by (intro cut_append) simp_all
  have cut1: "cut dashes (dashes @ (newline # ?ls) @ dashes @ newline # rest)
      = Some ([], (newline # ?ls) @ dashes @ newline # rest)"
    by (rule cut_at_start) simp
  have blk: "fm_block kvs rest = dashes @ (newline # ?ls) @ dashes @ newline # rest"
    by (simp add: fm_block_def ls)
  have "split_max dashes 2 (fm_block kvs rest) = [[], newline # ?ls, newline # rest]"
    unfolding blk numeral_2_eq_2 by (simp only: split_max.simps cut1 cut2 option.case prod.case)
  moreover have "splitlines (newline # ?ls) = [] # map fm_line kvs"
    using splitlines_block [of "map fm_line kvs" "[]"] ok by (simp add: list_all_iff line_one)
  moreover have "foldl fm_step [] (map fm_line kvs) = map (\<lambda>(k, r). (k, unquote (py_strip r))) kvs"
    using map_update_fresh [OF d, of "[]" "\<lambda>r. unquote (py_strip r)"] by (simp add: foldl_fm_step ok)
  moreover have "prefix dashes (fm_block kvs rest)" by (simp add: fm_block_def)
  ultimately show ?thesis
    by (simp add: read_frontmatter_def fm_step_def lstrip_by_def)
qed

interpretation writer: frontmatter_reader "\<lambda>t. fst (read_frontmatter t)"
    "\<lambda>kv. line_ok kv \<and> no_dashes kv" "\<lambda>r. unquote (py_strip r)"
  by unfold_locales (auto simp: read_frontmatter_block list_all_iff)

lemma janitor_lines_block:
  "list_all line_ok kvs \<Longrightarrow>
   janitor_lines d (map fm_line kvs @ dashes # ls)
     = foldl (\<lambda>d (k, r). AList.update k (janitor_unquote (py_strip r)) d) d kvs"
proof (induction kvs arbitrary: d)
  case Nil
  show ?case by simp
next
  case (Cons kv kvs)
  then show ?case by (auto simp: line_hd line_cut split: prod.splits)
qed

lemma janitor_block:
  assumes ok: "list_all line_ok kvs" and d: "distinct (map fst kvs)"
  shows "janitor_frontmatter (fm_block kvs rest) = map (\<lambda>(k, r). (k, janitor_unquote (py_strip r))) kvs"
proof -
  let ?ls = "dashes # map fm_line kvs @ [dashes]"
  have "fm_block kvs rest = concat (map (\<lambda>l. l @ [newline]) ?ls) @ rest"
    by (simp add: fm_block_def comp_def)
  moreover have "list_all one_line ?ls"
    using ok by (simp add: list_all_iff line_one)
  ultimately have "splitlines (fm_block kvs rest) = ?ls @ splitlines rest"
    using splitlines_block by metis
  moreover have "prefix dashes (fm_block kvs rest)" by (simp add: fm_block_def)
  ultimately show ?thesis
    using janitor_lines_block [OF ok, of "[]" "splitlines rest"]
      map_update_fresh [OF d, of "[]" "\<lambda>r. janitor_unquote (py_strip r)"]
    by (simp add: janitor_frontmatter_def)
qed

interpretation janitor: frontmatter_reader janitor_frontmatter line_ok "\<lambda>r. janitor_unquote (py_strip r)"
  by unfold_locales (simp add: janitor_block)

end
