(* ===== verification/Catalog_Paths.thy ===== *)
theory Catalog_Paths
  imports File_Tree Py_Regex Frontmatter
begin

text \<open>
  What \<^verbatim>\<open>tools/collect_commit.py\<close> and \<^verbatim>\<open>tools/sync_skills.py\<close> share: the check of a name that becomes one
  directory, the containment check on real paths, the walk over \<^verbatim>\<open>*/SKILL.md\<close>, and what deleting and
  copying a guarded directory leaves alone. Directory order is the order of the tree's entries.
\<close>

section \<open>One directory name\<close>

datatype seg_reason = EmptyOrDot | HasSeparator | BadShape

definition seg_first :: "nat \<Rightarrow> bool" where
  "seg_first c \<longleftrightarrow> is_lodi c \<or> is_upper c"

definition seg_cp :: "nat \<Rightarrow> bool" where
  "seg_cp c \<longleftrightarrow> seg_first c \<or> c \<in> {46, 95, 45}"

text \<open>\<^verbatim>\<open>^[A-Za-z0-9][A-Za-z0-9._-]{0,63}$\<close>\<close>

definition SEGMENT_RE :: regex where
  "SEGMENT_RE = name_regex seg_first seg_cp 0 63"

definition bad_segment :: "pystr \<Rightarrow> seg_reason option" where
  "bad_segment v =
     (if v = [] \<or> v = lit ''.'' \<or> v = lit ''..'' then Some EmptyOrDot
      else if is_abs v \<or> slash \<in> set v \<or> 92 \<in> set v \<or> 0 \<in> set v then Some HasSeparator
      else if re_match no_word SEGMENT_RE v = None then Some BadShape
      else None)"

text \<open>\<^verbatim>\<open>os.path.join\<close> of two strings.\<close>

definition join_str :: "pystr \<Rightarrow> pystr \<Rightarrow> pystr" where
  "join_str a b = (if is_abs b then b else if a = [] \<or> last a = slash then a @ b else a @ [slash] @ b)"

lemma no_slash: "slash \<notin> set a \<Longrightarrow> takeWhile (\<lambda>x. x \<noteq> slash) a = a \<and> dropWhile (\<lambda>x. x \<noteq> slash) a = []"
  by (induction a) auto

lemma comps_plain: "slash \<notin> set a \<Longrightarrow> comps a = (if a = [] \<or> a = lit ''.'' then [] else [a])"
  by (subst comps.simps) (simp add: no_slash Let_def comps.simps [of "[]"])

lemma comps_first: "slash \<notin> set a \<Longrightarrow> comps (a @ slash # b) = comps a @ comps b"
proof -
  assume a: "slash \<notin> set a"
  then have "takeWhile (\<lambda>x. x \<noteq> slash) (a @ slash # b) = a" "dropWhile (\<lambda>x. x \<noteq> slash) (a @ slash # b) = slash # b"
    by (induction a) auto
  then have "comps (a @ slash # b) = (if a = [] \<or> a = lit ''.'' then [] else [a]) @ comps b"
    by (subst comps.simps) (simp add: Let_def)
  with comps_plain [OF a] show ?thesis by simp
qed

lemma comps_append_slash: "comps (a @ slash # b) = comps a @ comps b"
proof (induction a rule: length_induct)
  case (1 a)
  show ?case
  proof (cases "slash \<in> set a")
    case True
    then obtain u v where a: "a = u @ slash # v" "slash \<notin> set u" by (metis split_list_first)
    then have "comps (v @ slash # b) = comps v @ comps b" using 1 by simp
    then show ?thesis using a comps_first [OF a(2), of v] comps_first [OF a(2), of "v @ slash # b"] by simp
  qed (rule comps_first)
qed

text \<open>
  The contract of a check for one directory name: what passes is a single ordinary component, so
  joining it below a directory adds exactly that component.
\<close>

locale segment_check =
  fixes bad :: "pystr \<Rightarrow> 'r option"
  assumes passed: "bad v = None \<Longrightarrow> plain_name v \<and> slash \<notin> set v"
begin

lemma comps_passed: "bad v = None \<Longrightarrow> comps v = [v]"
  using passed [of v] by (auto simp: comps_plain plain_name_def)

lemma not_abs: "bad v = None \<Longrightarrow> \<not> is_abs v"
  using passed [of v] by (cases v) (auto simp: is_abs_def)

lemma comps_join:
  assumes "bad v = None"
  shows "comps (join_str a v) = comps a @ [v]"
proof (cases "a \<noteq> [] \<and> last a = slash")
  case True
  then obtain a' where "a = a' @ [slash]" by (metis append_butlast_last_id)
  then show ?thesis using comps_passed [OF assms] not_abs [OF assms] comps_append_slash [of a' v]
      comps_append_slash [of a' "[]"] by (simp add: join_str_def comps.simps [of "[]"])
next
  case False
  then show ?thesis using comps_passed [OF assms] not_abs [OF assms] comps_append_slash [of a v]
    by (auto simp: join_str_def comps.simps [of "[]"])
qed

end

lemma seg_cp_facts: "seg_cp c \<Longrightarrow> c \<noteq> slash \<and> c \<noteq> 92 \<and> c \<noteq> 0 \<and> c \<noteq> newline"
  by (auto simp: seg_cp_def seg_first_def is_lodi_def is_lower_def is_digit_def is_upper_def)

lemma bad_segment_None:
  "bad_segment v = None \<longleftrightarrow>
     (\<exists>t. (v = t \<or> v = t @ [newline]) \<and> t \<noteq> [] \<and> length t \<le> 64 \<and> seg_first (hd t) \<and> list_all seg_cp t)"
  (is "?l \<longleftrightarrow> ?r")
proof -
  have shape: "name_shape seg_first seg_cp 0 63 t \<longleftrightarrow>
      t \<noteq> [] \<and> length t \<le> 64 \<and> seg_first (hd t) \<and> list_all seg_cp t" for t
    by (cases t) (auto simp: name_shape_def seg_cp_def)
  have m: "re_match no_word SEGMENT_RE v \<noteq> None \<longleftrightarrow> ?r"
    unfolding SEGMENT_RE_def name_regex_match shape by auto
  have "v \<noteq> [] \<and> v \<noteq> lit ''.'' \<and> v \<noteq> lit ''..'' \<and> \<not> is_abs v \<and> slash \<notin> set v \<and> 92 \<notin> set v \<and> 0 \<notin> set v" if ?r
  proof -
    from that obtain t where t: "v = t \<or> v = t @ [newline]" "t \<noteq> []" "seg_first (hd t)" "\<forall>c\<in>set t. seg_cp c"
      by (auto simp: list_all_iff)
    then have "hd v = hd t" "v \<noteq> []" by auto
    moreover have "hd v \<noteq> 46" using t calculation by (auto simp: seg_first_def is_lodi_def is_lower_def is_digit_def is_upper_def)
    moreover have "\<forall>c\<in>set v. c \<noteq> slash \<and> c \<noteq> 92 \<and> c \<noteq> 0" using t seg_cp_facts by (auto; blast)
    ultimately show ?thesis by (auto simp: is_abs_def lit_simps)
  qed
  with m show ?thesis by (auto simp: bad_segment_def split: if_splits)
qed

lemma bad_segment_plain: "bad_segment v = None \<Longrightarrow> plain_name v \<and> slash \<notin> set v"
  by (auto simp: bad_segment_def plain_name_def split: if_splits)

interpretation catalog_segment: segment_check bad_segment
  by unfold_locales (rule bad_segment_plain)

section \<open>Containment\<close>

definition inside :: "node \<Rightarrow> path \<Rightarrow> path \<Rightarrow> bool" where
  "inside fs root p \<longleftrightarrow>
     (let r = realpath fs root; q = realpath fs p in q = r \<or> (r \<noteq> [] \<and> prefix r q))"

section \<open>The walk\<close>

definition fm_of :: "pystr \<Rightarrow> pydict" where
  "fm_of text =
     (if \<not> prefix dashes text then []
      else (case split_max dashes 2 text of
              [_, raw, _] \<Rightarrow> foldl fm_step [] (splitlines raw)
            | _ \<Rightarrow> []))"

lemma fm_of_read: "fm_of t = fst (read_frontmatter t)"
  by (auto simp: fm_of_def read_frontmatter_def split: list.splits)

type_synonym skill_item = "pystr \<times> path \<times> pydict"

abbreviation skill_file :: pystr where "skill_file \<equiv> lit ''SKILL.md''"

text \<open>\<^verbatim>\<open>os.walk\<close> from the top: hidden directories are pruned, links are not entered; \<^verbatim>\<open>SKILL.md\<close> counts when
  it is not a directory.\<close>

fun walk :: "node \<Rightarrow> path \<Rightarrow> node \<Rightarrow> path list" where
  "walk fs p (Dir cs) =
     (if skill_file \<in> fst ` set cs \<and> \<not> isdir fs (p @ [skill_file]) then [p] else [])
     @ concat (map (\<lambda>(x, c). if prefix (lit ''.'') x then [] else walk fs (p @ [x]) c) cs)"
| "walk fs p (File t) = []"
| "walk fs p (Link t) = []"

definition skill_item :: "node \<Rightarrow> path \<Rightarrow> (oserror + skill_item) list" where
  "skill_item fs p =
     (case snd (read_text (p @ [skill_file]) fs) of
        Inl e \<Rightarrow> [Inl e]
      | Inr t \<Rightarrow>
          (let fm = fm_of t; name = dget fm (lit ''name'') []
           in if name = [] then [] else [Inr (name, p, fm)]))"

definition skill_dirs :: "node \<Rightarrow> path \<Rightarrow> (oserror + skill_item) list" where
  "skill_dirs fs root =
     (case stat fs root of
        Some (Dir cs) \<Rightarrow> concat (map (skill_item fs) (walk fs root (Dir cs)))
      | _ \<Rightarrow> [])"

section \<open>What an operation may touch\<close>

text \<open>
  A reflexive and transitive relation between the trees before and after: operations that keep it
  can be put one after the other. Interpreted below on growth and on what happens outside a root.
\<close>

locale kept_relation =
  fixes rel :: "node \<Rightarrow> node \<Rightarrow> bool"
  assumes rel_refl: "rel s s" and rel_trans: "rel s t \<Longrightarrow> rel t u \<Longrightarrow> rel s u"
begin

definition keeps :: "'a io \<Rightarrow> bool" where
  "keeps m \<longleftrightarrow> (\<forall>s. rel s (fst (m s)))"

lemma keepsD: "keeps m \<Longrightarrow> m s = (t, r) \<Longrightarrow> rel s t"
  unfolding keeps_def by (metis fst_conv)

lemma keeps_ret: "keeps (retio a)"
  by (simp add: keeps_def retio_def rel_refl)

lemma keeps_read: "keeps (read_text p)"
  by (simp add: keeps_def rel_refl)

lemma rel_bind:
  assumes "rel s (fst (m s))" "\<And>t a. m s = (t, Inr a) \<Longrightarrow> rel s t \<Longrightarrow> rel t (fst (f a t))"
  shows "rel s (fst (bindio m f s))"
proof (cases "m s")
  case (Pair t r)
  then show ?thesis
    using assms rel_trans by (cases r) (auto simp: bindio_def)
qed

lemma keeps_bind: "keeps m \<Longrightarrow> (\<And>a. keeps (f a)) \<Longrightarrow> keeps (bindio m f)"
  unfolding keeps_def by (blast intro: rel_bind)

end

interpretation growing: kept_relation grows
  by unfold_locales (auto intro: grows_trans)

definition no_new_links :: "node \<Rightarrow> node \<Rightarrow> bool" where
  "no_new_links s t \<longleftrightarrow> (\<forall>q l. tget t q = Some (Link l) \<longrightarrow> tget s q = Some (Link l))"

interpretation linkless: kept_relation no_new_links
  by unfold_locales (auto simp: no_new_links_def)

lemma same_no_new_links: "same_links s t \<Longrightarrow> no_new_links s t"
  by (simp add: same_links_def no_new_links_def)

lemma no_new_links_free: "no_new_links s t \<Longrightarrow> link_free s p \<Longrightarrow> link_free t p"
  unfolding no_new_links_def link_free_def by blast

text \<open>
  Outside the root nothing is lost: files and links keep their content, directories stay directories
  (on the way to the root they may gain entries). Kept as long as no link is on the way to the root.
\<close>

definition outside_kept :: "path \<Rightarrow> node \<Rightarrow> node \<Rightarrow> bool" where
  "outside_kept R s t \<longleftrightarrow>
     (\<forall>q n. \<not> prefix R q \<longrightarrow> tget s q = Some n \<longrightarrow> (if is_dir n then dir_at t q else tget t q = Some n))"

definition confined :: "path \<Rightarrow> node \<Rightarrow> node \<Rightarrow> bool" where
  "confined R s t \<longleftrightarrow> (link_free s R \<longrightarrow> link_free t R \<and> outside_kept R s t)"

lemma outside_kept_trans:
  assumes "outside_kept R s t" "outside_kept R t u"
  shows "outside_kept R s u"
  unfolding outside_kept_def
proof (intro allI impI)
  fix q n
  assume q: "\<not> prefix R q" and s: "tget s q = Some n"
  show "if is_dir n then dir_at u q else tget u q = Some n"
  proof (cases "is_dir n")
    case True
    then have "dir_at t q" using assms(1) q s unfolding outside_kept_def by auto
    then obtain cs where "tget t q = Some (Dir cs)" by (rule dir_atE)
    with assms(2) q True show ?thesis unfolding outside_kept_def by fastforce
  next
    case False
    with assms q s show ?thesis unfolding outside_kept_def by fastforce
  qed
qed

interpretation confining: kept_relation "confined R" for R
proof unfold_locales
  show "confined R s s" for s by (auto simp: confined_def outside_kept_def dir_at_def)
  show "confined R s t \<Longrightarrow> confined R t u \<Longrightarrow> confined R s u" for s t u
    unfolding confined_def using outside_kept_trans by blast
qed

lemma grows_outside: "grows s t \<Longrightarrow> outside_kept R s t"
  unfolding grows_def outside_kept_def by blast

lemma growing_confined: "grows s t \<Longrightarrow> no_new_links s t \<Longrightarrow> confined R s t"
  unfolding confined_def using grows_outside no_new_links_free by blast

subsection \<open>Deleting behind the containment check\<close>

lemma lplace_dir_realpath:
  assumes "lplace fs (p @ [c]) = Some q" "plain_name c" "tget fs q = Some (Dir cs)"
  shows "realpath fs (p @ [c]) = q"
proof -
  from assms(1) obtain s where s: "resolve fs link_limit [] p = Some s" "q = s @ [c]"
    by (auto simp: lplace_def)
  with assms(2,3) have "resolve fs link_limit [] (p @ [c]) = Some (s @ [c])"
    by (intro resolve_snoc) auto
  with s show ?thesis by (simp add: realpath_def)
qed

lemma resolve_free: "link_free fs p \<Longrightarrow> plain_path p \<Longrightarrow> resolve fs k [] p = Some p"
proof (induction p rule: rev_induct)
  case (snoc c p)
  then show ?case by (intro resolve_snoc) (auto simp: link_free_snoc)
qed simp

lemma realpath_free: "link_free fs p \<Longrightarrow> plain_path p \<Longrightarrow> realpath fs p = p"
  by (simp add: realpath_def resolve_free)

lemma tdel_above_link: "strict_prefix p q \<Longrightarrow> tget (tdel q s) p = Some (Link l) \<Longrightarrow> tget s p = Some (Link l)"
proof (induction q s arbitrary: p rule: tdel.induct)
  case (2 x xs cs)
  then show ?case
    by (cases p) (auto simp: update_conv' delete_conv' split: option.splits if_splits)
qed auto

lemma tdel_links: "q \<noteq> [] \<Longrightarrow> no_new_links s (tdel q s)"
  unfolding no_new_links_def
proof (intro allI impI)
  fix p l
  assume q: "q \<noteq> []" and l: "tget (tdel q s) p = Some (Link l)"
  show "tget s p = Some (Link l)"
  proof (cases "prefix q p")
    case True
    with q l show ?thesis by (auto simp: prefix_def tget_tdel_below)
  next
    case np: False
    show ?thesis
    proof (cases "prefix p q")
      case True
      with np have "strict_prefix p q" by (auto simp: strict_prefix_def)
      then show ?thesis using l tdel_above_link by blast
    next
      case False
      with np l show ?thesis by (simp add: tget_tdel_other)
    qed
  qed
qed

lemma rmtree_confined:
  assumes "inside fs R (p @ [c])" "plain_name c" "plain_path R"
  shows "confined R fs (fst (rmtree (p @ [c]) fs))"
  unfolding confined_def
proof (intro impI)
  assume free: "link_free fs R"
  show "link_free (fst (rmtree (p @ [c]) fs)) R \<and> outside_kept R fs (fst (rmtree (p @ [c]) fs))"
  proof (cases "\<exists>q cs. lplace fs (p @ [c]) = Some q \<and> tget fs q = Some (Dir cs)")
    case True
    then obtain q cs where q: "lplace fs (p @ [c]) = Some q" "tget fs q = Some (Dir cs)" by blast
    then have ne: "q \<noteq> []" by (auto simp: lplace_def)
    have "realpath fs R = R" using free assms(3) by (rule realpath_free)
    then have pre: "prefix R q"
      using assms(1) lplace_dir_realpath [OF q(1) assms(2) q(2)] by (auto simp: inside_def Let_def)
    have res: "fst (rmtree (p @ [c]) fs) = tdel q fs" using q by (simp add: rmtree_def)
    have "outside_kept R fs (tdel q fs)"
      unfolding outside_kept_def
    proof (intro allI impI)
      fix x n
      assume x: "\<not> prefix R x" "tget fs x = Some n"
      then have np: "\<not> prefix q x" using pre by (meson prefix_order.trans)
      show "if is_dir n then dir_at (tdel q fs) x else tget (tdel q fs) x = Some n"
      proof (cases "prefix x q")
        case True
        with np have "strict_prefix x q" by (auto simp: strict_prefix_def)
        then have "dir_at fs x" using q(2) by (metis dir_at_prefix prefixE strict_prefix_def append_Nil2)
        then show ?thesis using dir_at_tdel_above [OF \<open>strict_prefix x q\<close>] x(2) by (simp add: dir_at_def)
      next
        case False
        with np x show ?thesis by (simp add: tget_tdel_other dir_at_def)
      qed
    qed
    with res free tdel_links [OF ne] show ?thesis by (auto intro: no_new_links_free)
  next
    case False
    then have "fst (rmtree (p @ [c]) fs) = fs" by (auto simp: rmtree_def split: option.splits node.splits)
    with free show ?thesis by (auto simp: outside_kept_def dir_at_def)
  qed
qed

subsection \<open>Copying\<close>

definition has_no_links :: "node \<Rightarrow> bool" where
  "has_no_links n \<longleftrightarrow> (\<forall>q l. tget n q \<noteq> Some (Link l))"

lemma has_no_links_Dir: "(\<And>x m. (x, m) \<in> set cs \<Longrightarrow> has_no_links m) \<Longrightarrow> has_no_links (Dir cs)"
  unfolding has_no_links_def
proof (intro allI)
  fix q l
  assume cs: "\<And>x m. (x, m) \<in> set cs \<Longrightarrow> \<forall>q l. tget m q \<noteq> Some (Link l)"
  show "tget (Dir cs) q \<noteq> Some (Link l)"
    using cs by (cases q) (auto split: option.splits dest!: map_of_SomeD)
qed

lemma deref_no_links:
  "(\<forall>m. fst (deref k fs p n) = Some m \<longrightarrow> has_no_links m)"
  "(\<forall>x m. (x, m) \<in> set (fst (deref_list k fs p cs)) \<longrightarrow> has_no_links m)"
proof (induction k fs p n and k fs p cs rule: deref_deref_list.induct)
  case (1 k fs p t)
  show ?case by (simp add: has_no_links_def)
next
  case (2 k fs p cs)
  then show ?case by (auto simp: Let_def intro!: has_no_links_Dir)
qed (auto simp: Let_def split: option.splits)

lemma deref_id:
  "\<not> links_in n \<Longrightarrow> deref k fs p n = (Some n, True)"
  "\<not> list_ex (\<lambda>(_, c). links_in c) cs \<Longrightarrow> deref_list k fs p cs = (cs, True)"
proof (induction k fs p n and k fs p cs rule: deref_deref_list.induct)
  case (2 k fs p cs)
  then show ?case by (simp add: Let_def)
qed (auto simp: Let_def)

lemma makedirs_fresh:
  assumes "makedirs False (p @ [c]) fs = (t, Inr ())"
  shows "\<exists>d. lplace t (p @ [c]) = Some d \<and> tget t d = Some (Dir [])"
proof -
  from assms obtain s where "mkdir (p @ [c]) s = (t, Inr ())"
    by (auto simp: makedirs_def bindio_def mkdir_ok_def split: prod.splits sum.splits)
  then obtain q where q: "lplace s (p @ [c]) = Some q" "tget s q = None" "dir_at s (butlast q)" "t = tput q (Dir []) s"
    by (auto simp: mkdir_def create_at_def split: option.splits if_splits)
  have "same_links s t" using q by (auto intro!: same_links_tput)
  then have "lplace t (p @ [c]) = Some q" using q(1) by (simp add: lplace_def resolve_same_links)
  moreover have "tget t q = Some (Dir [])" using q by (auto intro!: tget_tput_self)
  ultimately show ?thesis by blast
qed

text \<open>A fresh empty directory may be filled in any way.\<close>

lemma grows_below:
  assumes "tget s d = Some (Dir [])" "frame d s u" "\<And>p. prefix p d \<Longrightarrow> dir_at s p \<Longrightarrow> dir_at u p"
  shows "grows s u"
  unfolding grows_def
proof (intro allI impI)
  fix p n
  assume p: "tget s p = Some n"
  show "if is_dir n then dir_at u p else tget u p = Some n"
  proof (cases "prefix p d")
    case True
    then have "dir_at s p" using assms(1) by (metis dir_at_prefix prefixE append_Nil2 dir_at_def is_dir.simps(1) option.simps(5))
    with assms(3) True p show ?thesis by (simp add: dir_at_def)
  next
    case False
    have "\<not> prefix d p"
    proof
      assume "prefix d p"
      then obtain r where "p = d @ r" by (auto simp: prefix_def)
      with p assms(1) False show False by (cases r) (auto simp: tget_append)
    qed
    with False assms(2) p show ?thesis by (simp add: frame_on_def dir_at_def)
  qed
qed

lemma copytree_cases:
  obtains (failed) t e where "copytree src (p @ [c]) fs = (t, Inl e)" "grows fs t" "same_links fs t"
  | (filled) s d cs r where "copytree src (p @ [c]) fs = (tput d (Dir cs) s, r)" "grows fs s" "same_links fs s"
      "lplace s (p @ [c]) = Some d" "tget s d = Some (Dir [])" "has_no_links (Dir cs)"
      "\<exists>cs0. stat fs src = Some (Dir cs0) \<and> cs = fst (deref_list link_limit fs (realpath fs src) cs0)"
proof (cases "stat fs src")
  case None
  then show ?thesis using failed by (simp add: copytree_def)
next
  case (Some n)
  show ?thesis
  proof (cases n)
    case (Dir cs0)
    let ?r = "deref_list link_limit fs (realpath fs src) cs0"
    obtain s x where m: "makedirs False (p @ [c]) fs = (s, x)" by (cases "makedirs False (p @ [c]) fs")
    have g: "grows fs s" "same_links fs s"
      using grows_makedirs [of fs False "p @ [c]"] same_links_makedirs [of fs False "p @ [c]"] m by simp_all
    show ?thesis
    proof (cases x)
      case (Inl e)
      with m Some Dir g show ?thesis using failed by (simp add: copytree_def bindio_def)
    next
      case (Inr u)
      with makedirs_fresh m obtain d where d: "lplace s (p @ [c]) = Some d" "tget s d = Some (Dir [])" by fastforce
      have "has_no_links (Dir (fst ?r))" using deref_no_links(2) by (auto intro!: has_no_links_Dir)
      moreover have "copytree src (p @ [c]) fs = (tput d (Dir (fst ?r)) s, if snd ?r then Inr () else Inl CopyError)"
        using m Some Dir Inr d by (simp add: copytree_def bindio_def)
      ultimately show ?thesis using filled g d Some Dir by blast
    qed
  qed (use Some failed in \<open>simp_all add: copytree_def\<close>)
qed

lemma tput_links:
  assumes "dir_at s d" "has_no_links m"
  shows "no_new_links s (tput d m s)"
  unfolding no_new_links_def
proof (intro allI impI)
  fix q l
  assume l: "tget (tput d m s) q = Some (Link l)"
  have par: "d = [] \<or> dir_at s (butlast d)"
    using assms(1) by (cases d rule: rev_cases) (auto dest: dir_at_append)
  show "tget s q = Some (Link l)"
  proof (cases "prefix d q")
    case True
    then show ?thesis using l assms(2) tget_tput_same [OF par] by (auto simp: prefix_def has_no_links_def)
  next
    case np: False
    show ?thesis
    proof (cases "prefix q d")
      case True
      with np have sp: "strict_prefix q d" by (auto simp: strict_prefix_def)
      with assms(1) have "dir_at s q" by (meson dir_at_mono prefix_order.less_imp_le)
      from dir_at_tput_above [OF sp this, of m] l show ?thesis by (simp add: dir_at_def)
    next
      case False
      with np l show ?thesis by (simp add: tget_tput_other)
    qed
  qed
qed

text \<open>Filling a fresh directory and rewriting one file in it.\<close>

lemma filled_props:
  assumes "tget s d = Some (Dir [])" "has_no_links (Dir cs)"
  shows "grows s (tput d (Dir cs) s)" "no_new_links s (tput d (Dir cs) s)" "tget (tput d (Dir cs) s) d = Some (Dir cs)"
proof -
  have d: "dir_at s d" using assms(1) by (simp add: dir_at_def)
  then have par: "d = [] \<or> dir_at s (butlast d)" by (cases d rule: rev_cases) (auto dest: dir_at_append)
  then show self: "tget (tput d (Dir cs) s) d = Some (Dir cs)" by (rule tget_tput_self)
  show "no_new_links s (tput d (Dir cs) s)" by (rule tput_links [OF d assms(2)])
  show "grows s (tput d (Dir cs) s)"
  proof (rule grows_below [OF assms(1)])
    show "frame d s (tput d (Dir cs) s)" by (rule tree.frame_store) simp
    show "dir_at (tput d (Dir cs) s) p" if "prefix p d" "dir_at s p" for p
      using that self dir_at_tput_above [of p d s] by (cases "p = d") (auto simp: dir_at_def strict_prefix_def)
  qed
qed

lemma copytree_grows: "grows fs (fst (copytree src (p @ [c]) fs))" "no_new_links fs (fst (copytree src (p @ [c]) fs))"
proof -
  have "grows fs (fst (copytree src (p @ [c]) fs)) \<and> no_new_links fs (fst (copytree src (p @ [c]) fs))"
  proof (cases src p c fs rule: copytree_cases)
    case (failed t e)
    then show ?thesis by (simp add: same_no_new_links)
  next
    case (filled s d cs r)
    then show ?thesis using filled_props [OF filled(5,6)]
      by (auto intro: grows_trans linkless.rel_trans same_no_new_links)
  qed
  then show "grows fs (fst (copytree src (p @ [c]) fs))" "no_new_links fs (fst (copytree src (p @ [c]) fs))" by auto
qed

text \<open>An absolute path as the text Python holds.\<close>

definition path_text :: "path \<Rightarrow> pystr" where
  "path_text p = [slash] @ py_join [slash] p"

end
