(* ===== verification/Live_Walk.thy ===== *)
theory Live_Walk
  imports Catalog_Paths
begin

text \<open>
  The loop \<^verbatim>\<open>for name, path, fm in _skill_dirs(root)\<close> of \<^verbatim>\<open>collect_commit.py\<close> and \<^verbatim>\<open>sync_skills.py\<close> as it runs: \<^verbatim>\<open>os.walk\<close> lists a
  directory only when it comes to it, while the body of the loop is already changing the tree. Where the
  body keeps the walked tree as it is, this is the same as running over the skills found at the start.
\<close>

section \<open>Catalogs\<close>

text \<open>A tree without links in which names are proper and each stands for one thing.\<close>

fun plain_tree :: "node \<Rightarrow> bool" where
  "plain_tree (Dir cs) \<longleftrightarrow> distinct (map fst cs) \<and> list_all (\<lambda>(x, c). plain_name x \<and> plain_tree c) cs"
| "plain_tree (File t) \<longleftrightarrow> True"
| "plain_tree (Link t) \<longleftrightarrow> False"

lemma plain_tree_child: "plain_tree (Dir cs) \<Longrightarrow> (x, c) \<in> set cs \<Longrightarrow> tget (Dir cs) [x] = Some c \<and> plain_name x \<and> plain_tree c"
  by (auto simp: list_all_iff)

lemma plain_tree_no_links: "plain_tree n \<Longrightarrow> \<not> links_in n"
  by (induction n) (auto simp: list_all_iff list_ex_iff)

lemma child_at:
  assumes "tget fs p = Some (Dir cs)" "plain_tree (Dir cs)" "(x, c) \<in> set cs"
  shows "tget fs (p @ [x]) = Some c"
  using assms plain_tree_child [of cs x c] by (simp add: tget_append)

lemma plain_tree_tget: "plain_tree n \<Longrightarrow> tget n r = Some m \<Longrightarrow> plain_tree m"
  by (induction n r rule: tget.induct) (auto simp: list_all_iff split: option.splits dest!: map_of_SomeD)

text \<open>In such a tree the operating system's look at a path is a look at the place.\<close>

lemma plain_stat:
  assumes "tget fs p = Some (Dir cs)" "plain_path p" "plain_tree (Dir cs)"
  shows "stat fs p = Some (Dir cs)" "plain_name x \<Longrightarrow> stat fs (p @ [x]) = tget fs (p @ [x])"
proof -
  have d: "dir_at fs p" using assms(1) by (simp add: dir_at_def)
  then show "stat fs p = Some (Dir cs)" using assms(1,2) by (simp add: stat_def realpath_dir)
  assume x: "plain_name x"
  have "\<nexists>t. tget fs (p @ [x]) = Some (Link t)"
    using plain_tree_tget [OF assms(3), of "[x]"] assms(1) by (auto simp: tget_append)
  from resolve_child [OF d assms(2) x this] show "stat fs (p @ [x]) = tget fs (p @ [x])" by (simp add: stat_def)
qed

section \<open>The loop\<close>

text \<open>The body, run over items in order; an error on reading one ends the run there.\<close>

fun run_items :: "(skill_item \<Rightarrow> 'st \<Rightarrow> 'st io) \<Rightarrow> (oserror + skill_item) list \<Rightarrow> 'st \<Rightarrow> 'st io" where
  "run_items step [] st fs = (fs, Inr st)"
| "run_items step (Inl e # its) st fs = (fs, Inl e)"
| "run_items step (Inr item # its) st fs = bindio (step item st) (run_items step its) fs"

fun rights :: "(oserror + skill_item) list \<Rightarrow> skill_item list" where
  "rights [] = []"
| "rights (Inl e # its) = rights its"
| "rights (Inr item # its) = item # rights its"

text \<open>
  One step of \<^verbatim>\<open>os.walk\<close>: the directory is listed, the caller gets its skill, and when it comes back for more the
  directories of that listing that are not hidden and not links follow, in their order, before what was
  left to visit.
\<close>

definition visit :: "(skill_item \<Rightarrow> 'st \<Rightarrow> 'st io) \<Rightarrow> path \<Rightarrow> 'st \<Rightarrow> 'st io" where
  "visit step p st fs =
     (case stat fs p of
        Some (Dir cs) \<Rightarrow>
          if skill_file \<in> fst ` set cs \<and> \<not> isdir fs (p @ [skill_file]) then run_items step (skill_item fs p) st fs
          else (fs, Inr st)
      | _ \<Rightarrow> (fs, Inr st))"

definition subdirs :: "node \<Rightarrow> node \<Rightarrow> path \<Rightarrow> path list" where
  "subdirs fs fs' p =
     (case stat fs p of
        Some (Dir cs) \<Rightarrow>
          filter (\<lambda>q. \<not> islink fs' q)
            (map (\<lambda>x. p @ [x]) (filter (\<lambda>x. isdir fs (p @ [x]) \<and> \<not> prefix (lit ''.'') x) (map fst cs)))
      | _ \<Rightarrow> [])"

text \<open>The loop may go on for ever when the body puts new directories in its way; then it has no value.\<close>

partial_function (option) walk_loop ::
    "(skill_item \<Rightarrow> 'st \<Rightarrow> 'st io) \<Rightarrow> path list \<Rightarrow> 'st \<Rightarrow> node \<Rightarrow> (node \<times> (oserror + 'st)) option" where
  "walk_loop step todo st fs =
     (case todo of
        [] \<Rightarrow> Some (fs, Inr st)
      | p # rest \<Rightarrow>
          (case visit step p st fs of
             (fs', Inl e) \<Rightarrow> Some (fs', Inl e)
           | (fs', Inr st') \<Rightarrow> walk_loop step (subdirs fs fs' p @ rest) st' fs'))"

definition walk_run :: "(skill_item \<Rightarrow> 'st \<Rightarrow> 'st io) \<Rightarrow> path \<Rightarrow> 'st \<Rightarrow> node \<Rightarrow> (node \<times> (oserror + 'st)) option" where
  "walk_run step R st fs = walk_loop step (if isdir fs R then [R] else []) st fs"

lemma walk_loop_simps [simp]:
  "walk_loop step [] st fs = Some (fs, Inr st)"
  "walk_loop step (p # rest) st fs =
     (case visit step p st fs of (fs', Inl e) \<Rightarrow> Some (fs', Inl e)
      | (fs', Inr st') \<Rightarrow> walk_loop step (subdirs fs fs' p @ rest) st' fs')"
  by (subst walk_loop.simps, simp)+

definition resume :: "(skill_item \<Rightarrow> 'st \<Rightarrow> 'st io) \<Rightarrow> path list \<Rightarrow> node \<times> (oserror + 'st) \<Rightarrow> (node \<times> (oserror + 'st)) option" where
  "resume step rest r = (case r of (fs, Inl e) \<Rightarrow> Some (fs, Inl e) | (fs, Inr st) \<Rightarrow> walk_loop step rest st fs)"

lemma run_items_append:
  "run_items step (xs @ ys) st fs = bindio (run_items step xs st) (run_items step ys) fs"
  by (induction step xs st fs rule: run_items.induct) (auto simp: bindio_def split: prod.split sum.split)

lemma resume_append:
  assumes "\<And>st' t'. run_items step xs st t = (t', Inr st') \<Longrightarrow>
      walk_loop step todo st' t' = resume step rest (run_items step ys st' t')"
  shows "resume step todo (run_items step xs st t) = resume step rest (run_items step (xs @ ys) st t)"
proof -
  obtain t' r where "run_items step xs st t = (t', r)" by fastforce
  then show ?thesis using assms by (cases r) (simp_all add: resume_def run_items_append bindio_def)
qed

section \<open>What a visit finds\<close>

lemma skill_item_kept:
  assumes "stat t (p @ [skill_file]) = stat fs (p @ [skill_file])"
  shows "skill_item t p = skill_item fs p"
  using assms by (simp add: skill_item_def read_text_def)

lemma visit_kept:
  assumes "tget t p = Some (Dir cs)" "tget fs p = Some (Dir cs)" "plain_path p" "plain_tree (Dir cs)"
  shows "visit step p st t = run_items step
      (concat (map (skill_item fs) (if skill_file \<in> fst ` set cs \<and> \<not> isdir fs (p @ [skill_file]) then [p] else []))) st t"
proof -
  have sf: "plain_name skill_file" by (simp add: plain_name_def)
  have "tget t (p @ [x]) = tget fs (p @ [x])" for x using assms(1,2) by (simp add: tget_append)
  then have s: "stat t (p @ [skill_file]) = stat fs (p @ [skill_file])"
    using plain_stat(2) [OF assms(1,3,4) sf] plain_stat(2) [OF assms(2,3,4) sf] by simp
  then have "isdir t (p @ [skill_file]) = isdir fs (p @ [skill_file])" by (simp add: isdir_def)
  then show ?thesis
    using plain_stat(1) [OF assms(1,3,4)] skill_item_kept [OF s] by (simp add: visit_def)
qed

definition walked_dirs :: "path \<Rightarrow> (pystr \<times> node) list \<Rightarrow> path list" where
  "walked_dirs p cs = map (\<lambda>(x, c). p @ [x]) (filter (\<lambda>(x, c). is_dir c \<and> \<not> prefix (lit ''.'') x) cs)"

lemma subdirs_kept:
  assumes "tget t p = Some (Dir cs)" "tget t' p = Some (Dir cs)" "plain_path p" "plain_tree (Dir cs)"
  shows "subdirs t t' p = walked_dirs p cs"
proof -
  have c: "isdir t (p @ [x]) = is_dir c" "\<not> islink t' (p @ [x])" if "(x, c) \<in> set cs" for x c
  proof -
    note x = plain_tree_child [OF assms(4) that]
    have "stat t (p @ [x]) = Some c"
      using plain_stat(2) [OF assms(1,3,4), of x] child_at [OF assms(1,4) that] x by simp
    then show "isdir t (p @ [x]) = is_dir c" by (cases c) (simp_all add: isdir_def)
    have "lplace t' (p @ [x]) = Some (p @ [x])" using assms(2,3) by (intro lplace_child) (simp add: dir_at_def)
    then show "\<not> islink t' (p @ [x])" using child_at [OF assms(2,4) that] x by (cases c) (simp_all add: islink_def)
  qed
  have "filter (\<lambda>q. \<not> islink t' q) (map (\<lambda>x. p @ [x]) (filter (\<lambda>x. isdir t (p @ [x]) \<and> \<not> prefix (lit ''.'') x) (map fst cs')))
      = walked_dirs p cs'" if "set cs' \<subseteq> set cs" for cs'
    using that by (induction cs') (auto simp: walked_dirs_def c)
  from this [OF subset_refl] show ?thesis
    using plain_stat(1) [OF assms(1,3,4)] by (simp add: subdirs_def)
qed

text \<open>The items below a directory, as the walk of the tree gives them.\<close>

definition found :: "node \<Rightarrow> path \<Rightarrow> node \<Rightarrow> (oserror + skill_item) list" where
  "found fs p n = concat (map (skill_item fs) (walk fs p n))"

definition found_in :: "node \<Rightarrow> path \<Rightarrow> (pystr \<times> node) list \<Rightarrow> (oserror + skill_item) list" where
  "found_in fs p cs = concat (map (\<lambda>(x, c). if prefix (lit ''.'') x then [] else found fs (p @ [x]) c) cs)"

lemma found_Dir:
  "found fs p (Dir cs) =
     concat (map (skill_item fs) (if skill_file \<in> fst ` set cs \<and> \<not> isdir fs (p @ [skill_file]) then [p] else []))
     @ found_in fs p cs"
proof -
  have "concat (map (skill_item fs) (concat (map (\<lambda>(x, c). if prefix (lit ''.'') x then [] else walk fs (p @ [x]) c) cs)))
      = found_in fs p cs"
    unfolding found_in_def by (induction cs) (auto simp: found_def)
  then show ?thesis by (simp add: found_def)
qed

lemma found_leaf: "\<not> is_dir c \<Longrightarrow> found fs p c = []"
  by (cases c) (simp_all add: found_def)

lemma found_src:
  "plain_tree n \<Longrightarrow> tget fs p = Some n \<Longrightarrow> plain_path p \<Longrightarrow> Inr (name, src, fm) \<in> set (found fs p n)
    \<Longrightarrow> \<exists>cs. tget fs src = Some (Dir cs) \<and> plain_tree (Dir cs) \<and> plain_path src \<and> prefix p src"
proof (induction n arbitrary: p)
  case (Dir cs)
  from Dir.prems(4) consider "Inr (name, src, fm) \<in> set (skill_item fs p)"
    | x c where "(x, c) \<in> set cs" "Inr (name, src, fm) \<in> set (found fs (p @ [x]) c)"
    by (auto simp: found_Dir found_in_def split: if_splits)
  then show ?case
  proof cases
    case 1
    then have "src = p" by (auto simp: skill_item_def Let_def split: sum.splits if_splits)
    with Dir.prems show ?thesis by auto
  next
    case (2 x c)
    note x = plain_tree_child [OF Dir.prems(1) 2(1)]
    have "plain_path (p @ [x])" using Dir.prems(3) x by simp
    from Dir.IH [OF 2(1) _ _ child_at [OF Dir.prems(2,1) 2(1)] this] 2(2) x show ?thesis
      by (auto dest: append_prefixD)
  qed
qed (simp_all add: found_def)

section \<open>The walk is a snapshot\<close>

text \<open>
  The contract between the walk and the body of the loop: as long as it goes on with the items of the
  catalog, something holds that includes that the catalog is as it was.
\<close>

locale live_walk =
  fixes step :: "skill_item \<Rightarrow> 'st \<Rightarrow> 'st io" and keep :: "'st \<Rightarrow> node \<Rightarrow> bool" and fs :: node and R :: path
  assumes catalog: "keep st t \<Longrightarrow> plain_path R \<and> (\<exists>cs. tget fs R = Some (Dir cs) \<and> plain_tree (Dir cs))"
    and kept: "keep st t \<Longrightarrow> tget t R = tget fs R"
    and step_keeps: "keep st t \<Longrightarrow> Inr item \<in> set (skill_dirs fs R) \<Longrightarrow> step item st t = (t', Inr st') \<Longrightarrow> keep st' t'"
begin

lemma run_keeps:
  "keep st t \<Longrightarrow> set its \<subseteq> set (skill_dirs fs R) \<Longrightarrow> run_items step its st t = (t', Inr st') \<Longrightarrow> keep st' t'"
proof (induction its arbitrary: st t)
  case (Cons it its)
  show ?case
  proof (cases it)
    case (Inr item)
    then obtain t1 st1 where "step item st t = (t1, Inr st1)" "run_items step its st1 t1 = (t', Inr st')"
      using Cons.prems(3) by (auto simp: bindio_def split: prod.splits sum.splits)
    moreover from this Cons.prems(1,2) Inr have "keep st1 t1" using step_keeps [of st t item] by simp
    ultimately show ?thesis using Cons.IH [of st1 t1] Cons.prems(2) by simp
  qed (use Cons.prems(3) in simp)
qed simp

lemma kept_below: "keep st t \<Longrightarrow> tget t (R @ r) = tget fs (R @ r)"
  using kept by (simp add: tget_append)

lemma loop_dir:
  "plain_tree n \<Longrightarrow> is_dir n \<Longrightarrow> tget fs (R @ r) = Some n \<Longrightarrow> plain_path (R @ r) \<Longrightarrow> keep st t
    \<Longrightarrow> set (found fs (R @ r) n) \<subseteq> set (skill_dirs fs R)
    \<Longrightarrow> walk_loop step ((R @ r) # rest) st t = resume step rest (run_items step (found fs (R @ r) n) st t)"
proof (induction n arbitrary: r rest st t)
  case (Dir cs)
  let ?p = "R @ r"
  have children: "walk_loop step (walked_dirs ?p cs' @ rest) st t = resume step rest (run_items step (found_in fs ?p cs') st t)"
    if "set cs' \<subseteq> set cs" "keep st t" "set (found_in fs ?p cs') \<subseteq> set (skill_dirs fs R)" for cs' st t
    using that
  proof (induction cs' arbitrary: st t)
    case Nil
    then show ?case by (simp add: walked_dirs_def found_in_def resume_def)
  next
    case (Cons xc cs')
    obtain x c where xc: "xc = (x, c)" by (cases xc)
    show ?case
    proof (cases "is_dir c \<and> \<not> prefix (lit ''.'') x")
      case False
      then show ?thesis using Cons by (auto simp: xc walked_dirs_def found_in_def found_leaf)
    next
      case True
      have m: "(x, c) \<in> set cs" using Cons.prems(1) xc by simp
      have f: "found_in fs ?p (xc # cs') = found fs (R @ (r @ [x])) c @ found_in fs ?p cs'"
        using True by (simp add: xc found_in_def)
      with Cons.prems(3) have sub: "set (found fs (R @ (r @ [x])) c) \<subseteq> set (skill_dirs fs R)"
        "set (found_in fs ?p cs') \<subseteq> set (skill_dirs fs R)" by simp_all
      have "walk_loop step (walked_dirs ?p (xc # cs') @ rest) st t
          = resume step (walked_dirs ?p cs' @ rest) (run_items step (found fs (R @ (r @ [x])) c) st t)"
        using Dir.IH [of "(x, c)" c "r @ [x]" st t "walked_dirs ?p cs' @ rest"] m True sub(1)
          plain_tree_child [OF Dir.prems(1) m] child_at [OF Dir.prems(3,1) m] Dir.prems(4) Cons.prems(2)
        by (simp add: xc walked_dirs_def)
      also have "\<dots> = resume step rest (run_items step (found fs (R @ (r @ [x])) c @ found_in fs ?p cs') st t)"
        by (rule resume_append, rule Cons.IH) (use Cons.prems(1,2) sub run_keeps in auto)
      finally show ?thesis by (simp only: f)
    qed
  qed
  let ?own = "concat (map (skill_item fs) (if skill_file \<in> fst ` set cs \<and> \<not> isdir fs (?p @ [skill_file]) then [?p] else []))"
  have sub: "set ?own \<subseteq> set (skill_dirs fs R)" "set (found_in fs ?p cs) \<subseteq> set (skill_dirs fs R)"
    using Dir.prems(6) by (simp_all only: found_Dir set_append Un_subset_iff)
  have t: "tget t ?p = Some (Dir cs)" using kept_below [OF Dir.prems(5)] Dir.prems(3) by simp
  have "walk_loop step (?p # rest) st t = resume step (walked_dirs ?p cs @ rest) (run_items step ?own st t)"
  proof -
    obtain t' x where m: "run_items step ?own st t = (t', x)" by fastforce
    have "subdirs t t' ?p = walked_dirs ?p cs" if "x = Inr st'" for st'
    proof -
      have "keep st' t'" using run_keeps [OF Dir.prems(5) sub(1)] m that by simp
      then have "tget t' ?p = Some (Dir cs)" using kept_below Dir.prems(3) by metis
      from subdirs_kept [OF t this Dir.prems(4,1)] show ?thesis .
    qed
    then show ?thesis
      unfolding walk_loop_simps visit_kept [OF t Dir.prems(3,4,1)] m by (simp add: resume_def split: sum.split)
  qed
  also have "\<dots> = resume step rest (run_items step (?own @ found_in fs ?p cs) st t)"
    by (rule resume_append, rule children [OF subset_refl run_keeps [OF Dir.prems(5) sub(1)] sub(2)])
  also have "?own @ found_in fs ?p cs = found fs ?p (Dir cs)" by (simp only: found_Dir)
  finally show ?case .
qed simp_all

lemma found_dirs:
  assumes "keep st t"
  shows "\<exists>cs. tget fs R = Some (Dir cs) \<and> plain_tree (Dir cs) \<and> isdir fs R \<and> skill_dirs fs R = found fs R (Dir cs)"
proof -
  obtain cs where cs: "plain_path R" "tget fs R = Some (Dir cs)" "plain_tree (Dir cs)" using catalog [OF assms] by blast
  then show ?thesis using plain_stat(1) [OF cs(2,1,3)] by (auto simp: skill_dirs_def found_def isdir_def)
qed

lemma walk_is_snapshot:
  assumes "keep st fs"
  shows "walk_run step R st fs = Some (run_items step (skill_dirs fs R) st fs)"
proof -
  obtain cs where cs: "tget fs R = Some (Dir cs)" "plain_tree (Dir cs)" "isdir fs R" "skill_dirs fs R = found fs R (Dir cs)"
    using found_dirs [OF assms] by blast
  have "resume step [] r = Some r" for r by (auto simp: resume_def split: prod.split sum.split)
  then show ?thesis
    using loop_dir [of "Dir cs" "[]" st fs "[]"] cs catalog [OF assms] assms by (simp add: walk_run_def del: walk_loop_simps)
qed

lemma items_from:
  assumes "keep st t" "Inr (name, src, fm) \<in> set (skill_dirs fs R)"
  shows "\<exists>cs. tget fs src = Some (Dir cs) \<and> tget t src = Some (Dir cs) \<and> plain_tree (Dir cs) \<and> plain_path src \<and> prefix R src"
proof -
  obtain cs where cs: "tget fs R = Some (Dir cs)" "plain_tree (Dir cs)" "skill_dirs fs R = found fs R (Dir cs)"
    using found_dirs [OF assms(1)] by blast
  from found_src [OF cs(2,1), of name src fm] assms(2) cs(3) catalog [OF assms(1)] obtain ds where
    d: "tget fs src = Some (Dir ds)" "plain_tree (Dir ds)" "plain_path src" "prefix R src" by auto
  then have "tget t src = Some (Dir ds)" using kept_below [OF assms(1)] by (auto simp: prefix_def)
  with d show ?thesis by blast
qed

end

end
