(* ===== verification/Skill_Writer.thy ===== *)
theory Skill_Writer
  imports File_Tree Py_Regex Frontmatter Complex_Main
begin

text \<open>
  \<^verbatim>\<open>auto-skill/scripts/auto_skill.py\<close>: the non-blocking writer. Its three commands work on the file
  tree; what it takes from outside (clock, environment variables, the SHA-256 function, the parsed
  threshold, float rounding) is the record \<open>env\<close>. A command returns the report it prints; the
  human-readable \<^verbatim>\<open>message\<close> texts are not modelled, the status and reason they word are.
\<close>

section \<open>Constants and helpers\<close>

definition kebab_cp :: "nat \<Rightarrow> bool" where
  "kebab_cp c \<longleftrightarrow> is_lodi c \<or> c = 45"

text \<open>\<^verbatim>\<open>^[a-z0-9][a-z0-9-]{1,48}$\<close> and \<^verbatim>\<open>^[a-z0-9][a-z0-9-]{0,32}$\<close>.\<close>

definition NAME_RE :: regex where "NAME_RE = name_regex is_lodi kebab_cp 1 48"
definition CAT_RE :: regex where "CAT_RE = name_regex is_lodi kebab_cp 0 32"
definition MAX_DESC :: nat where "MAX_DESC = 200"
definition INSTALLER :: pystr where "INSTALLER = lit ''auto-skill''"

definition VALID_TRIGGERS :: "pystr list" where
  "VALID_TRIGGERS = map lit [''complex-task'', ''error-recovery'', ''user-correction'',
     ''reusable-workflow'', ''manual'', '''']"

record env =
  env_home :: path
  env_dir :: "path option"
  env_source :: pystr
  env_session :: pystr
  env_now :: pystr
  env_sha :: "pystr \<Rightarrow> pystr"
  env_threshold :: "rat option"
  env_round :: "rat \<Rightarrow> rat"

record args =
  a_name :: pystr
  a_desc :: pystr
  a_body :: pystr
  a_body_file :: "path option"
  a_dir :: "path option"
  a_global :: bool
  a_stage :: bool
  a_force :: bool
  a_trigger :: pystr
  a_source :: pystr
  a_category :: pystr

definition body_hash :: "env \<Rightarrow> pystr \<Rightarrow> pystr" where
  "body_hash E body = env_sha E (py_strip body)"

definition home_skills :: "env \<Rightarrow> path" where
  "home_skills E = env_home E @ [lit ''.claude'', lit ''skills'']"

definition default_dir :: "env \<Rightarrow> bool \<Rightarrow> path" where
  "default_dir E use_global =
     (if use_global then home_skills E
      else case env_dir E of Some d \<Rightarrow> d | None \<Rightarrow> home_skills E)"

text \<open>\<^verbatim>\<open>_kebab\<close>: lower-case, every other run of characters one dash, no dash at the ends.\<close>

definition kebab :: "unidb \<Rightarrow> pystr \<Rightarrow> pystr" where
  "kebab U s = strip_by (\<lambda>c. c = 45) (squash (\<lambda>c. \<not> is_lodi c) 45 (py_lower U (py_strip s)))"

definition rfind_cp :: "nat \<Rightarrow> pystr \<Rightarrow> nat option" where
  "rfind_cp c s =
     (if c \<in> set s then Some (length s - Suc (length (takeWhile (\<lambda>x. x \<noteq> c) (rev s)))) else None)"

text \<open>\<^verbatim>\<open>_fit_desc\<close>: the fitted text and, when it was clipped, the length before.\<close>

definition clip_tail :: "nat \<Rightarrow> bool" where
  "clip_tail c \<longleftrightarrow> c \<in> set (lit '' ,;:.-'')"

definition ellipsis :: nat where "ellipsis = 8230"

definition fit_desc :: "pystr \<Rightarrow> pystr \<times> nat option" where
  "fit_desc desc =
     (let d = py_strip (squash is_space 32 desc)
      in if length d \<le> MAX_DESC then (d, None)
         else let cut = take (MAX_DESC - 1) d;
                  cut' = (case rfind_cp 32 cut of
                            Some sp \<Rightarrow> if 5 * sp > 3 * MAX_DESC then take sp cut else cut
                          | None \<Rightarrow> cut)
              in (rstrip_by clip_tail cut' @ [ellipsis], Some (length d)))"

section \<open>Near-duplicate report\<close>

definition DUP_STOPWORDS :: "pystr list" where
  "DUP_STOPWORDS = map lit [''use'', ''when'', ''the'', ''a'', ''an'', ''and'', ''or'', ''to'', ''of'',
     ''for'', ''in'', ''on'', ''with'', ''this'', ''that'', ''it'', ''is'', ''are'', ''be'', ''as'',
     ''by'', ''from'', ''at'', ''not'', ''do'', ''into'', ''if'', ''then'', ''than'', ''so'']"

definition DUP_THRESHOLD :: rat where "DUP_THRESHOLD = 2 / 5"

text \<open>A Python set of words, as a list without repetitions.\<close>

definition dup_tokens :: "unidb \<Rightarrow> pystr \<Rightarrow> pystr list" where
  "dup_tokens U text =
     remdups (filter (\<lambda>w. 2 < length w \<and> w \<notin> set DUP_STOPWORDS) (runs is_lodi (py_lower U text)))"

text \<open>\<^verbatim>\<open>^description:\s*(.+)$\<close> in multi-line mode.\<close>

definition DESC_RE :: regex where
  "DESC_RE = Seq BolM (Seq (Str (lit ''description:'')) (Seq (star (Cls is_space))
     (Seq (Grp 1 (plus1 (Cls (\<lambda>c. c \<noteq> 10)))) EolM)))"

definition listed_desc :: "pystr \<Rightarrow> pystr" where
  "listed_desc head =
     (case re_search no_word DESC_RE head of
        None \<Rightarrow> []
      | Some st \<Rightarrow> strip_by (\<lambda>c. c \<in> {quote, dquote}) (py_strip (re_group head 1 st)))"

definition overlap :: "pystr list \<Rightarrow> pystr list \<Rightarrow> rat" where
  "overlap mine theirs =
     of_nat (length (filter (\<lambda>w. w \<in> set theirs) mine)) / of_nat (min (length mine) (length theirs))"

definition skill_md :: pystr where "skill_md = lit ''SKILL.md''"

definition listing :: "node \<Rightarrow> path \<Rightarrow> pystr list option" where
  "listing fs p = (case stat fs p of Some (Dir cs) \<Rightarrow> Some (sort (map fst cs)) | _ \<Rightarrow> None)"

definition dup_hit ::
    "unidb \<Rightarrow> env \<Rightarrow> node \<Rightarrow> path \<Rightarrow> rat \<Rightarrow> pystr list \<Rightarrow> pystr \<Rightarrow> pystr \<Rightarrow> (pystr \<times> rat) list" where
  "dup_hit U E fs dir threshold mine name other =
     (if other = name \<or> prefix (lit ''.'') other then []
      else case snd (read_text (dir @ [other, skill_md]) fs) of
             Inl e \<Rightarrow> []
           | Inr text \<Rightarrow>
               (let theirs = dup_tokens U (replace_cp 45 [32] other @ [32] @ listed_desc (take 2500 text))
                in if theirs = [] then []
                   else if overlap mine theirs \<ge> threshold
                        then [(other, env_round E (overlap mine theirs))] else []))"

definition near_duplicates :: "unidb \<Rightarrow> env \<Rightarrow> node \<Rightarrow> path \<Rightarrow> pystr \<Rightarrow> pystr \<Rightarrow> (pystr \<times> rat) list" where
  "near_duplicates U E fs dir name desc =
     (let threshold = (case env_threshold E of None \<Rightarrow> DUP_THRESHOLD | Some t \<Rightarrow> t)
      in if threshold \<le> 0 then []
         else let mine = dup_tokens U (replace_cp 45 [32] name @ [32] @ desc)
              in if mine = [] then []
                 else case listing fs dir of
                        None \<Rightarrow> []
                      | Some entries \<Rightarrow>
                          take 3 (sort_key (\<lambda>h. - snd h)
                            (concat (map (dup_hit U E fs dir threshold mine name) entries))))"

section \<open>Rendering\<close>

definition default_body :: "pystr \<Rightarrow> pystr \<Rightarrow> pystr" where
  "default_body name desc =
     lit ''# /'' @ name @ [newline, newline] @ desc @ [newline, newline] @ lit ''## Steps''
     @ [newline, newline] @ lit ''1. <fill in the procedure>'' @ [newline]"

definition body_text :: "pystr \<Rightarrow> pystr \<Rightarrow> pystr \<Rightarrow> pystr" where
  "body_text name desc body = (if py_strip body \<noteq> [] then py_strip body else default_body name desc)"

definition render ::
    "env \<Rightarrow> pystr \<Rightarrow> pystr \<Rightarrow> pystr \<Rightarrow> pystr \<Rightarrow> pystr \<Rightarrow> pystr \<Rightarrow> pystr" where
  "render E name desc body trigger source category =
     (let b = body_text name desc body;
          fm = [dashes,
                lit ''name: '' @ name,
                lit ''description: '' @ yaml_scalar (Some desc),
                lit ''installer: '' @ INSTALLER,
                lit ''created_at: '' @ env_now E,
                lit ''created_session: '' @ take 8 (env_session E),
                lit ''trigger: '' @ yaml_scalar (Some trigger),
                lit ''created_by: '' @ yaml_scalar (Some source),
                lit ''category: '' @ yaml_scalar (Some category),
                lit ''content_hash: '' @ body_hash E b,
                dashes,
                []]
      in py_join [newline] fm @ py_rstrip b @ [newline])"

section \<open>create\<close>

datatype reason = BadName pystr | NoDescription | BadTrigger pystr | NoSource | BadCategory
  | BodyUnreadable oserror

datatype status = Invalid reason | Staged | Created | ExistsIdentical | RefusedConflict

datatype repair = Renamed pystr pystr | Clipped nat pystr

record report =
  r_status :: status
  r_name :: pystr
  r_path :: "path option"
  r_repairs :: "(pystr \<times> repair) list"
  r_dups :: "(pystr \<times> rat) list"

text \<open>\<^verbatim>\<open>_emit\<close> exits with 0 on success and 2 on a refusal.\<close>

definition exit_code :: "status \<Rightarrow> nat" where
  "exit_code s = (case s of Invalid _ \<Rightarrow> 2 | RefusedConflict \<Rightarrow> 2 | _ \<Rightarrow> 0)"

definition plain_report :: "status \<Rightarrow> pystr \<Rightarrow> path option \<Rightarrow> report" where
  "plain_report s n p = \<lparr>r_status = s, r_name = n, r_path = p, r_repairs = [], r_dups = []\<rparr>"

text \<open>Exclusive create, continuing with \<open>won\<close> or, when the file was already there, with \<open>lost\<close>.\<close>

definition excl_or :: "path \<Rightarrow> pystr \<Rightarrow> 'a io \<Rightarrow> 'a io \<Rightarrow> 'a io" where
  "excl_or dest t won lost fs =
     (case open_excl dest t fs of
        (fs', Inr _) \<Rightarrow> won fs'
      | (fs', Inl FileExists) \<Rightarrow> lost fs'
      | (fs', Inl e) \<Rightarrow> (fs', Inl e))"

text \<open>What follows a lost exclusive create: identical, refuse, or overwrite under \<^verbatim>\<open>--force\<close>.\<close>

definition reconcile ::
    "bool \<Rightarrow> pystr \<Rightarrow> path \<Rightarrow> pystr \<Rightarrow> pystr \<Rightarrow> report io \<Rightarrow> report io" where
  "reconcile force name dest rendered new_hash done =
     bindio (read_text dest)
       (\<lambda>text.
          if map_of (fst (read_frontmatter text)) (lit ''content_hash'') = Some new_hash
          then retio (plain_report ExistsIdentical name (Some dest))
          else if \<not> force
          then retio (plain_report RefusedConflict name (Some dest))
          else bindio (open_write dest rendered) (\<lambda>_. done))"

definition queue_line :: "env \<Rightarrow> pystr \<Rightarrow> pystr \<Rightarrow> pystr \<Rightarrow> pystr" where
  "queue_line E name trigger desc =
     lit ''- '' @ env_now E @ lit ''  '' @ name @ lit ''  ('' @ (if trigger = [] then lit ''n/a'' else trigger)
     @ lit '')  '' @ desc @ [newline]"

definition pending :: pystr where "pending = lit ''.pending-skills''"

text \<open>The writing half of \<^verbatim>\<open>cmd_create\<close>, once the inputs are accepted.\<close>

definition write_skill ::
    "unidb \<Rightarrow> env \<Rightarrow> args \<Rightarrow> pystr \<Rightarrow> pystr \<Rightarrow> pystr \<Rightarrow> pystr \<Rightarrow> pystr \<Rightarrow> pystr \<Rightarrow>
     (pystr \<times> repair) list \<Rightarrow> report io" where
  "write_skill U E a name desc trigger source category body repairs fs =
     (let dir = (case a_dir a of Some d \<Rightarrow> d | None \<Rightarrow> default_dir E (a_global a));
          rendered = render E name desc body trigger source category;
          new_hash = body_hash E (body_text name desc body);
          dups = near_duplicates U E fs dir name desc;
          note = (\<lambda>s p. \<lparr>r_status = s, r_name = name, r_path = Some p, r_repairs = repairs, r_dups = dups\<rparr>)
      in if a_stage a then
           (let dest_dir = dir @ [pending, name];
                dest = dest_dir @ [skill_md];
                finish = bindio (open_append (dir @ [pending, lit ''queue.md'']) (queue_line E name trigger desc))
                           (\<lambda>_. retio (note Staged dest))
            in bindio (makedirs True dest_dir)
                 (\<lambda>_. excl_or dest rendered finish
                        (reconcile (a_force a) name dest rendered new_hash finish)) fs)
         else
           (let dest_dir = dir @ [name];
                dest = dest_dir @ [skill_md];
                finish = retio (note Created dest)
            in bindio (makedirs True dest_dir)
                 (\<lambda>_. excl_or dest rendered finish
                        (reconcile (a_force a) name dest rendered new_hash finish)) fs))"

definition repair_if :: "pystr \<Rightarrow> pystr \<Rightarrow> pystr \<Rightarrow> (pystr \<times> repair) list" where
  "repair_if key given used = (if used \<noteq> given then [(key, Renamed given used)] else [])"

definition cmd_create :: "unidb \<Rightarrow> env \<Rightarrow> args \<Rightarrow> report io" where
  "cmd_create U E a fs =
     (let name_given = py_strip (a_name a);
          name = kebab U name_given;
          (desc, desc_orig) = fit_desc (a_desc a);
          trig_given = py_strip (a_trigger a);
          trigger = squash (\<lambda>c. is_space c \<or> c = 95) 45 (py_lower U trig_given);
          source = py_strip (if a_source a \<noteq> [] then a_source a else env_source E);
          cat_given = py_strip (a_category a);
          category = kebab U cat_given;
          repairs = repair_if (lit ''name'') name_given name
            @ (case desc_orig of None \<Rightarrow> [] | Some n \<Rightarrow> [(lit ''description'', Clipped n desc)])
            @ repair_if (lit ''trigger'') trig_given trigger
            @ repair_if (lit ''category'') cat_given category;
          invalid = (\<lambda>r. (fs, Inr (plain_report (Invalid r) name None)))
      in if re_match no_word NAME_RE name = None then invalid (BadName name_given)
         else if desc = [] then invalid NoDescription
         else if trigger \<notin> set VALID_TRIGGERS then invalid (BadTrigger trigger)
         else if source = [] then invalid NoSource
         else if category \<noteq> [] \<and> re_match no_word CAT_RE category = None then invalid BadCategory
         else case a_body_file a of
                None \<Rightarrow> write_skill U E a name desc trigger source category (a_body a) repairs fs
              | Some p \<Rightarrow>
                  (case snd (read_text p fs) of
                     Inl e \<Rightarrow> invalid (BodyUnreadable e)
                   | Inr body \<Rightarrow> write_skill U E a name desc trigger source category body repairs fs))"

section \<open>validate and list\<close>

datatype validation_error = NoFrontmatter | MissingName | BadNameField pystr | MissingDescription
  | EmptyBody | Unreadable oserror

definition validate_text :: "pystr \<Rightarrow> validation_error list" where
  "validate_text text =
     (let r = read_frontmatter text; fm = fst r; body = snd r;
          name = dget fm (lit ''name'') []
      in (if fm = [] then [NoFrontmatter] else [])
       @ (if name = [] then [MissingName]
          else if re_match no_word NAME_RE name = None then [BadNameField name] else [])
       @ (if dget fm (lit ''description'') [] = [] then [MissingDescription] else [])
       @ (if py_strip body = [] then [EmptyBody] else []))"

definition cmd_validate :: "path \<Rightarrow> node \<Rightarrow> bool \<times> validation_error list" where
  "cmd_validate p fs =
     (case snd (read_text p fs) of
        Inl e \<Rightarrow> (False, [Unreadable e])
      | Inr text \<Rightarrow> (let errs = validate_text text in (errs = [], errs)))"

record listed =
  l_name :: pystr
  l_desc :: pystr
  l_created_at :: pystr
  l_trigger :: pystr
  l_category :: pystr
  l_created_by :: pystr
  l_path :: path

definition list_entry :: "node \<Rightarrow> path \<Rightarrow> pystr \<Rightarrow> oserror + listed list" where
  "list_entry fs dir entry =
     (let md = dir @ [entry, skill_md]
      in if prefix (lit ''.'') entry \<or> \<not> isfile fs md then Inr []
         else case snd (read_text md fs) of
                Inl e \<Rightarrow> Inl e
              | Inr text \<Rightarrow>
                  (let fm = fst (read_frontmatter text)
                   in Inr (if map_of fm (lit ''installer'') = Some INSTALLER
                           then [\<lparr>l_name = dget fm (lit ''name'') entry,
                                  l_desc = dget fm (lit ''description'') [],
                                  l_created_at = dget fm (lit ''created_at'') [],
                                  l_trigger = dget fm (lit ''trigger'') [],
                                  l_category = dget fm (lit ''category'') [],
                                  l_created_by = dget fm (lit ''created_by'') [],
                                  l_path = md\<rparr>]
                           else [])))"

fun collect_entries :: "('a \<Rightarrow> oserror + 'b list) \<Rightarrow> 'a list \<Rightarrow> oserror + 'b list" where
  "collect_entries f [] = Inr []"
| "collect_entries f (x # xs) =
     (case f x of Inl e \<Rightarrow> Inl e
      | Inr ys \<Rightarrow> (case collect_entries f xs of Inl e \<Rightarrow> Inl e | Inr zs \<Rightarrow> Inr (ys @ zs)))"

definition cmd_list :: "env \<Rightarrow> path option \<Rightarrow> bool \<Rightarrow> node \<Rightarrow> oserror + listed list" where
  "cmd_list E dir_arg use_global fs =
     (let dir = (case dir_arg of Some d \<Rightarrow> d | None \<Rightarrow> default_dir E use_global)
      in if isdir fs dir
         then (case listing fs dir of None \<Rightarrow> Inr [] | Some es \<Rightarrow> collect_entries (list_entry fs dir) es)
         else Inr [])"


section \<open>Names\<close>

definition kebab_form :: "pystr \<Rightarrow> bool" where
  "kebab_form s \<longleftrightarrow> list_all kebab_cp s \<and> (s = [] \<or> (hd s \<noteq> 45 \<and> last s \<noteq> 45))
     \<and> \<not> contains [45, 45] s"

lemma lodi_facts:
  "is_lodi c \<Longrightarrow> \<not> is_space c \<and> \<not> is_linebreak c \<and> c < 192 \<and> \<not> is_upper c \<and> c \<noteq> 45 \<and> c \<noteq> colon
     \<and> c \<noteq> quote \<and> c \<noteq> dquote \<and> c \<noteq> newline \<and> c \<noteq> 13"
  by (auto simp: is_lodi_def is_lower_def is_digit_def is_space_def is_linebreak_def is_upper_def)

lemma kebab_cp_facts:
  "kebab_cp c \<Longrightarrow> \<not> is_space c \<and> \<not> is_linebreak c \<and> lower_cp U c = [c] \<and> c \<noteq> colon
     \<and> c \<noteq> quote \<and> c \<noteq> dquote \<and> c \<noteq> newline \<and> c \<noteq> 13"
  by (auto simp: kebab_cp_def is_space_def is_linebreak_def is_upper_def lower_cp_def dest: lodi_facts)

lemma kebab_formD:
  assumes "kebab_form s"
  shows "one_line s" "py_strip s = s" "bare_ok s" "colon \<notin> set s" "quote \<notin> set s" "13 \<notin> set s"
    "\<not> contains dashes s"
proof -
  have all: "\<forall>c\<in>set s. kebab_cp c" using assms by (simp add: kebab_form_def list_all_iff)
  show "one_line s" using all kebab_cp_facts by (simp add: one_line_iff)
  have ends: "s = [] \<or> (kebab_cp (hd s) \<and> kebab_cp (last s))" using all by auto
  then show strip: "py_strip s = s"
    unfolding py_strip_def using kebab_cp_facts by (intro strip_by_id) blast
  show "bare_ok s" using ends strip kebab_cp_facts by (auto simp: bare_ok_def)
  show "colon \<notin> set s" "quote \<notin> set s" "13 \<notin> set s" using all kebab_cp_facts by blast+
  show "\<not> contains dashes s"
    using assms contains_shorter [of "[45, 45]" "[45]" s] by (auto simp: kebab_form_def lit_simps)
qed

lemma sublist_contains_mono: "sublist t s \<Longrightarrow> contains u t \<Longrightarrow> contains u s"
  by (auto simp: contains_iff_sublist sublist_def) (metis append.assoc)

lemma kebab_kebab_form: "kebab_form (kebab U s)"
proof -
  let ?q = "squash (\<lambda>c. \<not> is_lodi c) 45 (py_lower U (py_strip s))"
  have "\<not> is_lodi 45" by (simp add: is_lodi_def is_lower_def is_digit_def)
  then have "\<not> contains [45, 45] ?q"
    by (intro successively_no_pair squash_no_adjacent)
  moreover have "sublist (kebab U s) ?q"
    unfolding kebab_def using strip_by_decomp [of ?q "\<lambda>c. c = 45"] by (metis sublist_appendI)
  ultimately have "\<not> contains [45, 45] (kebab U s)"
    using sublist_contains_mono by blast
  moreover have "list_all kebab_cp (kebab U s)"
    using set_squash [of "\<lambda>c. \<not> is_lodi c" 45] set_strip_by [of "\<lambda>c. c = 45" ?q]
    unfolding kebab_def list_all_iff kebab_cp_def by blast
  ultimately show ?thesis
    using strip_by_hd [of "\<lambda>c. c = 45" ?q] strip_by_last [of "\<lambda>c. c = 45" ?q]
    by (auto simp: kebab_form_def kebab_def)
qed

lemma squash_fix:
  "(\<forall>x\<in>set s. p x \<longrightarrow> x = c) \<Longrightarrow> p c \<Longrightarrow> \<not> contains [c, c] s \<Longrightarrow> squash p c s = s"
proof (induction s)
  case (Cons x xs)
  have tail: "squash p c xs = xs" using Cons by (auto simp: contains_iff_sublist sublist_Cons_right)
  show ?case
  proof (cases "p x")
    case True
    with Cons.prems have x: "x = c" by simp
    with Cons.prems have "xs = [] \<or> hd xs \<noteq> c"
      by (cases xs) (auto simp: contains_iff_sublist sublist_Cons_right)
    with Cons.prems have "dropWhile p xs = xs" by (cases xs) auto
    with True x tail show ?thesis by simp
  qed (simp add: tail)
qed simp

lemma kebab_fix: "kebab_form s \<Longrightarrow> kebab U s = s"
proof -
  assume k: "kebab_form s"
  have all: "\<forall>c\<in>set s. kebab_cp c" using k by (simp add: kebab_form_def list_all_iff)
  have "py_lower U s = s" unfolding py_lower_def
    using all kebab_cp_facts by (induction s) auto
  moreover have "squash (\<lambda>c. \<not> is_lodi c) 45 s = s"
    using k all by (intro squash_fix) (auto simp: kebab_cp_def kebab_form_def is_lodi_def is_lower_def is_digit_def)
  moreover have "strip_by (\<lambda>c. c = 45) s = s"
    using k by (intro strip_by_id) (auto simp: kebab_form_def)
  ultimately show ?thesis by (simp add: kebab_def kebab_formD [OF k])
qed

lemma shape_iff:
  assumes "kebab_form s"
  shows "re_match W (name_regex is_lodi kebab_cp mn mx) s \<noteq> None \<longleftrightarrow> mn < length s \<and> length s \<le> Suc mx"
proof -
  have nl: "\<not> (\<exists>t. s = t @ [10] \<and> name_shape is_lodi kebab_cp mn mx t)"
    using assms kebab_cp_facts [of 10] by (auto simp: kebab_form_def list_all_iff)
  have "name_shape is_lodi kebab_cp mn mx s \<longleftrightarrow> s \<noteq> [] \<and> mn < length s \<and> length s \<le> Suc mx"
    using assms by (cases s) (auto simp: name_shape_def kebab_form_def kebab_cp_def)
  with nl show ?thesis unfolding name_regex_match by auto
qed

section \<open>Descriptions\<close>

definition collapsed :: "pystr \<Rightarrow> pystr" where
  "collapsed s = py_strip (squash is_space 32 s)"

lemma space_32 [simp]: "is_space 32"
  by (simp add: is_space_def)

lemma space_not_break: "one_line (squash is_space 32 s)"
proof -
  have "\<forall>c\<in>set (squash is_space 32 s). c = 32 \<or> \<not> is_space c"
    using set_squash [of is_space 32 s] by blast
  then show ?thesis using linebreak_is_space by (auto simp: one_line_iff is_linebreak_def)
qed

lemma collapsed_props:
  "one_line (collapsed s)" "py_strip (collapsed s) = collapsed s" "\<not> contains [32, 32] (collapsed s)"
  "\<forall>c\<in>set (collapsed s). is_space c \<longrightarrow> c = 32"
proof -
  let ?q = "squash is_space 32 s"
  show "one_line (collapsed s)" unfolding collapsed_def by (simp add: one_line_py_strip space_not_break)
  show "py_strip (collapsed s) = collapsed s" by (simp add: collapsed_def)
  have "\<not> contains [32, 32] ?q" by (intro successively_no_pair squash_no_adjacent) simp
  moreover have "sublist (collapsed s) ?q"
    unfolding collapsed_def py_strip_def using strip_by_decomp [of ?q is_space] by (metis sublist_appendI)
  ultimately show "\<not> contains [32, 32] (collapsed s)" using sublist_contains_mono by blast
  show "\<forall>c\<in>set (collapsed s). is_space c \<longrightarrow> c = 32"
    using set_squash [of is_space 32 s] set_py_strip [of ?q] unfolding collapsed_def by blast
qed

lemma all_dropWhile: "(\<forall>c\<in>set (dropWhile p s). p c) \<longleftrightarrow> (\<forall>c\<in>set s. p c)"
  by (induction s) auto

lemma squash_all: "p c \<Longrightarrow> (\<forall>x\<in>set (squash p c s). p x) \<longleftrightarrow> (\<forall>x\<in>set s. p x)"
  by (induction p c s rule: squash.induct) (auto simp: all_dropWhile)

lemma collapsed_Nil_iff: "collapsed s = [] \<longleftrightarrow> (\<forall>c\<in>set s. is_space c)"
  by (simp add: collapsed_def py_strip_def strip_by_Nil_iff squash_all)

lemma rfind_bound: "rfind_cp c s = Some i \<Longrightarrow> i < length s"
  by (auto simp: rfind_cp_def split: if_splits) (metis Suc_diff_Suc diff_less diff_zero length_pos_if_in_set zero_less_Suc)

lemma fit_desc_clipped:
  assumes "MAX_DESC < length (collapsed s)"
  shows "\<exists>cut. fit_desc s = (cut @ [ellipsis], Some (length (collapsed s)))
           \<and> prefix cut (collapsed s) \<and> length cut < MAX_DESC"
proof -
  let ?d = "collapsed s" and ?cut = "take (MAX_DESC - 1) (collapsed s)"
  define cut' where "cut' = (case rfind_cp 32 ?cut of
      Some sp \<Rightarrow> if 5 * sp > 3 * MAX_DESC then take sp ?cut else ?cut | None \<Rightarrow> ?cut)"
  have p: "prefix cut' ?d" "length cut' \<le> MAX_DESC - 1"
    unfolding cut'_def by (auto split: option.splits simp: take_is_prefix)
  moreover obtain b where "cut' = rstrip_by clip_tail cut' @ b" using rstrip_by_decomp by blast
  ultimately have "prefix (rstrip_by clip_tail cut') ?d" "length (rstrip_by clip_tail cut') \<le> MAX_DESC - 1"
    by (metis append_prefixD, metis le_add1 le_trans length_append)
  moreover have "fit_desc s = (rstrip_by clip_tail cut' @ [ellipsis], Some (length ?d))"
    using assms unfolding fit_desc_def cut'_def collapsed_def Let_def by auto
  ultimately show ?thesis by (intro exI [of _ "rstrip_by clip_tail cut'"]) (auto simp: MAX_DESC_def)
qed

lemma fit_desc_short: "length (collapsed s) \<le> MAX_DESC \<Longrightarrow> fit_desc s = (collapsed s, None)"
  by (simp add: fit_desc_def collapsed_def Let_def)

lemma fit_desc_cases:
  obtains (short) "fit_desc s = (collapsed s, None)" "length (collapsed s) \<le> MAX_DESC"
  | (clipped) cut where "fit_desc s = (cut @ [ellipsis], Some (length (collapsed s)))"
      "prefix cut (collapsed s)" "length cut < MAX_DESC" "MAX_DESC < length (collapsed s)"
  using fit_desc_short fit_desc_clipped by (metis not_le)

lemma fit_desc_one_line: "one_line (fst (fit_desc s))"
proof (cases s rule: fit_desc_cases)
  case short
  then show ?thesis by (simp add: collapsed_props)
next
  case (clipped cut)
  then have "one_line cut" using collapsed_props(1) [of s] by (auto simp: prefix_def)
  with clipped show ?thesis by (simp add: ellipsis_def is_linebreak_def)
qed

lemma fit_desc_trimmed: "py_strip (fst (fit_desc s)) = fst (fit_desc s)"
proof (cases s rule: fit_desc_cases)
  case short
  then show ?thesis by (simp add: collapsed_props)
next
  case (clipped cut)
  have "cut = [] \<or> \<not> is_space (hd cut)"
  proof (cases "cut = []")
    case False
    then have "hd cut = hd (collapsed s)" "collapsed s \<noteq> []"
      using clipped(2) by (auto simp: prefix_def)
    then show ?thesis
      using strip_by_hd [of is_space "squash is_space 32 s"] by (simp add: collapsed_def py_strip_def)
  qed simp
  then have "py_strip (cut @ [ellipsis]) = cut @ [ellipsis]"
    unfolding py_strip_def by (intro strip_by_id) (auto simp: ellipsis_def is_space_def hd_append)
  with clipped show ?thesis by simp
qed

section \<open>What is rendered\<close>

definition head_fields ::
    "env \<Rightarrow> pystr \<Rightarrow> pystr \<Rightarrow> pystr \<Rightarrow> pystr \<Rightarrow> pystr \<Rightarrow> pystr \<Rightarrow> pydict" where
  "head_fields E name desc trigger source category b =
     [(lit ''name'', name),
      (lit ''description'', yaml_scalar (Some desc)),
      (lit ''installer'', INSTALLER),
      (lit ''created_at'', env_now E),
      (lit ''created_session'', take 8 (env_session E)),
      (lit ''trigger'', yaml_scalar (Some trigger)),
      (lit ''created_by'', yaml_scalar (Some source)),
      (lit ''category'', yaml_scalar (Some category)),
      (lit ''content_hash'', body_hash E b)]"

lemma render_block:
  "render E name desc body trigger source category =
     (let b = body_text name desc body
      in fm_block (head_fields E name desc trigger source category b) (py_rstrip b @ [newline]))"
  by (simp add: render_def Let_def fm_block_def fm_line_def head_fields_def lit_simps)

text \<open>
  Machine text: what the clock, the session id and the hash function are relied on to give, a line
  without surrounding space, without a leading quote and without three dashes in a row.
\<close>

definition stamp_ok :: "pystr \<Rightarrow> bool" where
  "stamp_ok v \<longleftrightarrow> one_line v \<and> bare_ok v \<and> \<not> contains dashes v"

definition env_ok :: "env \<Rightarrow> bool" where
  "env_ok E \<longleftrightarrow> stamp_ok (env_now E) \<and> stamp_ok (take 8 (env_session E)) \<and> (\<forall>b. stamp_ok (env_sha E b))"

lemma contains_double:
  assumes "q \<notin> set sub" "sub \<noteq> []"
  shows "contains sub (a @ replace_cp q [q, q] s) \<longleftrightarrow> contains sub (a @ s)"
proof (induction s arbitrary: a)
  case (Cons x xs)
  show ?case
  proof (cases "x = q")
    case True
    have "contains sub (a @ q # q # replace_cp q [q, q] xs) \<longleftrightarrow> contains sub a \<or> contains sub (replace_cp q [q, q] xs)"
      using contains_append_sep [OF assms, of a "q # replace_cp q [q, q] xs"]
        contains_append_sep [OF assms, of "[]" "replace_cp q [q, q] xs"] assms by simp
    moreover have "contains sub (a @ q # xs) \<longleftrightarrow> contains sub a \<or> contains sub xs"
      by (rule contains_append_sep [OF assms])
    ultimately show ?thesis using True Cons.IH [of "[]"] by (simp add: replace_cp_Cons)
  next
    case False
    then show ?thesis using Cons.IH [of "a @ [x]"] by (simp add: replace_cp_Cons)
  qed
qed simp

lemma yaml_scalar_no_dashes:
  assumes "\<not> contains dashes (flat_text v)"
  shows "\<not> contains dashes (yaml_scalar v)"
proof -
  have "\<not> contains dashes (quote # replace_cp quote [quote, quote] (flat_text v))"
    using assms contains_double [of quote dashes "[quote]" "flat_text v"]
      contains_append_sep [of quote dashes "[]" "flat_text v"] by simp
  then show ?thesis
    using contains_append_sep [of quote dashes "quote # replace_cp quote [quote, quote] (flat_text v)" "[]"]
    by (simp add: yaml_scalar_def)
qed

lemma yaml_scalar_one_line:
  assumes "one_line (flat_text v)"
  shows "one_line (yaml_scalar v)"
proof -
  have "set (replace_cp quote [quote, quote] (flat_text v)) \<subseteq> insert quote (set (flat_text v))"
    using set_replace_cp by fastforce
  moreover have "\<not> is_linebreak quote" by (simp add: is_linebreak_def)
  ultimately show ?thesis using assms by (auto simp: yaml_scalar_def one_line_iff)
qed

text \<open>Free text that survives the head: one line, trimmed, no three dashes in a row.\<close>

definition text_ok :: "pystr \<Rightarrow> bool" where
  "text_ok t \<longleftrightarrow> one_line t \<and> py_strip t = t \<and> \<not> contains dashes t"

lemma text_ok_scalar:
  assumes "text_ok t"
  shows "one_line (yaml_scalar (Some t))" "\<not> contains dashes (yaml_scalar (Some t))"
    "unquote (py_strip (yaml_scalar (Some t))) = t"
proof -
  have flat: "flat_text (Some t) = t" using assms by (simp add: text_ok_def flat_text_id)
  show "one_line (yaml_scalar (Some t))" "\<not> contains dashes (yaml_scalar (Some t))"
    using assms by (auto simp: text_ok_def flat intro!: yaml_scalar_one_line yaml_scalar_no_dashes)
  show "unquote (py_strip (yaml_scalar (Some t))) = t"
    by (simp add: quoted.enc_trimmed quoted.dec_enc flat)
qed

lemma stamp_ok_read: "stamp_ok v \<Longrightarrow> unquote (py_strip v) = v"
  by (simp add: stamp_ok_def bare_ok_def unquote_plain)

lemma kebab_stamp: "kebab_form s \<Longrightarrow> stamp_ok s"
  by (simp add: stamp_ok_def kebab_formD)

lemma kebab_text: "kebab_form s \<Longrightarrow> text_ok s"
  by (simp add: text_ok_def kebab_formD)

lemma valid_trigger_kebab: "t \<in> set VALID_TRIGGERS \<Longrightarrow> kebab_form t"
  by (auto simp: VALID_TRIGGERS_def) (code_simp+)

lemma installer_kebab: "kebab_form INSTALLER"
  by code_simp

definition head_keys :: "pystr list" where
  "head_keys = map lit [''name'', ''description'', ''installer'', ''created_at'', ''created_session'',
     ''trigger'', ''created_by'', ''category'', ''content_hash'']"

lemma head_keys_clean:
  "list_all (\<lambda>k. line_ok (k, []) \<and> \<not> contains dashes k) head_keys"
  by code_simp

lemma head_key_line: "k \<in> set head_keys \<Longrightarrow> one_line r \<Longrightarrow> line_ok (k, r)"
  using head_keys_clean by (auto simp: list_all_iff line_ok_def)

lemma head_key_dashes: "k \<in> set head_keys \<Longrightarrow> \<not> contains dashes r \<Longrightarrow> no_dashes (k, r)"
  using head_keys_clean by (auto simp: list_all_iff no_dashes_def)

lemma head_fields_keys: "map fst (head_fields E name desc trigger source category b) = head_keys"
  by (simp add: head_fields_def head_keys_def)

lemma head_keys_distinct: "distinct head_keys"
  by (simp add: head_keys_def)

lemma head_fields_clean:
  assumes "env_ok E" "stamp_ok name" "text_ok desc" "text_ok trigger" "text_ok source" "text_ok category"
  shows "list_all (\<lambda>kv. line_ok kv \<and> no_dashes kv) (head_fields E name desc trigger source category b)"
proof -
  let ?f = "head_fields E name desc trigger source category b"
  have "one_line (snd kv) \<and> \<not> contains dashes (snd kv)" if "kv \<in> set ?f" for kv
    using that assms kebab_stamp [OF installer_kebab]
    by (auto simp: head_fields_def text_ok_scalar env_ok_def stamp_ok_def body_hash_def)
  moreover have "fst kv \<in> set head_keys" if "kv \<in> set ?f" for kv
    using that head_fields_keys by (metis list.set_map imageI)
  ultimately show ?thesis
    unfolding list_all_iff by (metis head_key_line head_key_dashes prod.collapse)
qed

definition head_values ::
    "env \<Rightarrow> pystr \<Rightarrow> pystr \<Rightarrow> pystr \<Rightarrow> pystr \<Rightarrow> pystr \<Rightarrow> pystr \<Rightarrow> pydict" where
  "head_values E name desc trigger source category b =
     zip head_keys [name, desc, INSTALLER, env_now E, take 8 (env_session E), trigger, source, category,
       body_hash E b]"

lemma head_fields_values:
  assumes "env_ok E" "stamp_ok name" "text_ok desc" "text_ok trigger" "text_ok source" "text_ok category"
  shows "map (\<lambda>(k, r). (k, unquote (py_strip r))) (head_fields E name desc trigger source category b)
     = head_values E name desc trigger source category b"
  using assms kebab_stamp [OF installer_kebab]
  by (simp add: head_fields_def head_values_def head_keys_def text_ok_scalar stamp_ok_read env_ok_def body_hash_def)

text \<open>Text-mode reading of a rendered file changes at most the body.\<close>

lemma univ_nl_append: "13 \<notin> set a \<Longrightarrow> univ_nl (a @ b) = a @ univ_nl b"
  by (induction a) auto

lemma univ_nl_block:
  assumes "list_all line_ok kvs"
  shows "univ_nl (fm_block kvs rest) = fm_block kvs (univ_nl rest)"
proof -
  let ?h = "dashes @ [newline] @ concat (map (\<lambda>kv. fm_line kv @ [newline]) kvs) @ dashes @ [newline]"
  have "13 \<notin> set (fm_line kv)" if "kv \<in> set kvs" for kv
    using that assms line_one [of kv] by (auto simp: list_all_iff one_line_iff)
  then have "13 \<notin> set ?h" by (auto simp: dashes_facts(5) simp del: set_lit)
  from univ_nl_append [OF this, of rest] show ?thesis by (simp add: fm_block_def)
qed

lemma read_rendered:
  assumes "env_ok E" "stamp_ok name" "text_ok desc" "text_ok trigger" "text_ok source" "text_ok category"
    and b: "b = body_text name desc body"
  shows "read_frontmatter (univ_nl (render E name desc body trigger source category)) =
     (head_values E name desc trigger source category b,
      lstrip_by (\<lambda>c. c = newline) (univ_nl (py_rstrip b @ [newline])))"
proof -
  let ?f = "head_fields E name desc trigger source category b"
  have clean: "list_all (\<lambda>kv. line_ok kv \<and> no_dashes kv) ?f" by (rule head_fields_clean) (use assms in auto)
  then have l: "list_all line_ok ?f" and n: "list_all no_dashes ?f" by (simp_all add: list_all_iff)
  have "univ_nl (render E name desc body trigger source category) = fm_block ?f (univ_nl (py_rstrip b @ [newline]))"
    unfolding render_block Let_def b [symmetric] by (rule univ_nl_block [OF l])
  then show ?thesis
    using read_frontmatter_block [OF l n] head_fields_values [OF assms(1-6)]
    by (simp add: head_fields_keys head_keys_distinct)
qed

end
