(* ===== verification/Collect_Commit.thy ===== *)
theory Collect_Commit
  imports Catalog_Paths Skill_Writer
begin

text \<open>
  \<^verbatim>\<open>tools/collect_commit.py\<close>: gathers the auto-skills of a source directory into the catalog
  repository and publishes them. The walk over the source is taken on the tree the loop starts from (source and catalog
  do not overlap); \<^verbatim>\<open>git\<close> is a parameter with its own state.
\<close>

section \<open>The index\<close>

type_synonym ident = "pystr \<times> pystr"

definition identity :: "pydict \<Rightarrow> ident" where
  "identity fm = (dget fm (lit ''created_by'') [], dget fm (lit ''created_at'') [])"

text \<open>\<^verbatim>\<open>existing\<close>: name to content hash, directory and identity, later entries overwriting.\<close>

type_synonym catalog = "(pystr \<times> (pystr \<times> path \<times> ident)) list"

fun index_catalog :: "catalog \<Rightarrow> (oserror + skill_item) list \<Rightarrow> oserror + catalog" where
  "index_catalog ex [] = Inr ex"
| "index_catalog ex (Inl e # its) = Inl e"
| "index_catalog ex (Inr (name, p, fm) # its) =
     index_catalog (AList.update name (dget fm (lit ''content_hash'') [], p, identity fm) ex) its"

section \<open>A free name\<close>

definition numbered :: "pystr \<Rightarrow> nat \<Rightarrow> pystr" where
  "numbered base n = base @ lit ''-'' @ decimal n"

lemma numbered_inj: "numbered base m = numbered base n \<longleftrightarrow> m = n"
  by (simp add: numbered_def decimal_inj)

function next_free :: "pystr list \<Rightarrow> pystr \<Rightarrow> nat \<Rightarrow> pystr" where
  "next_free names base n =
     (if numbered base n \<in> set names then next_free names base (Suc n) else numbered base n)"
  by pat_completeness auto
termination
proof (relation "measure (\<lambda>(names, base, n). card {m. n \<le> m \<and> numbered base m \<in> set names})", goal_cases)
  case (2 names base n)
  let ?S = "\<lambda>n. {m. n \<le> m \<and> numbered base m \<in> set names}"
  have "inj (numbered base)" by (simp add: inj_def numbered_inj)
  then have fin: "finite (?S n)"
    using finite_vimageI [of "set names" "numbered base"] by (auto intro: finite_subset)
  have "n \<in> ?S n" "n \<notin> ?S (Suc n)" "?S (Suc n) \<subseteq> ?S n" using 2 by auto
  then have "?S (Suc n) \<subset> ?S n" by blast
  then show ?case using fin by (simp add: psubset_card_mono)
qed simp

declare next_free.simps [simp del]

text \<open>The name of a different author's skill: \<^verbatim>\<open><name>-<author>\<close>, then numbered from 2.\<close>

definition rename_target :: "pystr list \<Rightarrow> pystr \<Rightarrow> pystr \<Rightarrow> pystr" where
  "rename_target names name author =
     (let t = name @ lit ''-'' @ author in if t \<in> set names then next_free names t 2 else t)"

section \<open>One skill\<close>

text \<open>A refusal keeps what its record in the report has: category and place, target, or destination.\<close>

datatype refusal = BadSegment seg_reason pystr path | BadTarget seg_reason pystr | OutsideRoot path

record cstate =
  c_existing :: catalog
  c_committed :: "pystr list"
  c_skipped :: "pystr list"
  c_renamed :: "(pystr \<times> pystr) list"
  c_updated :: "pystr list"
  c_rejected :: "(pystr \<times> refusal) list"

definition category_of :: "pydict \<Rightarrow> pystr" where
  "category_of fm =
     (let c = dget fm (lit ''category'') [] in if c = [] then lit ''uncategorized'' else c)"

definition author_of :: "pydict \<Rightarrow> pystr" where
  "author_of fm = (let b = dget fm (lit ''created_by'') (lit ''x'') in if b = [] then lit ''x'' else b)"

text \<open>Delete, copy and, when renamed, put the new name into the copy's head.\<close>

definition clear_dest :: "path \<Rightarrow> unit io" where
  "clear_dest dest fs = (if path_exists fs dest then rmtree dest fs else (fs, Inr ()))"

definition fix_name :: "pystr \<Rightarrow> pystr \<Rightarrow> path \<Rightarrow> unit io" where
  "fix_name name target dest =
     (if target = name then retio ()
      else bindio (read_text (dest @ [skill_file]))
             (\<lambda>txt. open_write (dest @ [skill_file])
                      (replace_first (lit ''name: '' @ name) (lit ''name: '' @ target) txt)))"

definition place_skill :: "pystr \<Rightarrow> pystr \<Rightarrow> path \<Rightarrow> path \<Rightarrow> unit io" where
  "place_skill name target src dest =
     bindio (clear_dest dest) (\<lambda>_. bindio (copytree src dest) (\<lambda>_. fix_name name target dest))"

definition refuse :: "pystr \<Rightarrow> refusal \<Rightarrow> cstate \<Rightarrow> cstate" where
  "refuse name why st = st\<lparr>c_rejected := c_rejected st @ [(name, why)]\<rparr>"

text \<open>The part of the loop after the target is chosen; \<open>dest\<close> is set when an old copy is updated.\<close>

definition store_skill ::
    "path \<Rightarrow> skill_item \<Rightarrow> pystr \<Rightarrow> path option \<Rightarrow> cstate \<Rightarrow> cstate io" where
  "store_skill R item target old_dest st fs =
     (let (name, src, fm) = item;
          h = dget fm (lit ''content_hash'') [];
          dest = (case old_dest of Some d \<Rightarrow> d | None \<Rightarrow> R @ [category_of fm, target])
      in case bad_segment target of
           Some why \<Rightarrow> (fs, Inr (refuse name (BadTarget why target) st))
         | None \<Rightarrow>
             if \<not> inside fs R dest then (fs, Inr (refuse name (OutsideRoot dest) st))
             else bindio (place_skill name target src dest)
                    (\<lambda>_. retio (st\<lparr>c_existing := AList.update target (h, dest, identity fm) (c_existing st),
                                   c_committed := (if target \<in> set (c_updated st) then c_committed st
                                                   else c_committed st @ [target])\<rparr>)) fs)"

definition collect_skill :: "path \<Rightarrow> skill_item \<Rightarrow> cstate \<Rightarrow> cstate io" where
  "collect_skill R item st fs =
     (let (name, src, fm) = item;
          h = dget fm (lit ''content_hash'') [];
          why = (case bad_segment name of None \<Rightarrow> bad_segment (category_of fm) | w \<Rightarrow> w)
      in if map_of fm (lit ''installer'') \<noteq> Some INSTALLER then (fs, Inr st)
         else case why of
           Some w \<Rightarrow> (fs, Inr (refuse name (BadSegment w (category_of fm) src) st))
         | None \<Rightarrow>
             (case map_of (c_existing st) name of
                None \<Rightarrow> store_skill R item name None st fs
              | Some (old_hash, old_path, old_ident) \<Rightarrow>
                  if old_hash = h then (fs, Inr (st\<lparr>c_skipped := c_skipped st @ [name]\<rparr>))
                  else if old_ident = identity fm
                  then store_skill R item name (Some old_path) (st\<lparr>c_updated := c_updated st @ [name]\<rparr>) fs
                  else (let target = rename_target (map fst (c_existing st)) name (author_of fm)
                        in store_skill R item target None
                             (st\<lparr>c_renamed := c_renamed st @ [(name, target)]\<rparr>) fs)))"

fun collect_all :: "path \<Rightarrow> (oserror + skill_item) list \<Rightarrow> cstate \<Rightarrow> cstate io" where
  "collect_all R [] st fs = (fs, Inr st)"
| "collect_all R (Inl e # its) st fs = (fs, Inl e)"
| "collect_all R (Inr item # its) st fs = bindio (collect_skill R item st) (collect_all R its) fs"

definition collect :: "path \<Rightarrow> path \<Rightarrow> cstate io" where
  "collect repo src =
     (let R = repo @ [lit ''skills'']
      in bindio (makedirs True R)
           (\<lambda>_ fs. case index_catalog [] (skill_dirs fs R) of
              Inl e \<Rightarrow> (fs, Inl e)
            | Inr ex \<Rightarrow>
                collect_all R (skill_dirs fs src)
                  \<lparr>c_existing = ex, c_committed = [], c_skipped = [], c_renamed = [], c_updated = [],
                   c_rejected = []\<rparr> fs))"

section \<open>Publishing\<close>

text \<open>A finished command: return code (negative after a signal), standard output, standard error.\<close>

type_synonym result = "int \<times> pystr \<times> pystr"

text \<open>What the tool runs: \<^verbatim>\<open>git rev-parse HEAD\<close>, \<^verbatim>\<open>git add -A\<close>, \<^verbatim>\<open>git commit\<close> with a message and a
  committer, \<^verbatim>\<open>git push origin\<close> with a refspec.\<close>

record 'g git =
  git_rev :: "'g \<Rightarrow> result"
  git_add :: "'g \<Rightarrow> 'g \<times> result"
  git_commit :: "pystr \<Rightarrow> pystr \<Rightarrow> 'g \<Rightarrow> 'g \<times> result"
  git_push :: "pystr \<Rightarrow> 'g \<Rightarrow> 'g \<times> result"

datatype commit_error = AddFailed pystr | CommitFailed pystr | HeadNotMoved

record published =
  p_commit :: "pystr option"
  p_pushed :: "bool option"
  p_error :: "commit_error option"

definition head_of :: "result \<Rightarrow> pystr option" where
  "head_of r = (if fst r = 0 then Some (py_strip (fst (snd r))) else None)"

definition rc_text :: "int \<Rightarrow> pystr" where
  "rc_text n = lit ''rc='' @ (if n < 0 then lit ''-'' else []) @ decimal (nat \<bar>n\<bar>)"

definition first_text :: "pystr list \<Rightarrow> pystr \<Rightarrow> pystr" where
  "first_text ts dflt = (case filter (\<lambda>t. t \<noteq> []) (map py_strip ts) of [] \<Rightarrow> dflt | t # _ \<Rightarrow> t)"

definition commit_message :: "cstate \<Rightarrow> pystr" where
  "commit_message st =
     lit ''auto-skill: +'' @ decimal (length (c_committed st)) @ lit '' skill(s)''
     @ (if c_updated st \<noteq> [] then lit '', '' @ decimal (length (c_updated st)) @ lit '' updated in place'' else [])
     @ (if c_renamed st \<noteq> [] then lit '', '' @ decimal (length (c_renamed st)) @ lit '' renamed on name-collision'' else [])"

definition publish :: "'g git \<Rightarrow> pystr \<Rightarrow> bool \<Rightarrow> bool \<Rightarrow> cstate \<Rightarrow> 'g \<Rightarrow> 'g \<times> published" where
  "publish G committer online push st g0 =
     (if c_committed st = [] \<and> c_renamed st = [] \<and> c_updated st = []
      then (g0, \<lparr>p_commit = None, p_pushed = None, p_error = None\<rparr>)
      else
        (let head_before = head_of (git_rev G g0);
             (g1, add_res) = git_add G g0;
             (g2, commit_res) = git_commit G (commit_message st) committer g1;
             sha = head_of (git_rev G g2);
             err = (if fst add_res \<noteq> 0
                    then Some (AddFailed (first_text [snd (snd add_res)] (rc_text (fst add_res))))
                    else if fst commit_res \<noteq> 0
                    then Some (CommitFailed (first_text [snd (snd commit_res), fst (snd commit_res)] (rc_text (fst commit_res))))
                    else if sha \<noteq> None \<and> sha = head_before then Some HeadNotMoved
                    else None);
             sha' = (if err \<noteq> None then None else sha)
         in if push \<and> err = None
            then (let (g3, push_res) = git_push G (if online then lit ''HEAD:auto-skill/batch'' else lit ''HEAD'') g2
                  in (g3, \<lparr>p_commit = sha', p_pushed = Some (fst push_res = 0), p_error = err\<rparr>))
            else (g2, \<lparr>p_commit = sha', p_pushed = None, p_error = err\<rparr>)))"

end
