(* ===== verification/Collect_Properties.thy ===== *)
theory Collect_Properties
  imports Collect_Commit
begin

text \<open>
  What \<^verbatim>\<open>collect_commit.py\<close> promises: it only touches the catalog's \<^verbatim>\<open>skills/\<close> directory, every skill is
  accounted for, a free name is always found, and what it reports as committed and pushed was.
\<close>

section \<open>Names in the tree\<close>

fun plain_names :: "node \<Rightarrow> bool" where
  "plain_names (Dir cs) = list_all (\<lambda>(x, c). plain_name x \<and> plain_names c) cs"
| "plain_names (File t) = True"
| "plain_names (Link t) = True"

lemma set_update: "(y, v) \<in> set (AList.update k w al) \<Longrightarrow> (y, v) = (k, w) \<or> (y, v) \<in> set al"
  by (induction al) (auto split: if_splits)

lemma plain_names_tput:
  "plain_names n \<Longrightarrow> plain_names m \<Longrightarrow> plain_path q \<Longrightarrow> plain_names (tput q m n)"
proof (induction q m n rule: tput.induct)
  case (2 x xs m cs)
  show ?case
  proof (cases "map_of cs x")
    case None
    with 2 show ?thesis by (auto simp: list_all_iff)
  next
    case (Some c)
    then have "(x, c) \<in> set cs" by (rule map_of_SomeD)
    with 2 Some have "plain_names (tput xs m c)" by (auto simp: list_all_iff)
    moreover have "plain_name x" "\<forall>y v. (y, v) \<in> set cs \<longrightarrow> plain_name y \<and> plain_names v"
      using "2.prems" by (auto simp: list_all_iff)
    ultimately show ?thesis using Some set_update [of _ _ x "tput xs m c" cs] by (auto simp: list_all_iff)
  qed
qed auto

lemma resolve_plain: "resolve fs k cur p = Some r \<Longrightarrow> plain_path cur \<Longrightarrow> plain_path r"
proof (induction k cur p rule: resolve_induct [where fs = fs])
  case (up k cur rest)
  then show ?case by (auto simp: resolve_up plain_path_def list_all_iff dest: in_set_butlastD)
next
  case (follow k cur c rest t)
  then show ?case by (auto simp: resolve_follow split: if_splits)
qed (auto simp: resolve_steps)

lemma create_at_plain_names:
  "plain_names fs \<Longrightarrow> plain_names m \<Longrightarrow> plain_path p \<Longrightarrow> plain_names (fst (create_at p m fs))"
  by (cases p rule: rev_cases)
     (auto simp: create_at_def lplace_def intro!: plain_names_tput dest: resolve_plain split: option.splits)

lemma makedirs_plain_names:
  assumes "plain_path p" "plain_names fs"
  shows "plain_names (fst (makedirs ok p fs))"
proof -
  have mk: "plain_names (fst (mkdir_ok ok q s))" if "plain_names s" "plain_path q" for q s
    using create_at_plain_names [OF that(1) _ that(2), of "Dir []"]
    by (auto simp: mkdir_ok_def mkdir_def split: prod.splits sum.splits)
  have "plain_names (fst (makedirs_rev ok r s))" if "plain_names s" "plain_path (rev r)" for r s
    using that
  proof (induction r arbitrary: s)
    case Nil
    then show ?case using mk [of s "[]"] by simp
  next
    case (Cons c r)
    then have "plain_names (fst (swallow_exists (makedirs_rev ok r) s))" by (simp add: fst_swallow)
    moreover have "plain_path (rev (c # r))" using Cons.prems(2) .
    ultimately show ?case using Cons.prems(1) mk [of _ "rev (c # r)"]
      by (auto simp: bindio_def split: prod.split sum.split)
  qed
  with assms show ?thesis by (simp add: makedirs_def)
qed

lemma walk_plain:
  "plain_names n \<Longrightarrow> q \<in> set (walk fs p n) \<Longrightarrow> q = p \<or> (\<exists>d c. q = d @ [c] \<and> plain_name c)"
proof (induction fs p n rule: walk.induct)
  case (1 fs p cs)
  from "1.prems" consider "q = p"
    | x c where "(x, c) \<in> set cs" "q \<in> set (walk fs (p @ [x]) c)" "\<not> prefix (lit ''.'') x" by (auto split: if_splits)
  then show ?case
  proof cases
    case (2 x c)
    then have "plain_name x" "plain_names c" using "1.prems" by (auto simp: list_all_iff)
    moreover have "q = p @ [x] \<or> (\<exists>d c. q = d @ [c] \<and> plain_name c)"
      using "1.IH" [OF 2(1) refl _ \<open>plain_names c\<close> 2(2)] 2(3) by blast
    ultimately show ?thesis by blast
  qed simp
qed auto

lemma tget_plain_names: "plain_names n \<Longrightarrow> tget n p = Some m \<Longrightarrow> plain_names m"
  by (induction n p rule: tget.induct) (auto simp: list_all_iff split: option.splits dest!: map_of_SomeD)

lemma skill_dirs_plain:
  assumes "plain_names fs" "R = d @ [c]" "plain_name c" "Inr (name, p, fm) \<in> set (skill_dirs fs R)"
  shows "\<exists>d c. p = d @ [c] \<and> plain_name c"
proof -
  from assms(4) obtain n where n: "stat fs R = Some n" by (cases "stat fs R") (auto simp: skill_dirs_def)
  with assms(4) obtain cs where st: "stat fs R = Some (Dir cs)" by (cases n) (auto simp: skill_dirs_def)
  with assms(4) obtain q where q: "q \<in> set (walk fs R (Dir cs))"
      "Inr (name, p, fm) \<in> set (skill_item fs q)"
    by (auto simp: skill_dirs_def simp del: walk.simps)
  then have "p = q" by (auto simp: skill_item_def Let_def split: sum.splits if_splits)
  moreover have "plain_names (Dir cs)"
    using st assms(1) by (auto simp: stat_def split: option.splits dest: tget_plain_names)
  ultimately show ?thesis using walk_plain [OF _ q(1)] assms(2,3) by auto
qed

section \<open>Confinement\<close>

lemma grows_same_links: "grows s t \<Longrightarrow> no_new_links s t \<Longrightarrow> same_links s t"
proof -
  assume g: "grows s t" and n: "no_new_links s t"
  have "tget t q = Some (Link l)" if "tget s q = Some (Link l)" for q l
    using growsD [OF g that] by simp
  with n show ?thesis unfolding same_links_def no_new_links_def by blast
qed

lemma copy_fix_grows:
  assumes "plain_name c"
  shows "grows s1 (fst (bindio (copytree src (p @ [c])) (\<lambda>_. fix_name name target (p @ [c])) s1))
    \<and> no_new_links s1 (fst (bindio (copytree src (p @ [c])) (\<lambda>_. fix_name name target (p @ [c])) s1))"
proof (cases src p c s1 rule: copytree_cases)
  case (failed t e)
  then show ?thesis by (simp add: bindio_def same_no_new_links)
next
  case (filled s d cs r)
  let ?s2 = "tput d (Dir cs) s" and ?dmd = "(p @ [c]) @ [skill_file]"
  note f = filled_props [OF filled(5,6)]
  note sl = grows_same_links [OF f(1,2)]
  from filled(4) obtain b where b: "resolve s link_limit [] p = Some b" "d = b @ [c]" by (auto simp: lplace_def)
  have "resolve ?s2 link_limit [] (p @ [c]) = Some d"
    unfolding b(2) using b f(3) sl assms by (intro resolve_snoc) (auto simp: resolve_same_links)
  moreover have nl: "\<nexists>t. tget ?s2 (d @ [skill_file]) = Some (Link t)"
  proof -
    have "tget ?s2 (d @ [skill_file]) = tget (Dir cs) [skill_file]" using f(3) by (simp only: tget_append option.case)
    with filled(6) show ?thesis unfolding has_no_links_def by metis
  qed
  moreover have "plain_name skill_file" by (simp add: plain_name_def)
  ultimately have res: "resolve ?s2 link_limit [] ?dmd = Some (d @ [skill_file])"
    by (intro resolve_snoc)
  have w: "grows s (fst (open_write ?dmd u ?s2)) \<and> no_new_links s (fst (open_write ?dmd u ?s2))" for u
  proof (cases "fst (open_write ?dmd u ?s2) = ?s2")
    case True
    then show ?thesis using f by simp
  next
    case False
    then obtain t where t: "fst (open_write ?dmd u ?s2) = tput (d @ [skill_file]) (File t) ?s2"
      using res by (auto simp: open_write_def write_with_def split: option.splits node.splits if_splits)
    have "grows s (tput (d @ [skill_file]) (File t) ?s2)"
    proof (rule grows_below [OF filled(5)])
      have "frame d s ?s2" by (rule tree.frame_store) simp
      moreover have "frame d ?s2 (tput (d @ [skill_file]) (File t) ?s2)" by (rule tree.frame_store) simp
      ultimately show "frame d s (tput (d @ [skill_file]) (File t) ?s2)" by (rule frame_on_trans)
      fix x
      assume x: "prefix x d" "dir_at s x"
      then have "dir_at ?s2 x" using f(1) grows_dir by blast
      moreover have "strict_prefix x (d @ [skill_file])" using x(1) by (auto simp: strict_prefix_def prefix_def)
      ultimately show "dir_at (tput (d @ [skill_file]) (File t) ?s2) x"
        using dir_at_tput_above [of x "d @ [skill_file]" ?s2 "File t"] by blast
    qed
    moreover have "no_new_links ?s2 (tput (d @ [skill_file]) (File t) ?s2)"
      using same_links_write_with [of ?s2 "\<lambda>_. u" ?dmd] t by (simp add: open_write_def same_no_new_links)
    ultimately show ?thesis using f(2) t by (auto intro: linkless.rel_trans)
  qed
  have fx: "grows s (fst (fix_name name target (p @ [c]) ?s2)) \<and> no_new_links s (fst (fix_name name target (p @ [c]) ?s2))"
    using w f(1,2) by (auto simp: fix_name_def bindio_def retio_def read_text_def split: sum.splits)
  with filled(1-3) f(1,2) show ?thesis
    by (cases r) (auto simp: bindio_def intro: grows_trans linkless.rel_trans same_no_new_links)
qed

lemma place_confined:
  assumes "inside fs R (p @ [c])" "plain_name c" "plain_path R"
  shows "confined R fs (fst (place_skill name target src (p @ [c]) fs))"
  unfolding place_skill_def
proof (rule confining.rel_bind)
  show "confined R fs (fst (clear_dest (p @ [c]) fs))"
    using rmtree_confined [OF assms] confining.rel_refl by (simp add: clear_dest_def)
  show "confined R t (fst (bindio (copytree src (p @ [c])) (\<lambda>_. fix_name name target (p @ [c])) t))" for t
    using copy_fix_grows [OF assms(2)] by (blast intro: growing_confined)
qed

text \<open>Every directory the index knows ends in an ordinary name.\<close>

definition index_ok :: "catalog \<Rightarrow> bool" where
  "index_ok ex \<longleftrightarrow> (\<forall>name h d i. map_of ex name = Some (h, d, i) \<longrightarrow> (\<exists>p c. d = p @ [c] \<and> plain_name c))"

lemma index_ok_update: "index_ok ex \<Longrightarrow> plain_name c \<Longrightarrow> index_ok (AList.update name (h, p @ [c], i) ex)"
  by (auto simp: index_ok_def update_conv')

lemma index_catalog_ok:
  "index_catalog ex its = Inr ex' \<Longrightarrow> index_ok ex \<Longrightarrow>
   (\<And>name p fm. Inr (name, p, fm) \<in> set its \<Longrightarrow> \<exists>d c. p = d @ [c] \<and> plain_name c) \<Longrightarrow> index_ok ex'"
proof (induction ex its rule: index_catalog.induct)
  case (3 ex name p fm its)
  from 3(4) [of name p fm] obtain d c where d: "p = d @ [c]" "plain_name c" by auto
  show ?case
  proof (rule "3.IH")
    show "index_catalog (AList.update name (dget fm (lit ''content_hash'') [], p, identity fm) ex) its = Inr ex'"
      using 3(2) by simp
    show "index_ok (AList.update name (dget fm (lit ''content_hash'') [], p, identity fm) ex)"
      unfolding d(1) using 3(3) d(2) by (rule index_ok_update)
    show "\<exists>d c. p' = d @ [c] \<and> plain_name c" if "Inr (n', p', fm') \<in> set its" for n' p' fm'
      by (rule 3(4) [of n' p' fm']) (simp add: that)
  qed
qed simp_all

lemma store_confined:
  assumes "plain_path R" "index_ok (c_existing st)" "\<And>d. old = Some d \<Longrightarrow> \<exists>p c. d = p @ [c] \<and> plain_name c"
  shows "confined R fs (fst (store_skill R item target old st fs))"
    "snd (store_skill R item target old st fs) = Inr st' \<Longrightarrow> index_ok (c_existing st')"
proof -
  obtain name src fm where item: "item = (name, src, fm)" by (cases item)
  define dest where "dest = (case old of Some d \<Rightarrow> d | None \<Rightarrow> R @ [category_of fm, target])"
  have conf: "confined R fs (fst (store_skill R item target old st fs))
      \<and> (\<forall>st'. snd (store_skill R item target old st fs) = Inr st' \<longrightarrow> index_ok (c_existing st'))"
  proof (cases "bad_segment target = None \<and> inside fs R dest")
    case True
    then have "plain_name target" using bad_segment_plain by blast
    then have "\<exists>p c. R @ [category_of fm, target] = p @ [c] \<and> plain_name c"
      by (intro exI [of _ "R @ [category_of fm]"]) simp
    then have "\<exists>p c. dest = p @ [c] \<and> plain_name c"
      using assms(3) unfolding dest_def by (cases old) simp_all
    then obtain p c where d: "dest = p @ [c]" "plain_name c" by blast
    define st2 where "st2 = st\<lparr>c_existing := AList.update target (dget fm (lit ''content_hash'') [], p @ [c], identity fm) (c_existing st),
        c_committed := (if target \<in> set (c_updated st) then c_committed st else c_committed st @ [target])\<rparr>"
    have eq: "store_skill R item target old st fs = bindio (place_skill name target src (p @ [c])) (\<lambda>_. retio st2) fs"
      using True unfolding store_skill_def item Let_def prod.case dest_def [symmetric] st2_def d(1)
      by (simp only: option.case not_True_eq_False if_False)
    have "confined R fs (fst (store_skill R item target old st fs))"
      unfolding eq using place_confined [of fs R p c] True d assms(1)
      by (intro confining.rel_bind) (simp_all add: retio_def confining.rel_refl)
    moreover have "index_ok (c_existing st2)" using assms(2) d(2) by (simp add: st2_def index_ok_update)
    ultimately show ?thesis unfolding eq by (auto simp: bindio_def retio_def split: prod.splits sum.splits)
  next
    case False
    then have "\<exists>w. store_skill R item target old st fs = (fs, Inr (refuse name w st))"
      by (auto simp: store_skill_def item Let_def dest_def split: option.splits)
    then show ?thesis using assms(2) by (auto simp: refuse_def confining.rel_refl)
  qed
  then show "confined R fs (fst (store_skill R item target old st fs))"
    "snd (store_skill R item target old st fs) = Inr st' \<Longrightarrow> index_ok (c_existing st')" by auto
qed

text \<open>The names the final report mentions. A step either only notes something or stores a copy.\<close>

definition mentioned :: "cstate \<Rightarrow> pystr set" where
  "mentioned st = set (c_committed st) \<union> set (c_skipped st) \<union> fst ` set (c_renamed st)
     \<union> set (c_updated st) \<union> fst ` set (c_rejected st)"

lemma collect_skill_cases:
  obtains (quiet) st' where "collect_skill R item st fs = (fs, Inr st')" "c_existing st' = c_existing st"
      "mentioned st \<subseteq> mentioned st'" "map_of (snd (snd item)) (lit ''installer'') = Some INSTALLER \<Longrightarrow> fst item \<in> mentioned st'"
  | (store) target old st0 where "collect_skill R item st fs = store_skill R item target old st0 fs"
      "c_existing st0 = c_existing st" "mentioned st \<subseteq> mentioned st0" "target = fst item \<or> fst item \<in> mentioned st0"
      "\<And>d. old = Some d \<Longrightarrow> \<exists>n h i. map_of (c_existing st) n = Some (h, d, i)"
proof -
  obtain name src fm where item: "item = (name, src, fm)" by (cases item)
  show ?thesis
  proof (cases "map_of fm (lit ''installer'') \<noteq> Some INSTALLER
      \<or> (case bad_segment name of None \<Rightarrow> bad_segment (category_of fm) | w \<Rightarrow> w) \<noteq> None")
    case True
    then have "\<exists>st'. collect_skill R item st fs = (fs, Inr st') \<and> c_existing st' = c_existing st
        \<and> mentioned st \<subseteq> mentioned st' \<and> (map_of (snd (snd item)) (lit ''installer'') = Some INSTALLER \<longrightarrow> fst item \<in> mentioned st')"
      by (auto simp: collect_skill_def item Let_def refuse_def mentioned_def)
    then show ?thesis using that(1) by blast
  next
    case False
    show ?thesis
    proof (cases "map_of (c_existing st) name")
      case None
      with False show ?thesis using that(2) [of name None st] by (auto simp: collect_skill_def item Let_def)
    next
      case (Some r)
      obtain old_hash old_path old_ident where r: "r = (old_hash, old_path, old_ident)" by (cases r)
      consider "old_hash = dget fm (lit ''content_hash'') []"
        | "old_hash \<noteq> dget fm (lit ''content_hash'') []" "old_ident = identity fm"
        | "old_hash \<noteq> dget fm (lit ''content_hash'') []" "old_ident \<noteq> identity fm" by blast
      then show ?thesis
      proof cases
        case 1
        with False Some r have "collect_skill R item st fs = (fs, Inr (st\<lparr>c_skipped := c_skipped st @ [name]\<rparr>))"
          by (simp add: collect_skill_def item Let_def)
        then show ?thesis by (rule that(1)) (auto simp: mentioned_def item)
      next
        case 2
        with False Some r have "collect_skill R item st fs =
            store_skill R item name (Some old_path) (st\<lparr>c_updated := c_updated st @ [name]\<rparr>) fs"
          by (simp add: collect_skill_def item Let_def)
        with Some r show ?thesis
          by (intro that(2) [of name "Some old_path" "st\<lparr>c_updated := c_updated st @ [name]\<rparr>"]) (simp, simp, auto simp: mentioned_def item, metis option.inject prod.collapse)
      next
        case 3
        with False Some r show ?thesis
          by (intro that(2) [of "rename_target (map fst (c_existing st)) name (author_of fm)" None
            "st\<lparr>c_renamed := c_renamed st @ [(name, rename_target (map fst (c_existing st)) name (author_of fm))]\<rparr>"])
            (auto simp: collect_skill_def item Let_def mentioned_def)
      qed
    qed
  qed
qed

lemma collect_skill_confined:
  assumes "plain_path R" "index_ok (c_existing st)"
  shows "confined R fs (fst (collect_skill R item st fs))
     \<and> (\<forall>st'. snd (collect_skill R item st fs) = Inr st' \<longrightarrow> index_ok (c_existing st'))"
proof (rule collect_skill_cases [where R = R and item = item and st = st and fs = fs], goal_cases quiet store)
  case (quiet st')
  with assms(2) show ?thesis by (simp add: confining.rel_refl)
next
  case (store target old st0)
  have ok: "index_ok (c_existing st0)" using store(2) assms(2) by simp
  have d: "\<exists>p c. d = p @ [c] \<and> plain_name c" if "old = Some d" for d
    using store(5) [OF that] assms(2) unfolding index_ok_def by blast
  show ?thesis unfolding store(1) using store_confined [OF assms(1) ok d] by blast
qed

lemma collect_all_confined:
  "plain_path R \<Longrightarrow> index_ok (c_existing st) \<Longrightarrow> confined R fs (fst (collect_all R its st fs))"
proof (induction R its st fs rule: collect_all.induct)
  case (3 R item its st fs)
  note c = collect_skill_confined [OF 3(2,3), of fs item]
  show ?case unfolding collect_all.simps
  proof (rule confining.rel_bind)
    show "confined R fs (fst (collect_skill R item st fs))" using c by blast
    fix t st'
    assume "collect_skill R item st fs = (t, Inr st')"
    with c have "index_ok (c_existing st')" by simp
    with 3 show "confined R t (fst (collect_all R its st' t))" by simp
  qed
qed (auto simp: confining.rel_refl)

lemma collect_confined_root:
  assumes "plain_path repo" "plain_names fs" "R = repo @ [lit ''skills'']"
  shows "confined R fs (fst (collect repo src fs))"
  unfolding collect_def Let_def assms(3) [symmetric]
proof (rule confining.rel_bind)
  have pR: "plain_path R" using assms by (simp add: plain_name_def)
  show "confined R fs (fst (makedirs True R fs))"
    by (intro growing_confined grows_makedirs same_no_new_links same_links_makedirs)
  fix t :: node and u :: unit
  assume m: "makedirs True R fs = (t, Inr u)"
  have t: "plain_names t" using makedirs_plain_names [OF pR assms(2), of True] m by simp
  show "confined R t (fst (case index_catalog [] (skill_dirs t R) of Inl e \<Rightarrow> (t, Inl e)
      | Inr ex \<Rightarrow> collect_all R (skill_dirs t src)
          \<lparr>c_existing = ex, c_committed = [], c_skipped = [], c_renamed = [], c_updated = [], c_rejected = []\<rparr> t))"
  proof (cases "index_catalog [] (skill_dirs t R)")
    case (Inl e)
    then show ?thesis by (simp add: confining.rel_refl)
  next
    case (Inr ex)
    have "plain_name (lit ''skills'')" by (simp add: plain_name_def)
    then have "index_ok ex"
      using index_catalog_ok [OF Inr] skill_dirs_plain [OF t assms(3)] by (auto simp: index_ok_def)
    then show ?thesis using collect_all_confined [OF pR] Inr by simp
  qed
qed

section \<open>Accounts\<close>

lemma store_mentions:
  assumes "store_skill R item target old st fs = (fs', Inr st')"
  shows "mentioned st \<subseteq> mentioned st'"
    "target = fst item \<Longrightarrow> fst item \<in> mentioned st'"
proof -
  obtain name src fm where item: "item = (name, src, fm)" by (cases item)
  have "mentioned st \<subseteq> mentioned st' \<and> (target = fst item \<longrightarrow> fst item \<in> mentioned st')"
    using assms
    by (auto simp: store_skill_def item Let_def refuse_def mentioned_def bindio_def retio_def
        split: option.splits if_splits prod.splits sum.splits)
  then show "mentioned st \<subseteq> mentioned st'" "target = fst item \<Longrightarrow> fst item \<in> mentioned st'" by auto
qed

lemma collect_skill_mentions:
  assumes "collect_skill R item st fs = (fs', Inr st')"
  shows "mentioned st \<subseteq> mentioned st'"
    "map_of (snd (snd item)) (lit ''installer'') = Some INSTALLER \<Longrightarrow> fst item \<in> mentioned st'"
proof -
  have "mentioned st \<subseteq> mentioned st'
      \<and> (map_of (snd (snd item)) (lit ''installer'') = Some INSTALLER \<longrightarrow> fst item \<in> mentioned st')"
  proof (rule collect_skill_cases [where R = R and item = item and st = st and fs = fs], goal_cases quiet store)
    case (quiet st1)
    with assms show ?case by auto
  next
    case (store target old st0)
    then have "store_skill R item target old st0 fs = (fs', Inr st')" using assms by simp
    from store_mentions [OF this] store(3,4) show ?case by blast
  qed
  then show "mentioned st \<subseteq> mentioned st'"
    "map_of (snd (snd item)) (lit ''installer'') = Some INSTALLER \<Longrightarrow> fst item \<in> mentioned st'" by auto
qed

lemma collect_all_mentions:
  "collect_all R its st fs = (fs', Inr st') \<Longrightarrow>
   mentioned st \<subseteq> mentioned st'
   \<and> (\<forall>item. Inr item \<in> set its \<and> map_of (snd (snd item)) (lit ''installer'') = Some INSTALLER \<longrightarrow> fst item \<in> mentioned st')"
proof (induction R its st fs rule: collect_all.induct)
  case (3 R item its st fs)
  from "3.prems" obtain t st1 where step: "collect_skill R item st fs = (t, Inr st1)" "collect_all R its st1 t = (fs', Inr st')"
    by (auto simp: bindio_def split: prod.splits sum.splits)
  note tail = "3.IH" [OF step(2)] and here = collect_skill_mentions [OF step(1)]
  have "fst x \<in> mentioned st'" if "Inr x \<in> set (Inr item # its)" "map_of (snd (snd x)) (lit ''installer'') = Some INSTALLER" for x
  proof (cases "x = item")
    case False
    with that have "Inr x \<in> set its" by auto
    with that tail show ?thesis by blast
  qed (use that tail here in blast)
  then show ?case using tail here by blast
qed auto

lemma next_free_spec:
  "next_free names base n \<notin> set names
   \<and> (\<exists>k\<ge>n. next_free names base n = numbered base k \<and> {m. numbered base m \<in> set names} \<supseteq> {n..<k})"
proof (induction names base n rule: next_free.induct)
  case (1 names base n)
  show ?case
  proof (cases "numbered base n \<in> set names")
    case True
    then have step: "next_free names base n = next_free names base (Suc n)" by (simp add: next_free.simps [of names base n])
    from 1 [OF True] obtain k where k: "Suc n \<le> k" "next_free names base (Suc n) = numbered base k"
        "{Suc n..<k} \<subseteq> {m. numbered base m \<in> set names}" by blast
    have "{n..<k} = insert n {Suc n..<k}" using k(1) by auto
    with k True have "{n..<k} \<subseteq> {m. numbered base m \<in> set names}" by simp
    with k 1 [OF True] show ?thesis unfolding step by (intro conjI exI [of _ k]) auto
  next
    case False
    then show ?thesis by (auto simp: next_free.simps [of names base n])
  qed
qed

section \<open>The same skill again\<close>

lemma store_again:
  assumes "store_skill R (name, src, fm) name old st0 fs = (fs', Inr st')" "c_rejected st' = c_rejected st0"
  shows "map_of (c_existing st') name = Some (dget fm (lit ''content_hash'') [],
     case old of Some d \<Rightarrow> d | None \<Rightarrow> R @ [category_of fm, name], identity fm)"
  using assms
  by (auto simp: store_skill_def Let_def refuse_def bindio_def retio_def update_conv'
      split: option.splits if_splits prod.splits sum.splits)

lemma collect_skill_known:
  assumes "map_of fm (lit ''installer'') = Some INSTALLER" "bad_segment name = None" "bad_segment (category_of fm) = None"
    "map_of (c_existing st) name = Some (dget fm (lit ''content_hash'') [], d, i)"
  shows "collect_skill R (name, src, fm) st fs = (fs, Inr (st\<lparr>c_skipped := c_skipped st @ [name]\<rparr>))"
  using assms by (simp add: collect_skill_def Let_def)

lemma collected_known:
  assumes "collect_skill R (name, src, fm) st fs = (fs', Inr st')" "map_of fm (lit ''installer'') = Some INSTALLER"
    "c_rejected st' = c_rejected st" "c_renamed st' = c_renamed st"
  shows "bad_segment name = None \<and> bad_segment (category_of fm) = None
     \<and> (\<exists>d i. map_of (c_existing st') name = Some (dget fm (lit ''content_hash'') [], d, i))"
proof (cases "(case bad_segment name of None \<Rightarrow> bad_segment (category_of fm) | w \<Rightarrow> w)")
  case (Some w)
  with assms(1-3) show ?thesis by (auto simp: collect_skill_def Let_def refuse_def)
next
  case None
  then have ok: "bad_segment name = None" "bad_segment (category_of fm) = None" by (auto split: option.splits)
  show ?thesis
  proof (cases "map_of (c_existing st) name")
    case None
    with assms(1,2) ok have "store_skill R (name, src, fm) name None st fs = (fs', Inr st')" by (simp add: collect_skill_def Let_def)
    from store_again [OF this] assms(3) ok show ?thesis by simp
  next
    case (Some r)
    obtain h d i where r: "r = (h, d, i)" by (cases r)
    consider "h = dget fm (lit ''content_hash'') []"
      | "h \<noteq> dget fm (lit ''content_hash'') []" "i = identity fm"
      | "h \<noteq> dget fm (lit ''content_hash'') []" "i \<noteq> identity fm" by blast
    then show ?thesis
    proof cases
      case 1
      with assms(1,2) ok Some r have "st' = st\<lparr>c_skipped := c_skipped st @ [name]\<rparr>" by (simp add: collect_skill_def Let_def)
      with 1 ok Some r show ?thesis by simp
    next
      case 2
      with assms(1,2) ok Some r have "store_skill R (name, src, fm) name (Some d) (st\<lparr>c_updated := c_updated st @ [name]\<rparr>) fs = (fs', Inr st')"
        by (simp add: collect_skill_def Let_def)
      from store_again [OF this] assms(3) ok show ?thesis by simp
    next
      case 3
      let ?t = "rename_target (map fst (c_existing st)) name (author_of fm)"
      from 3 assms(1,2) ok Some r have "store_skill R (name, src, fm) ?t None (st\<lparr>c_renamed := c_renamed st @ [(name, ?t)]\<rparr>) fs = (fs', Inr st')"
        by (simp add: collect_skill_def Let_def)
      then have "c_renamed st' = c_renamed st @ [(name, ?t)]"
        by (auto simp: store_skill_def Let_def refuse_def bindio_def retio_def split: option.splits if_splits prod.splits sum.splits)
      with assms(4) show ?thesis by simp
    qed
  qed
qed

section \<open>Sample run\<close>

definition sample_skill :: "pystr \<Rightarrow> pystr \<Rightarrow> pystr \<Rightarrow> node" where
  "sample_skill name author h =
     Dir [(skill_file, File (fm_block [(lit ''name'', name), (lit ''installer'', INSTALLER),
            (lit ''created_by'', author), (lit ''created_at'', lit ''2026''), (lit ''content_hash'', h)] (lit ''body'')))]"

definition sample_catalog :: node where
  "sample_catalog =
     Dir [(lit ''repo'', Dir [(lit ''skills'', Dir [(lit ''x'', sample_skill (lit ''x'') (lit ''al'') (lit ''1''))])]),
          (lit ''src'', Dir [(lit ''x'', sample_skill (lit ''x'') (lit ''bo'') (lit ''2''))])]"

definition after_runs :: "nat \<Rightarrow> node" where
  "after_runs n = ((\<lambda>fs. fst (collect [lit ''repo''] [lit ''src''] fs)) ^^ n) sample_catalog"

definition first_state :: cstate where
  "first_state = \<lparr>c_existing = [], c_committed = [], c_skipped = [], c_renamed = [], c_updated = [], c_rejected = []\<rparr>"

definition sample_item :: skill_item where
  "sample_item = (lit ''x'', [lit ''src'', lit ''x''],
     fm_of (fm_block [(lit ''name'', lit ''x''), (lit ''installer'', INSTALLER), (lit ''content_hash'', lit ''2'')] []))"

definition sample_step :: "node \<times> (oserror + cstate)" where
  "sample_step = collect_skill [lit ''repo'', lit ''skills''] sample_item first_state sample_catalog"

text \<open>A repository whose commits advance a counter.\<close>

definition sample_git :: "nat git" where
  "sample_git = \<lparr>git_rev = (\<lambda>g. (0, decimal g, [])), git_add = (\<lambda>g. (g, 0, [], [])),
     git_commit = (\<lambda>m c g. (Suc g, 0, [], [])), git_push = (\<lambda>s g. (g, 0, [], []))\<rparr>"

section \<open>Properties\<close>

text \<open>
  C12. Confinement: whatever the skills' names, categories and creators say, and wherever links in the
  tree lead, everything outside the catalog's \<^verbatim>\<open>skills/\<close> directory survives a run: files and links keep
  their content and directories stay. (The catalog is given by a path without links; names in the
  tree are names the system allows.)
\<close>

theorem collect_confinement:
  assumes "plain_path repo" "link_free fs (repo @ [lit ''skills''])" "plain_names fs"
    and "\<not> prefix (repo @ [lit ''skills'']) q" "tget fs q = Some n"
  shows "if is_dir n then dir_at (fst (collect repo src fs)) q else tget (fst (collect repo src fs)) q = Some n"
  using collect_confined_root [OF assms(1,3) refl, of src] assms(2,4,5)
  unfolding confined_def outside_kept_def by blast

theorem collect_confinement_witness:
  "tget (fst (collect [lit ''repo''] [lit ''src''] (Dir [(lit ''repo'', Dir []), (lit ''f'', File [])]))) [lit ''f''] = Some (File [])"
proof -
  let ?fs = "Dir [(lit ''repo'', Dir []), (lit ''f'', File [])]"
  have free: "link_free ?fs ([lit ''repo''] @ [lit ''skills''])"
    by (auto simp: link_free_def prefix_Cons split: if_splits)
  have "plain_path [lit ''repo'']" "plain_names ?fs" "\<not> prefix ([lit ''repo''] @ [lit ''skills'']) [lit ''f'']"
      "tget ?fs [lit ''f''] = Some (File [])" by code_simp+
  from collect_confinement [OF this(1) free this(2-4), of "[lit ''src'']"] show ?thesis by simp
qed


text \<open>
  No skill is dropped in silence: when a run ends normally, every skill of the source that is stamped
  \<^verbatim>\<open>installer: auto-skill\<close> is named in the report as committed, skipped, renamed, updated or rejected.
\<close>

theorem collect_accounts_for_all:
  assumes "collect repo src fs = (fs', Inr st)" "makedirs True (repo @ [lit ''skills'']) fs = (fs1, Inr ())"
    and "Inr (name, p, fm) \<in> set (skill_dirs fs1 src)" "map_of fm (lit ''installer'') = Some INSTALLER"
  shows "name \<in> mentioned st"
proof -
  from assms(1,2) obtain st0 where "collect_all (repo @ [lit ''skills'']) (skill_dirs fs1 src) st0 fs1 = (fs', Inr st)"
    by (auto simp: collect_def Let_def bindio_def split: sum.splits)
  from collect_all_mentions [OF this] assms(3,4) show ?thesis by fastforce
qed

theorem collect_accounts_for_all_witness:
  "case collect [lit ''repo''] [lit ''src''] sample_catalog of (fs, Inl e) \<Rightarrow> False | (fs, Inr st) \<Rightarrow> lit ''x'' \<in> mentioned st"
proof -
  have run: "case collect [lit ''repo''] [lit ''src''] sample_catalog of (fs, Inl e) \<Rightarrow> False | (fs, Inr st) \<Rightarrow> True" by code_simp
  then obtain fs' st where r: "collect [lit ''repo''] [lit ''src''] sample_catalog = (fs', Inr st)"
    by (auto split: prod.splits sum.splits)
  have m: "makedirs True ([lit ''repo''] @ [lit ''skills'']) sample_catalog = (sample_catalog, Inr ())" by code_simp
  have i: "list_ex (\<lambda>x. case x of Inl e \<Rightarrow> False | Inr it \<Rightarrow> fst it = lit ''x'' \<and> map_of (snd (snd it)) (lit ''installer'') = Some INSTALLER)
      (skill_dirs sample_catalog [lit ''src''])" by code_simp
  then obtain y where y: "y \<in> set (skill_dirs sample_catalog [lit ''src''])"
      "case y of Inl e \<Rightarrow> False | Inr it \<Rightarrow> fst it = lit ''x'' \<and> map_of (snd (snd it)) (lit ''installer'') = Some INSTALLER"
    unfolding list_ex_iff by blast
  obtain x where x: "y = Inr x" using y(2) by (cases y; simp)
  obtain p fm where "x = (lit ''x'', p, fm)" using y(2) x by (cases x) simp
  with x y have "Inr (lit ''x'', p, fm) \<in> set (skill_dirs sample_catalog [lit ''src''])"
      "map_of fm (lit ''installer'') = Some INSTALLER" by simp_all
  from collect_accounts_for_all [OF r m this] r show ?thesis by simp
qed


text \<open>
  The rename loop ends and finds a free name: \<^verbatim>\<open><name>-<author>\<close> when that is free, otherwise the
  first free one of \<^verbatim>\<open><name>-<author>-2\<close>, \<^verbatim>\<open>-3\<close>, ...
\<close>

theorem rename_target_free:
  "rename_target names name author \<notin> set names
   \<and> (if name @ lit ''-'' @ author \<in> set names
      then (\<exists>n. rename_target names name author = numbered (name @ lit ''-'' @ author) n
              \<and> {m. numbered (name @ lit ''-'' @ author) m \<in> set names} \<supseteq> {2..<n})
      else rename_target names name author = name @ lit ''-'' @ author)"
  using next_free_spec [of names "name @ lit ''-'' @ author" 2] by (auto simp: rename_target_def Let_def)

text \<open>
  Collecting is idempotent for a skill that was not renamed or rejected: once a step has taken it in
  (new, updated or already known), the same skill is skipped and the tree stays as it is.
\<close>

theorem collect_step_idempotent:
  assumes "collect_skill R (name, src, fm) st fs = (fs', Inr st')" "map_of fm (lit ''installer'') = Some INSTALLER"
    and "c_rejected st' = c_rejected st" "c_renamed st' = c_renamed st"
  shows "collect_skill R (name, src, fm) st' fs' = (fs', Inr (st'\<lparr>c_skipped := c_skipped st' @ [name]\<rparr>))"
  using collected_known [OF assms] collect_skill_known [OF assms(2)] by blast

theorem collect_step_idempotent_witness:
  "case sample_step of (fs, Inl e) \<Rightarrow> False
   | (fs, Inr st) \<Rightarrow> fst (collect_skill [lit ''repo'', lit ''skills''] sample_item st fs) = fs"
proof -
  have "case sample_step of (fs, Inl e) \<Rightarrow> False | (fs, Inr st) \<Rightarrow> c_rejected st = [] \<and> c_renamed st = []" by code_simp
  then obtain fs' st' where r: "sample_step = (fs', Inr st')" "c_rejected st' = []" "c_renamed st' = []"
    by (auto split: prod.splits sum.splits)
  obtain fm where it: "sample_item = (lit ''x'', [lit ''src'', lit ''x''], fm)" by (simp add: sample_item_def)
  have "map_of (snd (snd sample_item)) (lit ''installer'') = Some INSTALLER" by code_simp
  then have i: "map_of fm (lit ''installer'') = Some INSTALLER" by (simp add: it)
  have c: "collect_skill [lit ''repo'', lit ''skills''] (lit ''x'', [lit ''src'', lit ''x''], fm) first_state sample_catalog = (fs', Inr st')"
    using r(1) by (simp add: sample_step_def it)
  have e: "c_rejected st' = c_rejected first_state" "c_renamed st' = c_renamed first_state"
    using r by (simp_all add: first_state_def)
  show ?thesis using collect_step_idempotent [OF c i e] by (simp add: r(1) it)
qed

text \<open>
  Honest report: a commit id is reported only when \<^verbatim>\<open>git add\<close> and \<^verbatim>\<open>git commit\<close> both returned 0 and \<^verbatim>\<open>HEAD\<close> then
  was that id and not the one before; \<^verbatim>\<open>pushed: true\<close> only when pushing was asked for, add, commit and push returned
  0 and no error is reported.
\<close>

lemma publish_honest:
  fixes G :: "'g git"
  assumes "publish G committer online push st g0 = (g', p)"
  shows "let added = git_add G g0; made = git_commit G (commit_message st) committer (fst added)
     in (case p_commit p of None \<Rightarrow> True
         | Some sha \<Rightarrow> fst (snd added) = 0 \<and> fst (snd made) = 0
             \<and> head_of (git_rev G (fst made)) = Some sha \<and> head_of (git_rev G g0) \<noteq> Some sha)
      \<and> (if p_pushed p = Some True
         then push \<and> fst (snd added) = 0 \<and> fst (snd made) = 0 \<and> p_error p = None
           \<and> fst (snd (git_push G (if online then lit ''HEAD:auto-skill/batch'' else lit ''HEAD'') (fst made))) = 0
         else True)
      \<and> (if p_error p = None then True else p_commit p = None \<and> p_pushed p = None)"
  using assms
  by (cases "git_add G g0"; cases "git_commit G (commit_message st) committer (fst (git_add G g0))")
     (auto simp: publish_def Let_def split: if_splits prod.splits option.splits)

section \<open>A run that never settles\<close>

text \<open>
  A different author's skill of the same name is copied under a new name on every run, changed or not:
  the index has the copies under their new names only, so the next run sees the same clash again.
\<close>

definition renames_of :: "node \<times> (oserror + cstate) \<Rightarrow> (pystr \<times> pystr) list" where
  "renames_of r = (case snd r of Inl e \<Rightarrow> [] | Inr st \<Rightarrow> c_renamed st)"

lemma rename_every_run:
  "renames_of (collect [lit ''repo''] [lit ''src''] (after_runs 0)) = [(lit ''x'', lit ''x-bo'')]
   \<and> renames_of (collect [lit ''repo''] [lit ''src''] (after_runs 1)) = [(lit ''x'', lit ''x-bo-2'')]"
  by code_simp

end
