(* ===== verification/Collect_Live.thy ===== *)
theory Collect_Live
  imports Live_Walk Collect_Properties
begin

text \<open>
  \<^verbatim>\<open>collect_commit.py\<close> with the walk it really makes: over skills kept apart from the repository it gives what
  running over the skills found at the start gives. The hypotheses show what its containment check does
  not see: a \<^verbatim>\<open>SKILL.md\<close> at the root of \<^verbatim>\<open>skills/\<close> makes the whole catalog the directory that an update replaces.
\<close>

section \<open>Changes inside a linkless root\<close>

definition linkless :: "path \<Rightarrow> node \<Rightarrow> bool" where
  "linkless R s \<longleftrightarrow> (\<forall>q l. tget s (R @ q) \<noteq> Some (Link l))"

definition stays :: "path \<Rightarrow> node \<Rightarrow> node \<Rightarrow> bool" where
  "stays R s t \<longleftrightarrow> (dir_at s R \<and> linkless R s \<longrightarrow> dir_at t R \<and> linkless R t \<and> frame R s t)"

interpretation staying: kept_relation "stays R" for R
  by unfold_locales (auto simp: stays_def intro: frame_on_trans)

lemma stays_if: "(dir_at s R \<Longrightarrow> linkless R s \<Longrightarrow> stays R s t) \<Longrightarrow> stays R s t"
  unfolding stays_def by blast

text \<open>Below such a root a path is its own place.\<close>

lemma linkless_free:
  assumes "dir_at s R" "linkless R s" "prefix R d"
  shows "link_free s d"
  unfolding link_free_def
proof (intro allI impI)
  fix q l
  assume q: "prefix q d"
  show "tget s q \<noteq> Some (Link l)"
  proof (cases "prefix R q")
    case True
    then show ?thesis using assms(2) by (auto simp: linkless_def prefix_def)
  next
    case False
    with q assms(3) have "prefix q R" using prefix_same_cases by blast
    then have "dir_at s q" using assms(1) dir_at_mono by blast
    then show ?thesis by (auto simp: dir_at_def)
  qed
qed

lemma linkless_place:
  assumes "dir_at s R" "linkless R s" "strict_prefix R d" "plain_path d"
  shows "resolve s k [] d = Some d" "lplace s d = Some d"
proof -
  have f: "link_free s d" using linkless_free assms(1-3) by (simp add: strict_prefix_def)
  then show "resolve s k [] d = Some d" using resolve_free assms(4) by blast
  have "plain_path (butlast d)" using assms(4) by (auto simp: plain_path_def list_all_iff dest: in_set_butlastD)
  then have "resolve s link_limit [] (butlast d) = Some (butlast d)"
    using resolve_free link_free_butlast [OF f] by blast
  moreover have "d \<noteq> []" using assms(3) by (auto simp: strict_prefix_def)
  ultimately show "lplace s d = Some d" by (simp add: lplace_def)
qed

lemma stays_tput:
  assumes "strict_prefix R d" "dir_at s (butlast d)" "has_no_links m"
  shows "stays R s (tput d m s)"
proof (rule stays_if)
  assume R: "dir_at s R" "linkless R s"
  have d: "dir_at (tput d m s) R" using dir_at_tput_above assms(1) R(1) by blast
  have f: "frame d s (tput d m s)" by (rule tree.frame_store) simp
  have "tget (tput d m s) (R @ q) \<noteq> Some (Link l)" for q l
  proof (cases "prefix d (R @ q)")
    case True
    then obtain r where "R @ q = d @ r" by (auto simp: prefix_def)
    with tget_tput_same [of d s m r] assms(2,3) show ?thesis by (simp add: has_no_links_def)
  next
    case False
    show ?thesis
    proof (cases "prefix (R @ q) d")
      case True
      then have "strict_prefix (R @ q) d" using False by (auto simp: strict_prefix_def)
      then obtain x r where "d = (R @ q) @ r @ [x]"
        by (metis strict_prefixE' append_Cons append_Nil append_butlast_last_id append_is_Nil_conv list.distinct(1) append_assoc)
      then have "dir_at s (R @ q)" using assms(2) dir_at_append [of s "R @ q" r] by (simp add: butlast_append)
      then have "dir_at (tput d m s) (R @ q)" using dir_at_tput_above \<open>strict_prefix (R @ q) d\<close> by blast
      then show ?thesis by (auto simp: dir_at_def)
    next
      case F: False
      then have "tget (tput d m s) (R @ q) = tget s (R @ q)" using f False by (simp add: frame_on_def)
      then show ?thesis using R(2) by (simp add: linkless_def)
    qed
  qed
  moreover have "frame R s (tput d m s)"
    using f assms(1) by (auto simp: frame_on_def strict_prefix_def dest: prefix_order.trans prefix_same_cases)
  ultimately show "stays R s (tput d m s)" using d by (simp add: stays_def linkless_def)
qed

lemma stays_tdel:
  assumes "strict_prefix R d"
  shows "stays R s (tdel d s)"
proof (rule stays_if)
  assume R: "dir_at s R" "linkless R s"
  have f: "frame d s (tdel d s)" using assms by (intro tree.frame_remove) (auto simp: strict_prefix_def)
  have "no_new_links s (tdel d s)" using assms by (intro tdel_links) (auto simp: strict_prefix_def)
  with R(2) have "linkless R (tdel d s)" unfolding linkless_def no_new_links_def by blast
  moreover have "frame R s (tdel d s)"
    using f assms by (auto simp: frame_on_def strict_prefix_def dest: prefix_order.trans prefix_same_cases)
  ultimately show "stays R s (tdel d s)" using dir_at_tdel_above [OF assms R(1)] by (simp add: stays_def)
qed

section \<open>The operations\<close>

lemma stays_rmtree:
  assumes "strict_prefix R d" "plain_path d"
  shows "stays R s (fst (rmtree d s))"
proof (rule stays_if)
  assume "dir_at s R" "linkless R s"
  from linkless_place(2) [OF this assms] show "stays R s (fst (rmtree d s))"
    using stays_tdel [OF assms(1)] staying.rel_refl by (auto simp: rmtree_def split: option.splits node.splits)
qed

lemma has_no_links_leaf [simp]: "has_no_links (Dir [])" "has_no_links (File t)"
  unfolding has_no_links_def by (metis list.exhaust tget.simps(1,2) tget_File option.distinct(1) option.inject node.distinct(1,3,5) map_of.simps(1) option.case(1))+

lemma stays_mkdir_ok:
  assumes "strict_prefix R d" "plain_path d"
  shows "stays R s (fst (mkdir_ok ok d s))"
proof (rule stays_if)
  assume "dir_at s R" "linkless R s"
  from linkless_place(2) [OF this assms] show "stays R s (fst (mkdir_ok ok d s))"
    using stays_tput [OF assms(1), of s "Dir []"] staying.rel_refl
    by (auto simp: mkdir_ok_def mkdir_def create_at_def split: prod.splits sum.splits if_splits)
qed

lemma stays_makedirs:
  assumes "strict_prefix R d" "plain_path d"
  shows "stays R s (fst (makedirs ok d s))"
proof -
  have "stays R s (fst (makedirs_rev ok r s))" if "strict_prefix R (rev r)" "plain_path (rev r)" for r s
    using that
  proof (induction r arbitrary: s)
    case (Cons c r)
    have mk: "stays R t (fst (mkdir_ok ok (rev (c # r)) t))" for t
      using stays_mkdir_ok Cons.prems by blast
    show ?case
    proof (cases "rev r = R")
      case True
      show ?thesis
      proof (rule stays_if)
        assume "dir_at s R" "linkless R s"
        then have "path_exists s (rev r)"
          using True Cons.prems(2) realpath_dir [of s R] by (auto simp: path_exists_def stat_def dir_at_def split: option.splits)
        then show "stays R s (fst (makedirs_rev ok (c # r) s))" using mk [of s] by (simp add: bindio_def)
      qed
    next
      case False
      then have "strict_prefix R (rev r)" using Cons.prems(1) by (auto simp: strict_prefix_def)
      moreover have "plain_path (rev r)" using Cons.prems(2) by simp
      ultimately have "stays R s (fst (swallow_exists (makedirs_rev ok r) s))" using Cons.IH by (simp add: fst_swallow)
      then show ?thesis unfolding makedirs_rev.simps
        by (intro staying.rel_bind mk) (auto simp: staying.rel_refl)
    qed
  qed (simp add: strict_prefix_def)
  with assms show ?thesis by (simp add: makedirs_def)
qed

lemma stays_copytree:
  assumes "strict_prefix R d" "plain_path d" "stat s src = Some (Dir cs)" "plain_tree (Dir cs)"
  shows "stays R s (fst (copytree src d s))"
proof -
  have dl: "deref_list link_limit s (realpath s src) cs = (cs, True)"
    using deref_id(2) [of cs] plain_tree_no_links [OF assms(4)] by simp
  have nl: "has_no_links (Dir cs)"
    unfolding has_no_links_def using plain_tree_tget [OF assms(4)] by (metis plain_tree.simps(3))
  obtain t r where mk: "makedirs False d s = (t, r)" by fastforce
  have m: "stays R s t" using stays_makedirs [OF assms(1,2), of s False] mk by simp
  show ?thesis
  proof (cases r)
    case (Inr u)
    have "stays R t (fst (case lplace t d of None \<Rightarrow> (t, Inl LinkLoop) | Some d \<Rightarrow> (tput d (Dir cs) t, Inr ())))"
    proof (rule stays_if)
      assume R: "dir_at t R" "linkless R t"
      obtain p c where pc: "d = p @ [c]" using assms(1) by (cases d rule: rev_cases) (auto simp: strict_prefix_def)
      have "tget t d = Some (Dir [])"
        using makedirs_fresh [of p c s t] mk Inr pc linkless_place(2) [OF R assms(1,2)] by auto
      then have "dir_at t (butlast d)" using pc dir_at_prefix [of t p "[c]"] by simp
      from stays_tput [OF assms(1) this nl] linkless_place(2) [OF R assms(1,2)]
      show "stays R t (fst (case lplace t d of None \<Rightarrow> (t, Inl LinkLoop) | Some d \<Rightarrow> (tput d (Dir cs) t, Inr ())))" by simp
    qed
    from staying.rel_trans [OF m this] show ?thesis using assms(3) mk dl Inr
      by (simp add: copytree_def bindio_def Let_def cong: option.case_cong)
  qed (use assms(3) mk dl m in \<open>simp add: copytree_def bindio_def Let_def\<close>)
qed

lemma stays_open_write:
  assumes "strict_prefix R d" "plain_path d"
  shows "stays R s (fst (open_write d u s))"
proof (rule stays_if)
  assume R: "dir_at s R" "linkless R s"
  have "d \<noteq> []" using assms(1) by (auto simp: strict_prefix_def)
  then have "d = butlast d @ [last d]" by simp
  then have "dir_at s (butlast d)" if "tget s d = Some n" for n
    using that dir_at_prefix [of s "butlast d" "[last d]" n] by simp
  with linkless_place(1) [OF R assms] show "stays R s (fst (open_write d u s))"
    using stays_tput [OF assms(1), of s "File u"] staying.rel_refl
    by (auto simp: open_write_def write_with_def split: option.splits node.splits)
qed

lemma stays_place_skill:
  assumes d: "strict_prefix R d" "plain_path d"
    and src: "tget s src = Some (Dir cs)" "plain_path src" "plain_tree (Dir cs)" "\<not> prefix R src" "\<not> prefix src R"
  shows "stays R s (fst (place_skill name target src d s))"
  unfolding place_skill_def
proof (rule stays_if)
  assume R: "dir_at s R" "linkless R s"
  have sf: "strict_prefix R (d @ [skill_file])" "plain_path (d @ [skill_file])"
    using d by (auto simp: strict_prefix_def plain_name_def)
  show "stays R s (fst (bindio (clear_dest d) (\<lambda>_. bindio (copytree src d) (\<lambda>_. fix_name name target d)) s))"
  proof (rule staying.rel_bind)
    show "stays R s (fst (clear_dest d s))" using stays_rmtree [OF d] staying.rel_refl by (simp add: clear_dest_def)
    fix t u
    assume "clear_dest d s = (t, Inr u)" "stays R s t"
    then have "tget t src = Some (Dir cs)" using R src by (simp add: stays_def frame_on_def)
    then have st: "stat t src = Some (Dir cs)" using plain_stat(1) src(2,3) by blast
    show "stays R t (fst (bindio (copytree src d) (\<lambda>_. fix_name name target d) t))"
    proof (rule staying.rel_bind, rule stays_copytree [OF d st src(3)])
      show "stays R t' (fst (fix_name name target d t'))" for t'
        using stays_open_write [OF sf] staying.rel_refl
        by (auto simp: fix_name_def bindio_def retio_def read_text_def split: sum.splits)
    qed
  qed
qed

section \<open>One skill\<close>

text \<open>The index of the repository names proper places below its root.\<close>

definition index_in :: "path \<Rightarrow> catalog \<Rightarrow> bool" where
  "index_in R ex \<longleftrightarrow> (\<forall>name h d i. map_of ex name = Some (h, d, i) \<longrightarrow> strict_prefix R d \<and> plain_path d)"

lemma index_in_update: "index_in R ex \<Longrightarrow> strict_prefix R d \<Longrightarrow> plain_path d \<Longrightarrow> index_in R (AList.update name (h, d, i) ex)"
  by (auto simp: index_in_def update_conv')

definition source_ok :: "path \<Rightarrow> node \<Rightarrow> path \<Rightarrow> bool" where
  "source_ok R s src \<longleftrightarrow> (\<exists>cs. tget s src = Some (Dir cs) \<and> plain_tree (Dir cs)) \<and> plain_path src \<and> \<not> prefix R src \<and> \<not> prefix src R"

lemma store_stays:
  assumes R: "plain_path R" and ix: "index_in R (c_existing st)" and src: "source_ok R s src"
    and old: "\<And>d. old = Some d \<Longrightarrow> strict_prefix R d \<and> plain_path d" "old = None \<Longrightarrow> bad_segment (category_of fm) = None"
  shows "stays R s (fst (store_skill R (name, src, fm) target old st s))
    \<and> (snd (store_skill R (name, src, fm) target old st s) = Inr st' \<longrightarrow> index_in R (c_existing st'))"
proof -
  define dest where "dest = (case old of Some d \<Rightarrow> d | None \<Rightarrow> R @ [category_of fm, target])"
  show ?thesis
  proof (cases "bad_segment target = None \<and> inside s R dest")
    case True
    have d: "strict_prefix R dest" "plain_path dest"
      using old R True bad_segment_plain by (auto simp: dest_def strict_prefix_def split: option.splits)
    define st2 where "st2 = st\<lparr>c_existing := AList.update target (dget fm (lit ''content_hash'') [], dest, identity fm) (c_existing st),
        c_committed := (if target \<in> set (c_updated st) then c_committed st else c_committed st @ [target])\<rparr>"
    have eq: "store_skill R (name, src, fm) target old st s = bindio (place_skill name target src dest) (\<lambda>_. retio st2) s"
      using True unfolding store_skill_def Let_def prod.case dest_def [symmetric] st2_def
      by (simp only: option.case not_True_eq_False if_False)
    have "stays R s (fst (place_skill name target src dest s))"
      using src stays_place_skill [OF d] by (auto simp: source_ok_def)
    then have "stays R s (fst (store_skill R (name, src, fm) target old st s))"
      unfolding eq by (intro staying.rel_bind) (simp_all add: retio_def staying.rel_refl)
    moreover have "index_in R (c_existing st2)" using index_in_update [OF ix d] by (simp add: st2_def)
    ultimately show ?thesis unfolding eq by (auto simp: bindio_def retio_def split: prod.splits sum.splits)
  next
    case False
    then have "\<exists>w. store_skill R (name, src, fm) target old st s = (s, Inr (refuse name w st))"
      by (auto simp: store_skill_def Let_def dest_def split: option.splits)
    then show ?thesis using ix by (auto simp: refuse_def staying.rel_refl)
  qed
qed

lemma collect_skill_stays:
  assumes "plain_path R" "index_in R (c_existing st)" "source_ok R s src"
  shows "stays R s (fst (collect_skill R (name, src, fm) st s))
    \<and> (snd (collect_skill R (name, src, fm) st s) = Inr st' \<longrightarrow> index_in R (c_existing st'))"
proof (cases "map_of fm (lit ''installer'') \<noteq> Some INSTALLER \<or> bad_segment name \<noteq> None \<or> bad_segment (category_of fm) \<noteq> None")
  case True
  then have "\<exists>st2. collect_skill R (name, src, fm) st s = (s, Inr st2) \<and> c_existing st2 = c_existing st"
    by (auto simp: collect_skill_def Let_def refuse_def split: option.splits)
  then show ?thesis using assms(2) by (auto simp: staying.rel_refl)
next
  case False
  note cat = store_stays [OF assms(1) _ assms(3)]
  show ?thesis
  proof (cases "map_of (c_existing st) name")
    case None
    then show ?thesis using False assms(2) cat [of st None fm name name st'] by (simp add: collect_skill_def Let_def)
  next
    case (Some r)
    obtain h d i where r: "r = (h, d, i)" by (cases r)
    then have d: "strict_prefix R d \<and> plain_path d" using assms(2) Some unfolding index_in_def by blast
    show ?thesis
      using False Some r d assms(2) staying.rel_refl
        cat [of "st\<lparr>c_updated := c_updated st @ [name]\<rparr>" "Some d" fm name name st']
        cat [of "st\<lparr>c_renamed := c_renamed st @ [(name, rename_target (map fst (c_existing st)) name (author_of fm))]\<rparr>" None fm name
          "rename_target (map fst (c_existing st)) name (author_of fm)" st']
      by (auto simp: collect_skill_def Let_def)
  qed
qed

section \<open>The run\<close>

definition collect_live :: "path \<Rightarrow> path \<Rightarrow> node \<Rightarrow> (node \<times> (oserror + cstate)) option" where
  "collect_live repo src fs =
     (let R = repo @ [lit ''skills'']
      in case makedirs True R fs of
           (fs1, Inl e) \<Rightarrow> Some (fs1, Inl e)
         | (fs1, Inr _) \<Rightarrow>
             (case index_catalog [] (skill_dirs fs1 R) of
                Inl e \<Rightarrow> Some (fs1, Inl e)
              | Inr ex \<Rightarrow>
                  walk_run (collect_skill R) src
                    \<lparr>c_existing = ex, c_committed = [], c_skipped = [], c_renamed = [], c_updated = [], c_rejected = []\<rparr> fs1))"

lemma collect_all_items: "collect_all R = run_items (collect_skill R)"
proof (intro ext)
  show "collect_all R its st fs = run_items (collect_skill R) its st fs" for its st fs
    by (induction R its st fs rule: collect_all.induct) (simp_all add: bindio_def split: prod.split sum.split)
qed

text \<open>
  Two trees that have nothing to do with each other: the repository's catalog, without links and without a skill at
  its very root, and the directory the skills are collected from.
\<close>

definition collectable :: "path \<Rightarrow> path \<Rightarrow> node \<Rightarrow> bool" where
  "collectable R src fs \<longleftrightarrow> plain_path R \<and> plain_path src \<and> \<not> prefix R src \<and> \<not> prefix src R
     \<and> (case tget fs R of Some (Dir cs) \<Rightarrow> plain_tree (Dir cs) \<and> skill_file \<notin> fst ` set cs | _ \<Rightarrow> False)
     \<and> (case tget fs src of Some (Dir cs) \<Rightarrow> plain_tree (Dir cs) | _ \<Rightarrow> False)"

definition collecting :: "path \<Rightarrow> path \<Rightarrow> node \<Rightarrow> cstate \<Rightarrow> node \<Rightarrow> bool" where
  "collecting R src fs st t \<longleftrightarrow> collectable R src fs \<and> stays R fs t \<and> index_in R (c_existing st)"

lemma collectable_root:
  assumes "collectable R src fs"
  shows "dir_at fs R" "linkless R fs"
proof -
  from assms obtain cs where cs: "tget fs R = Some (Dir cs)" "plain_tree (Dir cs)"
    by (auto simp: collectable_def split: option.splits node.splits)
  then show "dir_at fs R" by (simp add: dir_at_def)
  show "linkless R fs"
    using plain_tree_tget [OF cs(2)] cs(1) unfolding linkless_def
    by (metis option.simps(5) plain_tree.simps(3) tget_append)
qed

lemma collecting_kept:
  assumes "collecting R src fs st t"
  shows "tget t (src @ r) = tget fs (src @ r)"
proof -
  have c: "collectable R src fs" "frame R fs t"
    using assms collectable_root [of R src fs] by (auto simp: collecting_def stays_def)
  then have "tget t src = tget fs src" by (auto simp: collectable_def frame_on_def)
  then show ?thesis by (simp add: tget_append)
qed

interpretation collect_walk: live_walk "collect_skill R" "collecting R src fs" fs src for R src fs
proof unfold_locales
  fix st st' :: cstate and t t' item
  assume k: "collecting R src fs st t"
  then have c: "collectable R src fs" by (simp add: collecting_def)
  then obtain cs where cs: "plain_path src" "tget fs src = Some (Dir cs)" "plain_tree (Dir cs)"
    by (auto simp: collectable_def split: option.splits node.splits)
  then show "plain_path src \<and> (\<exists>cs. tget fs src = Some (Dir cs) \<and> plain_tree (Dir cs))" by blast
  show "tget t src = tget fs src" using collecting_kept [OF k, of "[]"] by simp
  assume i: "Inr item \<in> set (skill_dirs fs src)" and s: "collect_skill R item st t = (t', Inr st')"
  obtain name p fm where item: "item = (name, p, fm)" by (cases item)
  have "skill_dirs fs src = found fs src (Dir cs)"
    using plain_stat(1) [OF cs(2,1,3)] by (simp add: skill_dirs_def found_def)
  with found_src [OF cs(3,2,1), of name p fm] i item obtain ds where
    p: "tget fs p = Some (Dir ds)" "plain_tree (Dir ds)" "plain_path p" "prefix src p" by auto
  then have "tget t p = Some (Dir ds)" using collecting_kept [OF k] by (auto simp: prefix_def)
  then have "source_ok R t p"
    using p c by (auto simp: source_ok_def collectable_def dest: prefix_order.trans prefix_same_cases)
  from collect_skill_stays [OF _ _ this, of st name fm st'] c k s item show "collecting R src fs st' t'"
    by (auto simp: collecting_def collectable_def intro: staying.rel_trans)
qed

lemma index_catalog_in:
  "index_catalog ex its = Inr ex' \<Longrightarrow> index_in R ex \<Longrightarrow>
   (\<And>name p fm. Inr (name, p, fm) \<in> set its \<Longrightarrow> strict_prefix R p \<and> plain_path p) \<Longrightarrow> index_in R ex'"
proof (induction ex its rule: index_catalog.induct)
  case (3 ex name p fm its)
  from 3(4) [of name p fm] have "strict_prefix R p" "plain_path p" by simp_all
  then have "index_in R (AList.update name (dget fm (lit ''content_hash'') [], p, identity fm) ex)"
    using 3(3) index_in_update by blast
  from "3.IH" [OF _ this] 3(2) 3(4) show ?case by (metis index_catalog.simps(3) list.set_intros(2))
qed simp_all

lemma rootless_found:
  assumes "plain_tree (Dir cs)" "tget fs R = Some (Dir cs)" "plain_path R" "skill_file \<notin> fst ` set cs"
    and "Inr (name, p, fm) \<in> set (found fs R (Dir cs))"
  shows "strict_prefix R p \<and> plain_path p"
proof -
  from assms(4,5) obtain x c where x: "(x, c) \<in> set cs" "Inr (name, p, fm) \<in> set (found fs (R @ [x]) c)"
    by (auto simp: found_Dir found_in_def split: if_splits)
  have "plain_path (R @ [x])" using plain_tree_child [OF assms(1) x(1)] assms(3) by simp
  from found_src [OF _ child_at [OF assms(2,1) x(1)] this x(2)] plain_tree_child [OF assms(1) x(1)]
  have p: "prefix (R @ [x]) p" "plain_path p" by auto
  then show ?thesis by (auto simp: strict_prefix_def prefix_def)
qed

lemma collect_live_runs:
  assumes "collectable (repo @ [lit ''skills'']) src fs"
  shows "collect_live repo src fs = Some (collect repo src fs)"
proof -
  let ?R = "repo @ [lit ''skills'']"
  from assms obtain cs where R: "plain_path ?R" "tget fs ?R = Some (Dir cs)" "plain_tree (Dir cs)" "skill_file \<notin> fst ` set cs"
    by (auto simp: collectable_def split: option.splits node.splits)
  have st: "stat fs ?R = Some (Dir cs)" using plain_stat(1) R(1-3) by blast
  then have mk: "makedirs True ?R fs = (fs, Inr ())"
    using makedirs_present [of fs repo "lit ''skills''"] R(1) by (simp add: isdir_def)
  have items: "skill_dirs fs ?R = found fs ?R (Dir cs)" using st by (simp add: skill_dirs_def found_def)
  show ?thesis
  proof (cases "index_catalog [] (skill_dirs fs ?R)")
    case (Inr ex)
    have "index_in ?R []" by (simp add: index_in_def)
    from index_catalog_in [OF Inr this] rootless_found [OF R(3,2,1,4)] have "index_in ?R ex" unfolding items by blast
    then have "collecting ?R src fs \<lparr>c_existing = ex, c_committed = [], c_skipped = [], c_renamed = [], c_updated = [], c_rejected = []\<rparr> fs"
      using assms by (simp add: collecting_def staying.rel_refl)
    from collect_walk.walk_is_snapshot [OF this] Inr mk show ?thesis
      by (simp add: collect_live_def collect_def Let_def bindio_def collect_all_items)
  qed (simp add: collect_live_def collect_def Let_def bindio_def mk)
qed

text \<open>
  Without that last hypothesis: a skill at the root of \<^verbatim>\<open>skills/\<close> is indexed with the root as its directory, the
  containment check lets the root itself pass, and collecting an edited skill of its name and author removes the
  whole catalog before it copies.
\<close>

definition rooted_catalog :: node where
  "rooted_catalog =
     (case sample_skill (lit ''x'') (lit ''al'') (lit ''1'') of
        Dir old \<Rightarrow>
          Dir [(lit ''repo'', Dir [(lit ''skills'', Dir (old @ [(lit ''misc'', Dir [(lit ''y'', sample_skill (lit ''y'') (lit ''al'') (lit ''1''))])]))]),
               (lit ''src'', Dir [(lit ''x'', sample_skill (lit ''x'') (lit ''al'') (lit ''2''))])]
      | _ \<Rightarrow> Dir [])"

lemma root_skill_wipes_catalog:
  "tget rooted_catalog [lit ''repo'', lit ''skills'', lit ''misc''] \<noteq> None"
  "tget (fst (collect [lit ''repo''] [lit ''src''] rooted_catalog)) [lit ''repo'', lit ''skills'', lit ''misc''] = None"
  "isl (snd (collect [lit ''repo''] [lit ''src''] rooted_catalog)) = False"
  by code_simp+

lemma sample_collectable: "collectable ([lit ''repo''] @ [lit ''skills'']) [lit ''src''] sample_catalog"
  by code_simp

end
