(* ===== verification/Sync_Skills.thy ===== *)
theory Sync_Skills
  imports Collect_Properties
begin

text \<open>
  \<^verbatim>\<open>tools/sync_skills.py\<close>: flattens the catalog into a skills directory and archives the auto-skills the
  catalog no longer has. Its helpers are copies of those of \<^verbatim>\<open>collect_commit.py\<close>; they are translated on
  their own and proved equal.
\<close>

section \<open>The copied helpers\<close>

definition sync_SEGMENT_RE :: regex where
  "sync_SEGMENT_RE = name_regex seg_first seg_cp 0 63"

definition sync_bad_segment :: "pystr \<Rightarrow> seg_reason option" where
  "sync_bad_segment v =
     (if v = [] \<or> v \<in> {lit ''.'', lit ''..''} then Some EmptyOrDot
      else if is_abs v \<or> slash \<in> set v \<or> 92 \<in> set v \<or> 0 \<in> set v then Some HasSeparator
      else if re_match no_word sync_SEGMENT_RE v = None then Some BadShape
      else None)"

definition sync_inside :: "node \<Rightarrow> path \<Rightarrow> path \<Rightarrow> bool" where
  "sync_inside fs dest p \<longleftrightarrow>
     (let r = realpath fs dest; q = realpath fs p in q = r \<or> (r \<noteq> [] \<and> prefix r q))"

definition sync_unquote :: "pystr \<Rightarrow> pystr" where
  "sync_unquote v =
     (if 2 \<le> length v \<and> hd v = last v \<and> hd v \<in> {dquote, quote}
      then (let inner = butlast (tl v)
            in if hd v = quote then replace_all [quote, quote] [quote] inner else inner)
      else v)"

definition sync_fm_line :: "pydict \<Rightarrow> pystr \<Rightarrow> pydict" where
  "sync_fm_line fm line =
     (if py_strip line = [] \<or> py_lstrip line \<noteq> line then fm
      else if colon \<in> set line
      then AList.update (py_strip (before_cp colon line)) (sync_unquote (py_strip (after_cp colon line))) fm
      else fm)"

definition sync_fm :: "pystr \<Rightarrow> pydict" where
  "sync_fm text =
     (if \<not> prefix dashes text then []
      else (case split_max dashes 2 text of
              [_, raw, _] \<Rightarrow> foldl sync_fm_line [] (splitlines raw)
            | _ \<Rightarrow> []))"

fun sync_walk :: "node \<Rightarrow> path \<Rightarrow> node \<Rightarrow> path list" where
  "sync_walk fs p (Dir cs) =
     (if skill_file \<in> fst ` set cs \<and> \<not> isdir fs (p @ [skill_file]) then [p] else [])
     @ concat (map (\<lambda>(x, c). if prefix (lit ''.'') x then [] else sync_walk fs (p @ [x]) c) cs)"
| "sync_walk fs p (File t) = []"
| "sync_walk fs p (Link t) = []"

definition sync_item :: "node \<Rightarrow> path \<Rightarrow> (oserror + skill_item) list" where
  "sync_item fs p =
     (case snd (read_text (p @ [skill_file]) fs) of
        Inl e \<Rightarrow> [Inl e]
      | Inr t \<Rightarrow>
          (let fm = sync_fm t; name = dget fm (lit ''name'') []
           in if name = [] then [] else [Inr (name, p, fm)]))"

definition sync_skill_dirs :: "node \<Rightarrow> path \<Rightarrow> (oserror + skill_item) list" where
  "sync_skill_dirs fs p =
     (case stat fs p of
        Some (Dir cs) \<Rightarrow> concat (map (sync_item fs) (sync_walk fs p (Dir cs)))
      | _ \<Rightarrow> [])"

lemma sync_bad_segment_same: "sync_bad_segment = bad_segment"
  by (rule ext) (simp add: sync_bad_segment_def bad_segment_def sync_SEGMENT_RE_def SEGMENT_RE_def)

lemma sync_inside_same: "sync_inside = inside"
  by (intro ext) (simp add: sync_inside_def inside_def)

lemma sync_unquote_same: "sync_unquote = unquote"
  by (rule ext) (simp add: sync_unquote_def unquote_def)

lemma sync_fm_line_same: "sync_fm_line = fm_step"
  by (intro ext) (simp add: sync_fm_line_def fm_step_def sync_unquote_same)

lemma sync_fm_same: "sync_fm = fm_of"
  unfolding sync_fm_def fm_of_def sync_fm_line_same by (rule refl)

lemma sync_walk_same: "sync_walk fs p n = walk fs p n"
proof (induction fs p n rule: walk.induct)
  case (1 fs p cs)
  then have "map (\<lambda>(x, c). if prefix (lit ''.'') x then [] else sync_walk fs (p @ [x]) c) cs
      = map (\<lambda>(x, c). if prefix (lit ''.'') x then [] else walk fs (p @ [x]) c) cs"
    by (auto intro!: map_cong)
  then show ?case by (simp only: sync_walk.simps walk.simps)
qed simp_all

lemma sync_skill_dirs_same: "sync_skill_dirs = skill_dirs"
proof -
  have i: "sync_item = skill_item" by (intro ext) (simp only: sync_item_def skill_item_def sync_fm_same)
  have w: "sync_walk = walk" by (intro ext) (rule sync_walk_same)
  show ?thesis unfolding sync_skill_dirs_def skill_dirs_def i w by (rule refl)
qed

lemmas sync_copies = sync_bad_segment_same sync_inside_same sync_fm_same sync_skill_dirs_same

interpretation sync_segment: segment_check sync_bad_segment
  by unfold_locales (simp add: sync_copies bad_segment_plain)

section \<open>Copying the catalog in\<close>

datatype sync_refusal = Unsafe seg_reason | OutsideDest

record sync_state =
  s_names :: "pystr list"
  s_synced :: "pystr list"
  s_rejected :: "(pystr \<times> path \<times> sync_refusal) list"

text \<open>The destination of an unsafe name is never used, so it is built from checked names only.\<close>

definition sync_why :: "node \<Rightarrow> path \<Rightarrow> pystr \<Rightarrow> sync_refusal option" where
  "sync_why fs dest name =
     (case sync_bad_segment name of
        Some w \<Rightarrow> Some (Unsafe w)
      | None \<Rightarrow> if \<not> sync_inside fs dest (dest @ [name]) then Some OutsideDest else None)"

definition sync_one :: "path \<Rightarrow> skill_item \<Rightarrow> sync_state \<Rightarrow> sync_state io" where
  "sync_one dest item st fs =
     (let (name, src, _) = item; d = dest @ [name]
      in case sync_why fs dest name of
           Some why \<Rightarrow> (fs, Inr (st\<lparr>s_rejected := s_rejected st @ [(name, src, why)]\<rparr>))
         | None \<Rightarrow>
             bindio (\<lambda>fs. if path_exists fs d then rmtree d fs else (fs, Inr ()))
               (\<lambda>_. bindio (copytree src d)
                  (\<lambda>_. retio (st\<lparr>s_names := s_names st @ [name], s_synced := s_synced st @ [name]\<rparr>))) fs)"

fun sync_all :: "path \<Rightarrow> (oserror + skill_item) list \<Rightarrow> sync_state \<Rightarrow> sync_state io" where
  "sync_all dest [] st fs = (fs, Inr st)"
| "sync_all dest (Inl e # its) st fs = (fs, Inl e)"
| "sync_all dest (Inr item # its) st fs = bindio (sync_one dest item st) (sync_all dest its) fs"

section \<open>Archiving\<close>

definition trash_name :: pystr where "trash_name = lit ''.auto-skill-trash''"

definition stale :: "pystr list \<Rightarrow> pystr \<Rightarrow> pydict \<Rightarrow> bool" where
  "stale names entry fm \<longleftrightarrow>
     map_of fm (lit ''installer'') = Some INSTALLER
     \<and> dget fm (lit ''name'') entry \<notin> set names \<and> entry \<notin> set names"

definition archive_to_trash :: "path \<Rightarrow> pystr \<Rightarrow> unit io" where
  "archive_to_trash dest entry =
     (let trash = dest @ [trash_name]; tgt = trash @ [entry]
      in bindio (makedirs True trash)
           (\<lambda>_. bindio (\<lambda>fs. if path_exists fs tgt then rmtree tgt fs else (fs, Inr ()))
                  (\<lambda>_. move_to (dest @ [entry]) tgt)))"

definition archive_one :: "path \<Rightarrow> pystr list \<Rightarrow> pystr \<Rightarrow> pystr list \<Rightarrow> pystr list io" where
  "archive_one dest names entry archived fs =
     (let md = dest @ [entry, skill_file]
      in if prefix (lit ''.'') entry \<or> \<not> isfile fs md then (fs, Inr archived)
         else bindio (read_text md)
                (\<lambda>t. if stale names entry (sync_fm t)
                     then bindio (archive_to_trash dest entry) (\<lambda>_. retio (archived @ [entry]))
                     else retio archived) fs)"

fun archive_all :: "path \<Rightarrow> pystr list \<Rightarrow> pystr list \<Rightarrow> pystr list \<Rightarrow> pystr list io" where
  "archive_all dest names [] archived fs = (fs, Inr archived)"
| "archive_all dest names (e # es) archived fs =
     bindio (archive_one dest names e archived) (archive_all dest names es) fs"

definition archive_rest :: "path \<Rightarrow> sync_state \<Rightarrow> (sync_state \<times> pystr list) io" where
  "archive_rest dest st fs =
     (case listing fs dest of
        None \<Rightarrow> (fs, Inl NotADirectory)
      | Some es \<Rightarrow> bindio (archive_all dest (s_names st) es []) (\<lambda>ar. retio (st, ar)) fs)"

definition sync :: "path \<Rightarrow> path \<Rightarrow> (sync_state \<times> pystr list) io" where
  "sync repo dest =
     bindio (makedirs True dest)
       (\<lambda>_. bindio (\<lambda>fs. sync_all dest (sync_skill_dirs fs (repo @ [lit ''skills'']))
                           \<lparr>s_names = [], s_synced = [], s_rejected = []\<rparr> fs)
          (archive_rest dest))"

end
