(* ===== verification/Sync_Properties.thy ===== *)
theory Sync_Properties
  imports Sync_Skills
begin

text \<open>
  What \<^verbatim>\<open>sync_skills.py\<close> touches: only direct children of the destination, hand-written skills not at all;
  what it copies is the catalog's directory, and what it archives is kept in the trash.
\<close>

section \<open>Changes below a directory\<close>

definition no_trash_link :: "path \<Rightarrow> node \<Rightarrow> bool" where
  "no_trash_link R s \<longleftrightarrow> (\<forall>l. tget s (R @ [trash_name]) \<noteq> Some (Link l))"

text \<open>Only the children \<open>X\<close> of \<open>R\<close> change; \<open>R\<close> stays a directory and its trash no link.\<close>

definition only_in :: "pystr set \<Rightarrow> path \<Rightarrow> node \<Rightarrow> node \<Rightarrow> bool" where
  "only_in X R s t \<longleftrightarrow>
     (dir_at s R \<and> no_trash_link R s \<longrightarrow>
        dir_at t R \<and> no_trash_link R t
        \<and> (\<forall>q. \<not> prefix q R \<longrightarrow> (\<forall>x\<in>X. \<not> prefix (R @ [x]) q) \<longrightarrow> tget t q = tget s q))"

interpretation inside_dir: kept_relation "only_in X R" for X R
  by unfold_locales (auto simp: only_in_def)

definition spares :: "path \<Rightarrow> pystr \<Rightarrow> node \<Rightarrow> node \<Rightarrow> node \<Rightarrow> bool" where
  "spares R e n s t \<longleftrightarrow>
     (dir_at s R \<and> no_trash_link R s \<and> tget s (R @ [e]) = Some n \<longrightarrow>
        dir_at t R \<and> no_trash_link R t \<and> tget t (R @ [e]) = Some n)"

interpretation sparing: kept_relation "spares R e n" for R e n
  by unfold_locales (auto simp: spares_def)

lemma only_in_mono: "only_in X R s t \<Longrightarrow> X \<subseteq> Y \<Longrightarrow> only_in Y R s t"
  unfolding only_in_def by blast

lemma only_in_spares: "only_in X R s t \<Longrightarrow> e \<notin> X \<Longrightarrow> spares R e n s t"
  unfolding spares_def
proof (intro impI)
  assume w: "only_in X R s t" and e: "e \<notin> X" and s: "dir_at s R \<and> no_trash_link R s \<and> tget s (R @ [e]) = Some n"
  have "\<not> prefix (R @ [e]) R" by (auto dest: prefix_length_le)
  moreover have "\<not> prefix (R @ [x]) (R @ [e])" if "x \<in> X" for x using that e by auto
  ultimately show "dir_at t R \<and> no_trash_link R t \<and> tget t (R @ [e]) = Some n"
    using w s unfolding only_in_def by auto
qed

lemma only_in_if: "(dir_at s R \<Longrightarrow> no_trash_link R s \<Longrightarrow> only_in X R s t) \<Longrightarrow> only_in X R s t"
  unfolding only_in_def by blast

text \<open>A change at or below a child keeps the directory.\<close>

lemma only_in_change:
  assumes "frame (R @ [x]) s t" "dir_at s R \<Longrightarrow> dir_at t R" "no_trash_link R s \<Longrightarrow> no_trash_link R t"
  shows "only_in {x} R s t"
  unfolding only_in_def
proof (intro impI conjI allI)
  fix q
  assume s: "dir_at s R \<and> no_trash_link R s"
  then show "dir_at t R" "no_trash_link R t" using assms(2,3) by auto
  assume q: "\<not> prefix q R" "\<forall>x\<in>{x}. \<not> prefix (R @ [x]) q"
  then have "\<not> prefix q (R @ [x])"
  proof (cases "q = R @ [x]")
    case False
    then show ?thesis using q(1) by (auto simp: prefix_snoc)
  qed auto
  then show "tget t q = tget s q" using assms(1) q(2) by (simp add: frame_on_def)
qed

lemma strict_child: "strict_prefix R (R @ x # p)"
  by (simp add: strict_prefix_def)

lemma trash_other:
  assumes "frame (R @ [x]) s t" "x \<noteq> trash_name"
  shows "no_trash_link R t = no_trash_link R s"
proof -
  have "tget t (R @ [trash_name]) = tget s (R @ [trash_name])"
    using assms by (simp add: frame_on_def)
  then show ?thesis by (simp add: no_trash_link_def)
qed

lemma only_in_tput:
  assumes "x \<noteq> trash_name \<or> (dir_at s R \<longrightarrow> (\<forall>l. tget (tput (R @ x # p) m s) (R @ [x]) \<noteq> Some (Link l)))"
  shows "only_in {x} R s (tput (R @ x # p) m s)"
proof (rule only_in_if)
  assume d: "dir_at s R" and nt: "no_trash_link R s"
  have f: "frame (R @ [x]) s (tput (R @ x # p) m s)" by (rule tree.frame_store) simp
  show ?thesis
  proof (rule only_in_change [OF f])
    show "dir_at (tput (R @ x # p) m s) R" by (rule dir_at_tput_above [OF strict_child d])
    show "no_trash_link R (tput (R @ x # p) m s)"
      using assms d nt trash_other [OF f] by (cases "x = trash_name") (auto simp: no_trash_link_def)
  qed
qed

lemma only_in_tdel: "only_in {x} R s (tdel (R @ x # p) s)"
proof (rule only_in_if)
  assume d: "dir_at s R" and nt: "no_trash_link R s"
  have f: "frame (R @ [x]) s (tdel (R @ x # p) s)" by (rule tree.frame_remove) simp
  have "no_new_links s (tdel (R @ x # p) s)" by (rule tdel_links) simp
  with nt have "no_trash_link R (tdel (R @ x # p) s)" unfolding no_trash_link_def no_new_links_def by blast
  then show ?thesis using only_in_change [OF f] dir_at_tdel_above [OF strict_child d] by blast
qed

section \<open>The operations\<close>

lemma only_in_rmtree:
  assumes "plain_path R" "dir_at s R"
  shows "only_in {x} R s (fst (rmtree (R @ [x]) s))"
  using only_in_tdel [of x R s "[]"]
  by (auto simp: rmtree_def lplace_child [OF assms(2,1)] inside_dir.rel_refl split: option.splits node.splits)

lemma makedirs_in_dir:
  assumes "plain_path R" "dir_at s R"
  shows "makedirs ok (R @ [x]) s = mkdir_ok ok (R @ [x]) s"
proof -
  have "path_exists s R"
    using assms by (auto simp: path_exists_def stat_def realpath_dir dir_at_def split: option.splits)
  then show ?thesis by (simp add: makedirs_def bindio_def)
qed

lemma mkdir_ok_fst:
  assumes "plain_path R" "dir_at s R"
  shows "fst (mkdir_ok ok (R @ [x]) s) \<in> {s, tput (R @ [x]) (Dir []) s}"
  by (auto simp: mkdir_ok_def mkdir_def create_at_def lplace_child [OF assms(2,1)] split: prod.splits sum.splits if_splits)

lemma only_in_makedirs:
  assumes "plain_path R" "dir_at s R"
  shows "only_in {x} R s (fst (makedirs ok (R @ [x]) s))"
proof -
  have "only_in {x} R s (tput (R @ [x]) (Dir []) s)"
  proof (rule only_in_if, rule only_in_tput, rule disjI2, intro impI allI)
    fix l
    assume "dir_at s R"
    then have "tget (tput (R @ [x]) (Dir []) s) (R @ [x]) = Some (Dir [])" by (intro tget_tput_self) simp
    then show "tget (tput (R @ x # []) (Dir []) s) (R @ [x]) \<noteq> Some (Link l)" by simp
  qed
  then show ?thesis
    using mkdir_ok_fst [OF assms, of ok x] by (auto simp: makedirs_in_dir [OF assms] inside_dir.rel_refl)
qed

lemma only_in_copytree:
  assumes "plain_path R" "dir_at s R" "x \<noteq> trash_name"
  shows "only_in {x} R s (fst (copytree src (R @ [x]) s))"
proof (cases "stat s src")
  case (Some n)
  show ?thesis
  proof (cases n)
    case (Dir cs0)
    let ?r = "deref_list link_limit s (realpath s src) cs0"
    obtain t r where mk: "makedirs False (R @ [x]) s = (t, r)" by (cases "makedirs False (R @ [x]) s")
    have w: "only_in {x} R s t" using only_in_makedirs [OF assms(1,2), of x False] mk by simp
    have "only_in {x} R t (fst (case lplace t (R @ [x]) of None \<Rightarrow> (t, Inl LinkLoop)
        | Some d \<Rightarrow> (tput d (Dir (fst ?r)) t, if snd ?r then Inr () else Inl CopyError)))"
    proof (rule only_in_if)
      assume "dir_at t R"
      then show ?thesis using only_in_tput [of x t R "[]" "Dir (fst ?r)"] assms(1,3) by (simp add: lplace_child)
    qed
    from inside_dir.rel_trans [OF w this] w show ?thesis using Some Dir mk
      by (cases r) (simp_all add: copytree_def bindio_def Let_def)
  qed (use Some in \<open>simp_all add: copytree_def inside_dir.rel_refl\<close>)
qed (simp add: copytree_def inside_dir.rel_refl)

lemma not_trash: "sync_bad_segment x = None \<Longrightarrow> x \<noteq> trash_name"
  unfolding sync_copies by (auto simp: bad_segment_None trash_name_def lit_simps seg_first_def is_lodi_def
      is_lower_def is_digit_def is_upper_def Cons_eq_append_conv)

lemma only_in_rel_if:
  "(dir_at s R \<Longrightarrow> no_trash_link R s \<Longrightarrow> only_in X R s (fst (m s))) \<Longrightarrow> only_in X R s (fst (m s))"
  by (rule only_in_if)

lemma sync_one_only_in: "plain_path R \<Longrightarrow> only_in {fst item} R s (fst (sync_one R item st s))"
proof (rule only_in_if)
  assume R: "plain_path R" and d: "dir_at s R"
  obtain name src fm where item: "item = (name, src, fm)" by (cases item)
  show "only_in {fst item} R s (fst (sync_one R item st s))"
  proof (cases "sync_why s R name")
    case None
    then have nt: "name \<noteq> trash_name" by (auto simp: sync_why_def not_trash split: option.splits)
    let ?clear = "\<lambda>fs. if path_exists fs (R @ [name]) then rmtree (R @ [name]) fs else (fs, Inr ())"
    have "only_in {name} R s (fst (bindio ?clear (\<lambda>_. bindio (copytree src (R @ [name]))
        (\<lambda>_. retio (st\<lparr>s_names := s_names st @ [name], s_synced := s_synced st @ [name]\<rparr>))) s))"
    proof (rule inside_dir.rel_bind)
      show "only_in {name} R s (fst (?clear s))" using only_in_rmtree [OF R d] inside_dir.rel_refl by simp
      show "only_in {name} R t (fst (bindio (copytree src (R @ [name]))
          (\<lambda>_. retio (st\<lparr>s_names := s_names st @ [name], s_synced := s_synced st @ [name]\<rparr>)) t))" for t
      proof (rule only_in_if, rule inside_dir.rel_bind)
        assume "dir_at t R"
        then show "only_in {name} R t (fst (copytree src (R @ [name]) t))" using only_in_copytree [OF R _ nt] by blast
      qed (simp add: retio_def inside_dir.rel_refl)
    qed
    then show ?thesis using None by (simp add: sync_one_def item Let_def)
  qed (simp add: sync_one_def item Let_def inside_dir.rel_refl)
qed

lemma sync_all_only_in:
  "plain_path R \<Longrightarrow> (\<And>item. Inr item \<in> set its \<Longrightarrow> fst item \<in> X) \<Longrightarrow> only_in X R s (fst (sync_all R its st s))"
proof (induction R its st s rule: sync_all.induct)
  case (3 R item its st s)
  have "only_in X R s (fst (sync_one R item st s))"
    by (rule only_in_mono [OF sync_one_only_in [OF 3(2)]]) (use 3(3) [of item] in simp)
  moreover have "only_in X R t (fst (sync_all R its st' t))" if "sync_one R item st s = (t, Inr st')" for t st'
    using 3(1) [OF 3(2)] 3(3) by simp
  ultimately show ?case unfolding sync_all.simps by (intro inside_dir.rel_bind)
qed (simp_all add: inside_dir.rel_refl)

lemma trash_dir:
  assumes "plain_path R" "dir_at s R" "no_trash_link R t" "makedirs True (R @ [trash_name]) s = (t, Inr ())" "dir_at t R"
  shows "dir_at t (R @ [trash_name])"
proof -
  have pl: "plain_name trash_name" by (simp add: plain_name_def trash_name_def)
  have "isdir t (R @ [trash_name])" using makedirs_isdir assms(4) pl by blast
  moreover have "resolve t link_limit [] (R @ [trash_name]) = Some (R @ [trash_name])"
    using assms(1,3,5) pl by (intro resolve_child) (auto simp: no_trash_link_def)
  ultimately show ?thesis by (auto simp: isdir_def stat_def dir_at_def)
qed

lemma only_in_rmtree_below:
  assumes "plain_path R" "plain_name x" "dir_at s (R @ [x])"
  shows "only_in {x} R s (fst (rmtree ((R @ [x]) @ [e]) s))"
proof -
  have "lplace s ((R @ [x]) @ [e]) = Some ((R @ [x]) @ [e])" using assms by (intro lplace_child) simp_all
  then show ?thesis using only_in_tdel [of x R s "[e]"]
    by (auto simp: rmtree_def inside_dir.rel_refl split: option.splits node.splits)
qed

lemma plain_trash [simp]: "plain_name trash_name"
  by (simp add: plain_name_def trash_name_def)

lemma only_in_move:
  assumes "plain_path R" "dir_at s R" "dir_at s (R @ [trash_name])" "e \<noteq> trash_name"
  shows "only_in {e, trash_name} R s (fst (move_to (R @ [e]) ((R @ [trash_name]) @ [e]) s))"
proof -
  let ?d = "(R @ [trash_name]) @ [e]"
  have l: "lplace s (R @ [e]) = Some (R @ [e])" "lplace s ?d = Some ?d"
    using assms by (simp_all add: lplace_child del: append_assoc)
  have "only_in {e, trash_name} R s (tput ?d n (tdel (R @ [e]) s))" for n
  proof (rule inside_dir.rel_trans)
    show "only_in {e, trash_name} R s (tdel (R @ [e]) s)"
      by (rule only_in_mono [OF only_in_tdel [of e R s "[]", simplified]]) simp
    have "tget (tdel (R @ [e]) s) (R @ [trash_name]) = tget s (R @ [trash_name])"
      using assms(4) by (intro tget_tdel_other) auto
    then have t: "dir_at (tdel (R @ [e]) s) (R @ [trash_name])" using assms(3) by (simp add: dir_at_def)
    have "strict_prefix (R @ [trash_name]) ?d" by (simp add: strict_prefix_def)
    from dir_at_tput_above [OF this t, of n] have "dir_at (tput ?d n (tdel (R @ [e]) s)) (R @ [trash_name])" .
    then have "only_in {trash_name} R (tdel (R @ [e]) s) (tput (R @ trash_name # [e]) n (tdel (R @ [e]) s))"
      by (intro only_in_tput) (auto simp: dir_at_def)
    then show "only_in {e, trash_name} R (tdel (R @ [e]) s) (tput ?d n (tdel (R @ [e]) s))"
      by (auto intro: only_in_mono)
  qed
  then show ?thesis using l by (auto simp: move_to_def inside_dir.rel_refl split: option.splits)
qed

lemma archive_to_trash_only_in:
  assumes R: "plain_path R" and e: "e \<noteq> trash_name"
  shows "only_in {e, trash_name} R s (fst (archive_to_trash R e s))"
proof (rule only_in_if)
  assume d: "dir_at s R" and nt: "no_trash_link R s"
  let ?T = "R @ [trash_name]"
  let ?clear = "\<lambda>fs. if path_exists fs (?T @ [e]) then rmtree (?T @ [e]) fs else (fs, Inr ())"
  have eq: "archive_to_trash R e = bindio (makedirs True ?T) (\<lambda>_. bindio ?clear (\<lambda>_. move_to (R @ [e]) (?T @ [e])))"
    by (simp add: archive_to_trash_def Let_def)
  show "only_in {e, trash_name} R s (fst (archive_to_trash R e s))"
    unfolding eq
  proof (rule inside_dir.rel_bind)
    show mk: "only_in {e, trash_name} R s (fst (makedirs True ?T s))"
      by (rule only_in_mono [OF only_in_makedirs [OF R d, of trash_name True]]) simp
    fix t u
    assume m: "makedirs True ?T s = (t, Inr u)" and st: "only_in {e, trash_name} R s t"
    have t: "dir_at t R" "no_trash_link R t" using st d nt unfolding only_in_def by auto
    have T: "dir_at t ?T" using trash_dir [OF R d t(2) _ t(1)] m by simp
    show "only_in {e, trash_name} R t (fst (bindio ?clear (\<lambda>_. move_to (R @ [e]) (?T @ [e])) t))"
    proof (rule inside_dir.rel_bind)
      show cl: "only_in {e, trash_name} R t (fst (?clear t))"
        using only_in_mono [OF only_in_rmtree_below [OF R plain_trash T, of e]] inside_dir.rel_refl by simp
      fix u' w
      assume c: "?clear t = (u', Inr w)" and tu: "only_in {e, trash_name} R t u'"
      have "dir_at u' R" using tu t unfolding only_in_def by auto
      moreover have "dir_at u' ?T"
      proof -
        have l: "lplace t (?T @ [e]) = Some (?T @ [e])" using R T by (intro lplace_child) simp_all
        have "strict_prefix ?T (?T @ [e])" by (simp add: strict_prefix_def)
        then show ?thesis using c T l dir_at_tdel_above [of ?T "?T @ [e]" t]
          by (auto simp: rmtree_def split: if_splits option.splits node.splits)
      qed
      ultimately show "only_in {e, trash_name} R u' (fst (move_to (R @ [e]) (?T @ [e]) u'))"
        using only_in_move [OF R _ _ e] by blast
    qed
  qed
qed

lemma archive_one_only_in:
  assumes "plain_path R"
  shows "only_in {e, trash_name} R s (fst (archive_one R names e ar s))"
proof (cases "prefix (lit ''.'') e \<or> \<not> isfile s (R @ [e, skill_file])")
  case True
  then show ?thesis by (simp add: archive_one_def inside_dir.rel_refl)
next
  case False
  then have e: "e \<noteq> trash_name" by (auto simp: trash_name_def lit_simps)
  have "only_in {e, trash_name} R t (fst (bindio (archive_to_trash R e) (\<lambda>_. retio (ar @ [e])) t))" for t
    by (rule inside_dir.rel_bind [OF archive_to_trash_only_in [OF assms e]]) (simp add: retio_def inside_dir.rel_refl)
  then have "only_in {e, trash_name} R s (fst (bindio (read_text (R @ [e, skill_file]))
        (\<lambda>t. if stale names e (sync_fm t) then bindio (archive_to_trash R e) (\<lambda>_. retio (ar @ [e])) else retio ar) s))"
    by (intro inside_dir.rel_bind) (auto simp: retio_def inside_dir.rel_refl)
  with False show ?thesis by (simp add: archive_one_def Let_def)
qed

lemma archive_all_only_in: "plain_path R \<Longrightarrow> only_in UNIV R s (fst (archive_all R names es ar s))"
proof (induction es arbitrary: s ar)
  case (Cons e es)
  show ?case unfolding archive_all.simps
    by (rule inside_dir.rel_bind) (auto intro: only_in_mono [OF archive_one_only_in [OF Cons.prems]] Cons.IH Cons.prems)
qed (simp add: inside_dir.rel_refl)

section \<open>Hand-written skills\<close>

definition auto_skill_node :: "node \<Rightarrow> bool" where
  "auto_skill_node n \<longleftrightarrow>
     (case tget n [skill_file] of
        Some (File t) \<Rightarrow> map_of (fm_of (univ_nl t)) (lit ''installer'') = Some INSTALLER
      | _ \<Rightarrow> False)"

lemma archive_one_spares:
  assumes R: "plain_path R" and e: "plain_name e" and n: "has_no_links n" "\<not> auto_skill_node n" "is_dir n"
    and et: "e \<noteq> trash_name"
  shows "spares R e n s (fst (archive_one R names x ar s))"
proof (cases "x = e")
  case False
  then show ?thesis using et only_in_spares [OF archive_one_only_in [OF R]] by auto
next
  case True
  have "fst (archive_one R names e ar s) = s" if "dir_at s R" "tget s (R @ [e]) = Some n"
  proof (cases "isfile s (R @ [e, skill_file])")
    case True
    have "plain_path (R @ [e])" "dir_at s (R @ [e])" using R e n(3) that by (simp_all add: dir_at_def)
    moreover have g: "tget s ((R @ [e]) @ [skill_file]) = tget n [skill_file]" by (subst tget_append) (simp add: that)
    moreover have "plain_name skill_file" by (simp add: plain_name_def)
    ultimately have "resolve s link_limit [] ((R @ [e]) @ [skill_file]) = Some ((R @ [e]) @ [skill_file])"
      using n(1) by (intro resolve_child) (simp_all add: has_no_links_def)
    then have st: "stat s (R @ [e, skill_file]) = tget n [skill_file]" using g by (simp add: stat_def)
    with True obtain t where t: "tget n [skill_file] = Some (File t)"
      by (auto simp: isfile_def split: option.splits elim: is_file.elims)
    with n(2) have "\<not> stale names e (sync_fm (univ_nl t))" by (simp add: auto_skill_node_def stale_def sync_copies)
    then show ?thesis using st t by (simp add: archive_one_def Let_def bindio_def read_text_def retio_def)
  qed (simp add: archive_one_def)
  with True show ?thesis by (auto simp: spares_def)
qed

lemma archive_all_spares:
  assumes "plain_path R" "plain_name e" "has_no_links n" "\<not> auto_skill_node n" "is_dir n" "e \<noteq> trash_name"
  shows "spares R e n s (fst (archive_all R names es ar s))"
proof (induction es arbitrary: s ar)
  case (Cons x es)
  show ?case unfolding archive_all.simps
    by (rule sparing.rel_bind) (auto intro: archive_one_spares [OF assms] Cons.IH)
qed (simp add: sparing.rel_refl)

section \<open>The whole run\<close>

lemma sync_run:
  assumes "plain_path dest" "dest \<noteq> []" "dir_at fs dest"
  shows "sync repo dest fs =
     bindio (sync_all dest (sync_skill_dirs fs (repo @ [lit ''skills''])) \<lparr>s_names = [], s_synced = [], s_rejected = []\<rparr>)
       (archive_rest dest) fs"
proof -
  obtain d c where dc: "dest = d @ [c]" using assms(2) by (cases dest rule: rev_cases) auto
  have "isdir fs dest" using assms by (auto simp: isdir_def stat_def realpath_dir dir_at_def)
  then have "makedirs True dest fs = (fs, Inr ())" using makedirs_present assms(1) by (simp add: dc)
  then show ?thesis by (simp add: sync_def bindio_def)
qed

lemma sync_kept:
  assumes "kept_relation rel" "plain_path dest" "dest \<noteq> []" "dir_at fs dest"
    and "\<And>st. rel fs (fst (sync_all dest (sync_skill_dirs fs (repo @ [lit ''skills''])) st fs))"
    and "\<And>names es s. rel s (fst (archive_all dest names es [] s))"
  shows "rel fs (fst (sync repo dest fs))"
  unfolding sync_run [OF assms(2-4)]
proof (rule kept_relation.rel_bind [OF assms(1)])
  fix t st
  show "rel t (fst (archive_rest dest st t))"
    using kept_relation.rel_refl [OF assms(1)] assms(6)
    by (cases "listing t dest") (auto simp: archive_rest_def retio_def intro!: kept_relation.rel_bind [OF assms(1)])
qed (rule assms(5))

section \<open>One skill copied, one archived\<close>

lemma copytree_link_free:
  assumes "plain_path R" "dir_at s R" "plain_name x" "tget s (R @ [x]) = None"
    and "tget s src = Some (Dir cs)" "plain_path src" "\<not> links_in (Dir cs)"
  shows "\<exists>t. copytree src (R @ [x]) s = (t, Inr ()) \<and> tget t (R @ [x]) = Some (Dir cs)"
proof -
  let ?t = "tput (R @ [x]) (Dir []) s"
  have st: "stat s src = Some (Dir cs)" using assms(5,6) by (simp add: stat_def realpath_dir dir_at_def)
  have mk: "makedirs False (R @ [x]) s = (?t, Inr ())" by (rule makedirs_child [OF assms(2,1,3,4)])
  have R: "dir_at ?t R" using assms(2) by (intro dir_at_tput_above) (simp add: strict_prefix_def)
  have "copytree src (R @ [x]) s = (tput (R @ [x]) (Dir cs) ?t, Inr ())"
    using deref_id(2) [of cs] assms(7) by (simp add: copytree_def st mk bindio_def lplace_child [OF R assms(1)])
  moreover have "tget (tput (R @ [x]) (Dir cs) ?t) (R @ [x]) = Some (Dir cs)"
    using R by (intro tget_tput_self) simp
  ultimately show ?thesis by blast
qed

lemma clear_child:
  assumes "plain_path R" "dir_at s R" "plain_name x" "tget s (R @ [x]) = None \<or> (\<exists>ds. tget s (R @ [x]) = Some (Dir ds))"
  shows "\<exists>t. (if path_exists s (R @ [x]) then rmtree (R @ [x]) s else (s, Inr ())) = (t, Inr ())
     \<and> tget t (R @ [x]) = None \<and> dir_at t R \<and> frame (R @ [x]) s t"
proof -
  have "resolve s link_limit [] (R @ [x]) = Some (R @ [x])"
    using assms by (intro resolve_child) auto
  then have "path_exists s (R @ [x]) \<longleftrightarrow> tget s (R @ [x]) \<noteq> None" by (simp add: path_exists_def stat_def)
  moreover have "lplace s (R @ [x]) = Some (R @ [x])" using assms by (intro lplace_child)
  moreover have "dir_at (tdel (R @ [x]) s) R" using assms(2) by (intro dir_at_tdel_above) (simp add: strict_prefix_def)
  moreover have "tget (tdel (R @ [x]) s) (R @ [x]) = None" by (rule tget_tdel_self) simp
  moreover have "frame (R @ [x]) s (tdel (R @ [x]) s)" by (rule tree.frame_remove) simp
  ultimately show ?thesis using assms(2,4) by (auto simp: rmtree_def)
qed

lemma sync_one_copies:
  assumes "plain_path dest" "dir_at fs dest" "sync_why fs dest name = None"
    and "tget fs (dest @ [name]) = None \<or> (\<exists>ds. tget fs (dest @ [name]) = Some (Dir ds))"
    and "tget fs src = Some (Dir cs)" "plain_path src" "\<not> links_in (Dir cs)"
    and "\<not> prefix (dest @ [name]) src" "\<not> prefix src (dest @ [name])"
  shows "\<exists>fs'. sync_one dest (name, src, fm) st fs =
       (fs', Inr (st\<lparr>s_names := s_names st @ [name], s_synced := s_synced st @ [name]\<rparr>))
     \<and> tget fs' (dest @ [name]) = Some (Dir cs)"
proof -
  have pn: "plain_name name"
    using assms(3) sync_segment.passed by (auto simp: sync_why_def split: option.splits)
  obtain t where t: "(if path_exists fs (dest @ [name]) then rmtree (dest @ [name]) fs else (fs, Inr ())) = (t, Inr ())"
      "tget t (dest @ [name]) = None" "dir_at t dest" "frame (dest @ [name]) fs t"
    using clear_child [OF assms(1,2) pn assms(4)] by blast
  have "tget t src = Some (Dir cs)" using t(4) assms(5,8,9) by (simp add: frame_on_def)
  from copytree_link_free [OF assms(1) t(3) pn t(2) this assms(6,7)] obtain u where
    "copytree src (dest @ [name]) t = (u, Inr ())" "tget u (dest @ [name]) = Some (Dir cs)" by blast
  with t(1) assms(3) show ?thesis by (simp add: sync_one_def Let_def bindio_def retio_def)
qed

definition trash_clear :: "node \<Rightarrow> path \<Rightarrow> pystr \<Rightarrow> bool" where
  "trash_clear fs dest e \<longleftrightarrow>
     tget fs (dest @ [trash_name]) = None
     \<or> (dir_at fs (dest @ [trash_name])
        \<and> (case tget fs (dest @ [trash_name, e]) of None \<Rightarrow> True | Some n \<Rightarrow> is_dir n))"

definition moved_to_trash :: "path \<Rightarrow> pystr \<Rightarrow> node \<Rightarrow> node \<Rightarrow> bool" where
  "moved_to_trash dest e fs fs' \<longleftrightarrow>
     tget fs' (dest @ [trash_name, e]) = tget fs (dest @ [e]) \<and> tget fs' (dest @ [e]) = None
     \<and> (\<forall>q. \<not> prefix (dest @ [e]) q \<longrightarrow> \<not> prefix (dest @ [trash_name, e]) q \<longrightarrow> \<not> prefix q (dest @ [trash_name])
          \<longrightarrow> tget fs' q = tget fs q)"

lemma archive_in_trash:
  assumes "plain_path dest" "dir_at fs dest" "plain_name e" "e \<noteq> trash_name"
    and "tget fs (dest @ [e]) = Some (Dir cs)"
    and "dir_at fs (dest @ [trash_name])"
    and "tget fs (dest @ [trash_name, e]) = None \<or> (\<exists>ds. tget fs (dest @ [trash_name, e]) = Some (Dir ds))"
  shows "\<exists>fs'. archive_to_trash dest e fs = (fs', Inr ()) \<and> moved_to_trash dest e fs fs'"
proof -
  let ?T = "dest @ [trash_name]"
  have pT: "plain_path ?T" using assms(1) by simp
  have "isdir fs ?T" using assms(6) pT by (auto simp: isdir_def stat_def realpath_dir dir_at_def)
  then have mk: "makedirs True ?T fs = (fs, Inr ())" by (intro makedirs_present) simp_all
  have "tget fs (?T @ [e]) = None \<or> (\<exists>ds. tget fs (?T @ [e]) = Some (Dir ds))" using assms(7) by simp
  from clear_child [OF pT assms(6,3) this] obtain t where
    t: "(if path_exists fs (?T @ [e]) then rmtree (?T @ [e]) fs else (fs, Inr ())) = (t, Inr ())"
      "tget t (?T @ [e]) = None" "dir_at t ?T" "frame (?T @ [e]) fs t" by blast
  have inc: "\<not> prefix (?T @ [e]) (dest @ [e])" "\<not> prefix (dest @ [e]) (?T @ [e])" using assms(4) by auto
  then have te: "tget t (dest @ [e]) = Some (Dir cs)" using t(4) assms(5) by (simp add: frame_on_def)
  have td: "dir_at t dest" using t(3) dir_at_append by blast
  let ?u = "tput (?T @ [e]) (Dir cs) (tdel (dest @ [e]) t)"
  have l: "lplace t (dest @ [e]) = Some (dest @ [e])" "lplace t (?T @ [e]) = Some (?T @ [e])"
    using td t(3) assms(1) pT by (simp_all add: lplace_child del: append_assoc)
  have "resolve t link_limit [] (?T @ [e]) = Some (?T @ [e])" using t(2,3) pT assms(3) by (intro resolve_child) simp_all
  then have nd: "\<not> isdir t (?T @ [e])" using t(2) by (simp add: isdir_def stat_def)
  have "tget (tdel (dest @ [e]) t) ?T = tget t ?T" using assms(4) by (intro tget_tdel_other) auto
  then have T2: "dir_at (tdel (dest @ [e]) t) ?T" using t(3) by (simp add: dir_at_def)
  have mv: "move_to (dest @ [e]) (?T @ [e]) t = (?u, Inr ())"
    unfolding move_to_def l option.case te using nd t(2,3) inc(2) by (simp add: butlast_append)
  have "tget ?u (?T @ [e]) = Some (Dir cs)" using T2 by (intro tget_tput_self) (simp add: butlast_append)
  moreover have "tget ?u (dest @ [e]) = None"
    using inc tget_tdel_self [of "dest @ [e]" t] by (simp add: tget_tput_other)
  moreover have "tget ?u q = tget fs q"
    if "\<not> prefix (dest @ [e]) q" "\<not> prefix (?T @ [e]) q" "\<not> prefix q ?T" for q
  proof -
    have "\<not> prefix q (?T @ [e])" "\<not> prefix q (dest @ [e])"
      using that prefix_order.trans [of q dest ?T] by (auto simp: prefix_snoc simp flip: append_assoc)
    with that t(4) show ?thesis by (simp add: tget_tput_other tget_tdel_other frame_on_def)
  qed
  ultimately show ?thesis using mk t(1) mv assms(5)
    by (auto simp: archive_to_trash_def moved_to_trash_def Let_def bindio_def)
qed

text \<open>Also the first time, when the trash is still to be made.\<close>

lemma archive_to_trash_moves:
  assumes "plain_path dest" "dir_at fs dest" "plain_name e" "e \<noteq> trash_name"
    and "tget fs (dest @ [e]) = Some (Dir cs)" "trash_clear fs dest e"
  shows "\<exists>fs'. archive_to_trash dest e fs = (fs', Inr ()) \<and> moved_to_trash dest e fs fs'"
proof (cases "tget fs (dest @ [trash_name]) = None")
  case False
  with assms(6) have "dir_at fs (dest @ [trash_name])"
    "tget fs (dest @ [trash_name, e]) = None \<or> (\<exists>ds. tget fs (dest @ [trash_name, e]) = Some (Dir ds))"
    by (auto simp: trash_clear_def split: option.splits elim: is_dir.elims)
  then show ?thesis by (rule archive_in_trash [OF assms(1-5)])
next
  case True
  let ?T = "dest @ [trash_name]" and ?fs = "tput (dest @ [trash_name]) (Dir []) fs"
  have pn: "plain_name trash_name" by (simp add: plain_name_def trash_name_def lit_simps)
  have mk: "makedirs True ?T fs = (?fs, Inr ())" by (rule makedirs_child [OF assms(2,1) pn True])
  have T: "tget ?fs ?T = Some (Dir [])" using assms(2) by (intro tget_tput_self) simp
  then have dT: "dir_at ?fs ?T" by (simp add: dir_at_def)
  have "isdir ?fs ?T" using dT T assms(1) pn by (auto simp: isdir_def stat_def realpath_dir dir_at_def)
  then have mk': "makedirs True ?T ?fs = (?fs, Inr ())" by (intro makedirs_present) (simp_all add: pn)
  have same: "tget ?fs q = tget fs q" if "\<not> prefix q ?T" for q
  proof (cases "prefix ?T q")
    case True
    then obtain p where p: "q = ?T @ p" by (auto simp: prefix_def)
    with that obtain x p' where "p = x # p'" by (cases p) auto
    with p T \<open>tget fs ?T = None\<close> show ?thesis by (simp only: tget_append option.case) simp
  qed (use that in \<open>simp add: tget_tput_other\<close>)
  have "tget ?fs (dest @ [e]) = Some (Dir cs)" using assms(4,5) by (subst same) auto
  moreover have "tget ?fs (dest @ [trash_name, e]) = None" using True tget_append [of fs ?T "[e]"] by (subst same) auto
  moreover have "dir_at ?fs dest" using dT dir_at_append by blast
  ultimately obtain fs' where "archive_to_trash dest e ?fs = (fs', Inr ())" "moved_to_trash dest e ?fs fs'"
    using archive_in_trash [of dest ?fs e cs] assms(1,3,4) dT by blast
  moreover have "archive_to_trash dest e fs = archive_to_trash dest e ?fs"
    by (simp add: archive_to_trash_def Let_def bindio_def mk mk')
  ultimately show ?thesis using same assms(4) by (auto simp: moved_to_trash_def)
qed

section \<open>Properties\<close>

text \<open>
  The name check accepts exactly the names of 1 to 64 characters from letters, digits, dot, underscore
  and dash that start with a letter or digit; the \<^verbatim>\<open>$\<close> of the pattern lets one trailing line feed through.
\<close>

theorem segment_check_exact:
  "bad_segment v = None \<longleftrightarrow>
     (\<exists>t. (v = t \<or> v = t @ [newline]) \<and> t \<noteq> [] \<and> length t \<le> 64 \<and> seg_first (hd t) \<and> list_all seg_cp t)"
  by (rule bad_segment_None)

text \<open>
  A name that passes cannot leave the directory it is joined to: the joined path is that directory's
  components and the name, whatever the directory is.
\<close>

theorem segment_joins_below:
  assumes "bad_segment v = None"
  shows "comps (join_str a v) = comps a @ [v] \<and> v \<noteq> lit ''..''"
  using catalog_segment.comps_join [OF assms] bad_segment_plain [OF assms] by (simp add: plain_name_def)

theorem segment_joins_below_witness:
  "comps (join_str (lit ''/repo/skills/'') (lit ''a.b-c'')) = [lit ''repo'', lit ''skills'', lit ''a.b-c'']"
proof -
  have "bad_segment (lit ''a.b-c'') = None" by code_simp
  from segment_joins_below [OF this, of "lit ''/repo/skills/''"]
  have "comps (join_str (lit ''/repo/skills/'') (lit ''a.b-c'')) = comps (lit ''/repo/skills/'') @ [lit ''a.b-c'']" by simp
  also have "comps (lit ''/repo/skills/'') = [lit ''repo'', lit ''skills'']" by code_simp
  finally show ?thesis by simp
qed

text \<open>
  The two tools' copies of the name check, the containment check, the frontmatter reader and the
  walk are the same functions.
\<close>

theorem sync_helpers_agree:
  "sync_bad_segment v = bad_segment v \<and> sync_inside fs d p = inside fs d p \<and> sync_fm t = fst (read_frontmatter t)
   \<and> sync_skill_dirs fs r = skill_dirs fs r"
  by (simp add: sync_copies fm_of_read)

text \<open>
  C13. Confinement: syncing into an existing directory (given by its real path, its trash not a link)
  changes nothing outside that directory, whatever the catalog's skills are called.
\<close>

theorem sync_confinement:
  assumes "plain_path dest" "dest \<noteq> []" "dir_at fs dest" "no_trash_link dest fs"
    and "\<not> prefix dest q" "\<not> prefix q dest"
  shows "tget (fst (sync repo dest fs)) q = tget fs q \<and> dir_at (fst (sync repo dest fs)) dest"
proof -
  have "only_in UNIV dest fs (fst (sync repo dest fs))"
    by (rule sync_kept [OF inside_dir.kept_relation_axioms assms(1-3)])
       (auto intro: sync_all_only_in archive_all_only_in assms(1))
  moreover have "\<not> prefix (dest @ [x]) q" for x using assms(5) by (auto dest: append_prefixD)
  ultimately show ?thesis using assms(3,4,6) unfolding only_in_def by blast
qed

theorem sync_confinement_witness:
  "tget (fst (sync [lit ''r''] [lit ''d''] (Dir [(lit ''d'', Dir []), (lit ''f'', File [])]))) [lit ''f''] = Some (File [])"
proof -
  let ?fs = "Dir [(lit ''d'', Dir []), (lit ''f'', File [])]"
  have "plain_path [lit ''d'']" "[lit ''d''] \<noteq> []" "dir_at ?fs [lit ''d'']" by code_simp+
  moreover have "no_trash_link [lit ''d''] ?fs" by (simp add: no_trash_link_def)
  moreover have "\<not> prefix [lit ''d''] [lit ''f'']" "\<not> prefix [lit ''f''] [lit ''d'']" by code_simp+
  ultimately have "tget (fst (sync [lit ''r''] [lit ''d''] ?fs)) [lit ''f''] = tget ?fs [lit ''f'']"
    using sync_confinement [of "[lit ''d'']" ?fs "[lit ''f'']" "[lit ''r'']"] by blast
  also have "\<dots> = Some (File [])" by code_simp
  finally show ?thesis .
qed

text \<open>
  C19. A hand-written skill is safe: a directory of the destination that has no links, is not stamped
  \<^verbatim>\<open>installer: auto-skill\<close> and whose name no catalog skill has is the same after the run.
\<close>

theorem sync_keeps_hand_written:
  assumes "plain_path dest" "dest \<noteq> []" "dir_at fs dest" "no_trash_link dest fs"
    and "plain_name e" "e \<noteq> trash_name" "tget fs (dest @ [e]) = Some n" "is_dir n" "has_no_links n" "\<not> auto_skill_node n"
    and "list_all (\<lambda>it. case it of Inl x \<Rightarrow> True | Inr item \<Rightarrow> fst item \<noteq> e) (sync_skill_dirs fs (repo @ [lit ''skills'']))"
  shows "tget (fst (sync repo dest fs)) (dest @ [e]) = Some n"
proof -
  have names: "fst item \<in> - {e}" if "Inr item \<in> set (sync_skill_dirs fs (repo @ [lit ''skills'']))" for item
    using assms(11) that by (fastforce simp: list_all_iff)
  have "spares dest e n fs (fst (sync_all dest (sync_skill_dirs fs (repo @ [lit ''skills''])) st fs))" for st
    by (rule only_in_spares [OF sync_all_only_in [OF assms(1) names]]) simp_all
  then have "spares dest e n fs (fst (sync repo dest fs))"
    using archive_all_spares [OF assms(1,5,9,10,8,6)]
    by (intro sync_kept [OF sparing.kept_relation_axioms assms(1-3)]) auto
  with assms(3,4,7) show ?thesis unfolding spares_def by blast
qed

definition sample_dest :: node where
  "sample_dest =
     Dir [(lit ''repo'', Dir [(lit ''skills'', Dir [(lit ''x'', sample_skill (lit ''x'') (lit ''al'') (lit ''1''))])]),
          (lit ''d'', Dir [(lit ''mine'', Dir [(skill_file, File (lit ''hand-written''))]),
                         (lit ''old'', sample_skill (lit ''old'') (lit ''al'') (lit ''3'')),
                         (trash_name, Dir [])])]"

definition sample_first :: node where
  "sample_first = Dir [(lit ''d'', Dir [(lit ''old'', sample_skill (lit ''old'') (lit ''al'') (lit ''3''))])]"

theorem sync_keeps_hand_written_witness:
  "tget (fst (sync [lit ''repo''] [lit ''d''] sample_dest)) [lit ''d'', lit ''mine'']
     = Some (Dir [(skill_file, File (lit ''hand-written''))])"
proof -
  let ?n = "Dir [(skill_file, File (lit ''hand-written''))]"
  have p: "plain_path [lit ''d'']" "[lit ''d''] \<noteq> []" "dir_at sample_dest [lit ''d'']" by code_simp+
  have "tget sample_dest ([lit ''d''] @ [trash_name]) = Some (Dir [])" by code_simp
  then have t: "no_trash_link [lit ''d''] sample_dest" by (simp add: no_trash_link_def)
  have e: "plain_name (lit ''mine'')" "lit ''mine'' \<noteq> trash_name" "tget sample_dest ([lit ''d''] @ [lit ''mine'']) = Some ?n" "is_dir ?n"
    by code_simp+
  have nl: "has_no_links ?n" by (rule has_no_links_Dir) (simp add: has_no_links_def)
  have a: "\<not> auto_skill_node ?n"
    "list_all (\<lambda>it. case it of Inl x \<Rightarrow> True | Inr item \<Rightarrow> fst item \<noteq> lit ''mine'') (sync_skill_dirs sample_dest ([lit ''repo''] @ [lit ''skills'']))"
    by code_simp+
  from sync_keeps_hand_written [OF p t e nl a] show ?thesis by simp
qed

text \<open>
  A catalog skill whose name passes the checks ends up in the destination exactly as the catalog has
  it (a directory without links), replacing the copy that was there, and is reported as synced.
\<close>

theorem sync_copies_catalog:
  assumes "plain_path dest" "dir_at fs dest" "sync_why fs dest name = None"
    and "tget fs (dest @ [name]) = None \<or> (\<exists>ds. tget fs (dest @ [name]) = Some (Dir ds))"
    and "tget fs src = Some (Dir cs)" "plain_path src" "\<not> links_in (Dir cs)"
    and "\<not> prefix (dest @ [name]) src" "\<not> prefix src (dest @ [name])"
  shows "\<exists>fs'. sync_one dest (name, src, fm) st fs =
       (fs', Inr (st\<lparr>s_names := s_names st @ [name], s_synced := s_synced st @ [name]\<rparr>))
     \<and> tget fs' (dest @ [name]) = Some (Dir cs)"
  by (rule sync_one_copies [OF assms])

definition sync_start :: sync_state where
  "sync_start = \<lparr>s_names = [], s_synced = [], s_rejected = []\<rparr>"

theorem sync_copies_catalog_witness:
  "\<exists>fs'. fst (sync_one [lit ''d''] (lit ''x'', [lit ''repo'', lit ''skills'', lit ''x''], []) sync_start sample_dest) = fs'
     \<and> tget fs' [lit ''d'', lit ''x''] = Some (sample_skill (lit ''x'') (lit ''al'') (lit ''1''))"
proof -
  obtain cs where cs: "sample_skill (lit ''x'') (lit ''al'') (lit ''1'') = Dir cs" by (simp add: sample_skill_def)
  have p: "plain_path [lit ''d'']" "dir_at sample_dest [lit ''d'']" "sync_why sample_dest [lit ''d''] (lit ''x'') = None"
    "tget sample_dest ([lit ''d''] @ [lit ''x'']) = None"
    "tget sample_dest [lit ''repo'', lit ''skills'', lit ''x''] = Some (sample_skill (lit ''x'') (lit ''al'') (lit ''1''))"
    "plain_path [lit ''repo'', lit ''skills'', lit ''x'']" "\<not> links_in (sample_skill (lit ''x'') (lit ''al'') (lit ''1''))"
    "\<not> prefix ([lit ''d''] @ [lit ''x'']) [lit ''repo'', lit ''skills'', lit ''x'']"
    "\<not> prefix [lit ''repo'', lit ''skills'', lit ''x''] ([lit ''d''] @ [lit ''x''])"
    by code_simp+
  from sync_copies_catalog [OF p(1-3) disjI1 [OF p(4)] p(5) [unfolded cs] p(6) p(7) [unfolded cs] p(8,9), of "[]" sync_start]
  show ?thesis unfolding cs by fastforce
qed

text \<open>
  C36. Archiving takes exactly the stale auto-skills and keeps their content, the first time (when there is no trash yet) and
  later. An entry of the destination, a directory with a regular \<^verbatim>\<open>SKILL.md\<close> in it, is stale when it is not
  hidden, its installer is \<^verbatim>\<open>auto-skill\<close> and neither its directory's name nor the name in its head was synced. A stale one
  is afterwards in the trash, unchanged, in place of what was archived under that name before, no longer in the
  destination, and reported; every other entry of the destination and of the trash, and everything elsewhere, is as it
  was. One that is not stale stays, with the whole tree. The trash may hold no link or file in the way.
\<close>

theorem archive_moves_to_trash:
  assumes "plain_path dest" "dir_at fs dest" "plain_name e"
    and "tget fs (dest @ [e]) = Some (Dir cs)" "tget fs (dest @ [e, skill_file]) = Some (File t)" "trash_clear fs dest e"
  shows "(let head = fm_of (univ_nl t); name = (case map_of head (lit ''name'') of None \<Rightarrow> e | Some n \<Rightarrow> n)
          in if hd e \<noteq> 46 \<and> map_of head (lit ''installer'') = Some (lit ''auto-skill'') \<and> name \<notin> set names \<and> e \<notin> set names
             then \<exists>fs'. archive_one dest names e archived fs = (fs', Inr (archived @ [e])) \<and> moved_to_trash dest e fs fs'
             else archive_one dest names e archived fs = (fs, Inr archived))"
proof -
  have pe: "plain_path (dest @ [e])" "dir_at fs (dest @ [e])" "plain_name skill_file"
    using assms(1,3,4) by (simp_all add: dir_at_def plain_name_def)
  then have "resolve fs link_limit [] ((dest @ [e]) @ [skill_file]) = Some ((dest @ [e]) @ [skill_file])"
    using assms(5) by (intro resolve_child) simp_all
  then have st: "stat fs (dest @ [e, skill_file]) = Some (File t)" using assms(5) by (simp add: stat_def)
  have "e \<noteq> []" using assms(3) by (simp add: plain_name_def)
  then have hidden: "prefix (lit ''.'') e \<longleftrightarrow> hd e = 46" by (cases e) (auto simp: lit_simps)
  have run: "archive_one dest names e archived fs =
     (if hd e = 46 \<or> \<not> stale names e (fm_of (univ_nl t)) then (fs, Inr archived)
      else bindio (archive_to_trash dest e) (\<lambda>_. retio (archived @ [e])) fs)"
    by (simp add: archive_one_def Let_def bindio_def read_text_File [OF st] isfile_def st hidden retio_def sync_copies)
  have "e \<noteq> trash_name" if "hd e \<noteq> 46" using that by (auto simp: trash_name_def lit_simps)
  with archive_to_trash_moves [OF assms(1-3) _ assms(4,6)]
  have "hd e \<noteq> 46 \<Longrightarrow> \<exists>fs'. bindio (archive_to_trash dest e) (\<lambda>_. retio (archived @ [e])) fs = (fs', Inr (archived @ [e]))
      \<and> moved_to_trash dest e fs fs'"
    by (fastforce simp: bindio_def retio_def)
  then show ?thesis unfolding run by (auto simp: Let_def stale_def dget_def INSTALLER_def split: option.splits)
qed

theorem archive_moves_to_trash_witness:
  "\<exists>fs'. archive_one [lit ''d''] [] (lit ''old'') [] sample_first = (fs', Inr [lit ''old''])
     \<and> tget fs' [lit ''d'', trash_name, lit ''old''] = Some (sample_skill (lit ''old'') (lit ''al'') (lit ''3''))"
proof -
  obtain cs where cs: "sample_skill (lit ''old'') (lit ''al'') (lit ''3'') = Dir cs" by (simp add: sample_skill_def)
  have "case tget sample_first ([lit ''d''] @ [lit ''old'', skill_file]) of Some (File t) \<Rightarrow>
      map_of (fm_of (univ_nl t)) (lit ''installer'') = Some (lit ''auto-skill'') | _ \<Rightarrow> False" by code_simp
  then obtain t where t: "tget sample_first ([lit ''d''] @ [lit ''old'', skill_file]) = Some (File t)"
      "map_of (fm_of (univ_nl t)) (lit ''installer'') = Some (lit ''auto-skill'')"
    by (auto split: option.splits node.splits)
  have p: "plain_path [lit ''d'']" "dir_at sample_first [lit ''d'']" "plain_name (lit ''old'')" "trash_clear sample_first [lit ''d''] (lit ''old'')"
    "tget sample_first ([lit ''d''] @ [lit ''old'']) = Some (sample_skill (lit ''old'') (lit ''al'') (lit ''3''))" "hd (lit ''old'') \<noteq> 46"
    by code_simp+
  from archive_moves_to_trash [OF p(1-3) p(5) [unfolded cs] t(1) p(4), of "[]" "[]"] t(2) p(5,6)
  show ?thesis by (auto simp: Let_def moved_to_trash_def)
qed

end
