(* ===== verification/Sync_Mirror.thy ===== *)
theory Sync_Mirror
  imports Collect_Live Sync_Properties
begin

text \<open>
  \<^verbatim>\<open>sync_skills.py\<close> with the walk it really makes, over a catalog kept apart from the destination: it gives what
  running over the skills found at the start gives, and after the run the destination has the catalog's
  skills.
\<close>

section \<open>The run\<close>

text \<open>The whole program; \<open>None\<close> is a walk that never ends.\<close>

definition sync_live :: "path \<Rightarrow> path \<Rightarrow> node \<Rightarrow> (node \<times> (oserror + sync_state \<times> pystr list)) option" where
  "sync_live repo dest fs =
     (case makedirs True dest fs of
        (fs1, Inl e) \<Rightarrow> Some (fs1, Inl e)
      | (fs1, Inr _) \<Rightarrow>
          map_option (\<lambda>r. case r of (fs2, Inl e) \<Rightarrow> (fs2, Inl e) | (fs2, Inr st) \<Rightarrow> archive_rest dest st fs2)
            (walk_run (sync_one dest) (repo @ [lit ''skills'']) \<lparr>s_names = [], s_synced = [], s_rejected = []\<rparr> fs1))"

lemma sync_all_items: "sync_all dest = run_items (sync_one dest)"
proof (intro ext)
  show "sync_all dest its st fs = run_items (sync_one dest) its st fs" for its st fs
    by (induction dest its st fs rule: sync_all.induct) (simp_all add: bindio_def split: prod.split sum.split)
qed

text \<open>A catalog the program can read and that has nothing to do with the destination.\<close>

definition apart :: "path \<Rightarrow> path \<Rightarrow> node \<Rightarrow> bool" where
  "apart R dest fs \<longleftrightarrow> plain_path dest \<and> dest \<noteq> [] \<and> dir_at fs dest \<and> \<not> islink fs (dest @ [trash_name])
     \<and> plain_path R \<and> \<not> prefix dest R \<and> \<not> prefix R dest
     \<and> (case tget fs R of Some (Dir cs) \<Rightarrow> plain_tree (Dir cs) | _ \<Rightarrow> False)"

text \<open>What stays while the loop copies: the destination a directory, the catalog as it was.\<close>

definition catalog_kept :: "path \<Rightarrow> path \<Rightarrow> node \<Rightarrow> node \<Rightarrow> bool" where
  "catalog_kept dest R fs t \<longleftrightarrow> apart R dest fs \<and> dir_at t dest \<and> no_trash_link dest t \<and> tget t R = tget fs R"

lemma apartE:
  assumes "apart R dest fs"
  obtains cs where "plain_path dest" "dest \<noteq> []" "dir_at fs dest" "no_trash_link dest fs" "plain_path R"
    "\<not> prefix dest R" "\<not> prefix R dest" "tget fs R = Some (Dir cs)" "plain_tree (Dir cs)" "catalog_kept dest R fs fs"
proof -
  have "no_trash_link dest fs"
    using assms by (auto simp: apart_def no_trash_link_def islink_def lplace_child)
  with assms that show thesis by (auto simp: apart_def catalog_kept_def split: option.splits node.splits)
qed

lemma sync_one_keeps:
  assumes "catalog_kept dest R fs t"
  shows "catalog_kept dest R fs (fst (sync_one dest item st t))"
proof -
  have a: "apart R dest fs" using assms by (simp add: catalog_kept_def)
  then have "only_in {fst item} dest t (fst (sync_one dest item st t))"
    by (intro sync_one_only_in) (simp add: apart_def)
  moreover have "\<not> prefix (dest @ [x]) R" "\<not> prefix R dest" for x using a by (auto simp: apart_def dest: append_prefixD)
  ultimately show ?thesis using assms by (auto simp: catalog_kept_def only_in_def)
qed

interpretation sync_walk: live_walk "sync_one dest" "\<lambda>st. catalog_kept dest R fs" fs R for dest R fs
proof unfold_locales
  fix t t' item and st st' :: sync_state
  assume k: "catalog_kept dest R fs t"
  then show "plain_path R \<and> (\<exists>cs. tget fs R = Some (Dir cs) \<and> plain_tree (Dir cs))" "tget t R = tget fs R"
    by (auto simp: catalog_kept_def apart_def split: option.splits node.splits)
  show "catalog_kept dest R fs t'" if "sync_one dest item st t = (t', Inr st')"
    using sync_one_keeps [OF k, of item st] that by simp
qed

lemma sync_live_runs:
  assumes "apart (repo @ [lit ''skills'']) dest fs"
  shows "sync_live repo dest fs = Some (sync repo dest fs)"
  using assms
proof (cases rule: apartE)
  case (1 cs)
  obtain d c where dc: "dest = d @ [c]" using 1(2) by (cases dest rule: rev_cases) auto
  have "isdir fs dest" using 1(1,3) by (auto simp: isdir_def stat_def realpath_dir dir_at_def)
  then have "makedirs True dest fs = (fs, Inr ())" using makedirs_present 1(1) by (simp add: dc)
  with sync_walk.walk_is_snapshot [OF 1(10)] show ?thesis
    by (simp add: sync_live_def sync_run [OF 1(1-3)] bindio_def sync_all_items sync_copies split: prod.split sum.split)
qed

section \<open>The destination mirrors the catalog\<close>

text \<open>The items the walk has found so far, by name: the last one counts.\<close>

abbreviation last_of :: "skill_item list \<Rightarrow> pystr \<Rightarrow> (path \<times> pydict) option" where
  "last_of items \<equiv> map_of (rev items)"

definition accounted :: "skill_item \<Rightarrow> sync_state \<Rightarrow> bool" where
  "accounted item st \<longleftrightarrow> fst item \<in> set (s_names st) \<or> (\<exists>w. (fst item, fst (snd item), w) \<in> set (s_rejected st))"

definition mirrored :: "path \<Rightarrow> node \<Rightarrow> skill_item list \<Rightarrow> sync_state \<Rightarrow> node \<Rightarrow> bool" where
  "mirrored dest fs items st t \<longleftrightarrow> s_synced st = s_names st
     \<and> list_all (\<lambda>item. accounted item st) items
     \<and> (\<forall>name\<in>set (s_names st). sync_bad_segment name = None \<and> (\<exists>src fm cs. last_of items name = Some (src, fm)
          \<and> tget fs src = Some (Dir cs) \<and> tget t (dest @ [name]) = Some (Dir cs)))"

lemma copytree_result:
  assumes c: "copytree src (R @ [x]) s = (t, Inr ())" and R: "plain_path R" "dir_at s R" "no_trash_link R s"
    and src: "tget s src = Some (Dir cs)" "plain_path src" "plain_tree (Dir cs)"
  shows "tget t (R @ [x]) = Some (Dir cs)"
proof -
  have dl: "deref_list link_limit s (realpath s src) cs = (cs, True)"
    using deref_id(2) [of cs] plain_tree_no_links [OF src(3)] by simp
  obtain s1 d where mk: "makedirs False (R @ [x]) s = (s1, Inr ())" and d: "lplace s1 (R @ [x]) = Some d" "t = tput d (Dir cs) s1"
    using c plain_stat(1) [OF src] dl
    by (cases "makedirs False (R @ [x]) s") (auto simp: copytree_def bindio_def Let_def split: sum.splits option.splits)
  have "dir_at s1 R" using only_in_makedirs [OF R(1,2), of x False] mk R(2,3) by (auto simp: only_in_def)
  with d R(1) show ?thesis by (auto simp: lplace_child intro!: tget_tput_self)
qed

lemma sync_why_copied:
  assumes "plain_path dest" "dest \<noteq> []" "dir_at t dest" "sync_bad_segment name = None" "tget t (dest @ [name]) = Some (Dir cs)"
  shows "sync_why t dest name = None"
proof -
  have n: "plain_name name" using sync_segment.passed [OF assms(4)] by simp
  have "resolve t link_limit [] (dest @ [name]) = Some (dest @ [name])"
    using assms n by (intro resolve_child) auto
  then show ?thesis
    using assms(1-4) by (simp add: sync_why_def sync_inside_def realpath_def realpath_dir)
qed

text \<open>One more item keeps the mirror.\<close>

lemma mirrored_step:
  assumes dest: "plain_path dest" "dest \<noteq> []" and t: "dir_at t dest" "no_trash_link dest t"
    and src: "tget fs src = Some (Dir cs)" "plain_path src" "plain_tree (Dir cs)" "tget t src = Some (Dir cs)"
      "\<not> prefix dest src" "\<not> prefix src dest"
    and m: "mirrored dest fs items st t" and run: "sync_one dest (name, src, fm) st t = (t', Inr st')"
  shows "mirrored dest fs (items @ [(name, src, fm)]) st' t'"
proof (cases "sync_why t dest name")
  case (Some w)
  with run have st': "t' = t" "st' = st\<lparr>s_rejected := s_rejected st @ [(name, src, w)]\<rparr>" by (simp_all add: sync_one_def)
  have "name \<notin> set (s_names st)"
    using m Some sync_why_copied [OF dest t(1)] unfolding mirrored_def by fastforce
  then have "last_of (items @ [(name, src, fm)]) n = last_of items n" if "n \<in> set (s_names st)" for n
    using that by auto
  with m show ?thesis unfolding mirrored_def st'
    by (auto simp: accounted_def list_all_iff)
next
  case None
  let ?clear = "\<lambda>fs. if path_exists fs (dest @ [name]) then rmtree (dest @ [name]) fs else (fs, Inr ())"
  from None run obtain u where u: "?clear t = (u, Inr ())" "copytree src (dest @ [name]) u = (t', Inr ())"
    and st': "st' = st\<lparr>s_names := s_names st @ [name], s_synced := s_synced st @ [name]\<rparr>"
    by (auto simp: sync_one_def bindio_def retio_def Let_def split: prod.splits sum.splits)
  have "only_in {name} dest t (fst (?clear t))" using only_in_rmtree [OF dest(1) t(1)] inside_dir.rel_refl by simp
  then have o: "only_in {name} dest t u" using u(1) by simp
  then have "tget u src = tget t src" "dir_at u dest" "no_trash_link dest u"
    using t src(5,6) by (auto simp: only_in_def dest: append_prefixD)
  then have c: "tget t' (dest @ [name]) = Some (Dir cs)"
    using copytree_result [OF u(2) dest(1) _ _ _ src(2,3)] src(4) by simp
  have "only_in {name} dest t t'" using sync_one_only_in [OF dest(1), of "(name, src, fm)" t st] run by simp
  then have f: "tget t' (dest @ [n]) = tget t (dest @ [n])" if "n \<noteq> name" for n
    using that t by (simp add: only_in_def)
  have b: "sync_bad_segment name = None" using None by (auto simp: sync_why_def split: option.splits)
  from m c f src(1) b show ?thesis unfolding mirrored_def st'
    by (auto simp: accounted_def list_all_iff)
qed

lemma sync_all_mirrors:
  "catalog_kept dest R fs t \<Longrightarrow> mirrored dest fs items st t \<Longrightarrow> sync_all dest its st t = (t', Inr st')
    \<Longrightarrow> set its \<subseteq> set (skill_dirs fs R) \<Longrightarrow> mirrored dest fs (items @ rights its) st' t' \<and> catalog_kept dest R fs t'"
proof (induction its arbitrary: items st t)
  case (Cons it its)
  show ?case
  proof (cases it)
    case (Inr item)
    obtain name src fm where item: "item = (name, src, fm)" by (cases item)
    obtain t1 st1 where s1: "sync_one dest item st t = (t1, Inr st1)" "sync_all dest its st1 t1 = (t', Inr st')"
      using Cons.prems(3) by (auto simp: Inr bindio_def split: prod.splits sum.splits)
    have a: "plain_path dest" "dest \<noteq> []" "\<not> prefix dest R" "\<not> prefix R dest" "dir_at t dest" "no_trash_link dest t"
      using Cons.prems(1) by (simp_all add: catalog_kept_def apart_def)
    obtain cs where src: "tget fs src = Some (Dir cs)" "plain_path src" "plain_tree (Dir cs)" "tget t src = Some (Dir cs)" "prefix R src"
      using sync_walk.items_from [OF Cons.prems(1), of name src fm] Cons.prems(4) Inr item by auto
    have inc: "\<not> prefix dest src" "\<not> prefix src dest"
      using a(3,4) src(5) by (auto dest: prefix_order.trans prefix_same_cases)
    have m: "mirrored dest fs (items @ [item]) st1 t1"
      unfolding item using mirrored_step [OF a(1,2,5,6) src(1-4) inc Cons.prems(2) s1(1) [unfolded item]] .
    have k: "catalog_kept dest R fs t1" using sync_one_keeps [OF Cons.prems(1), of item st] s1(1) by simp
    from Cons.IH [OF k m s1(2)] Cons.prems(4) Inr show ?thesis by auto
  qed (use Cons.prems(3) in simp)
qed simp

text \<open>Archiving leaves alone what has the name of a catalog skill.\<close>

lemma archive_one_named:
  assumes "plain_path R" "e \<in> set names" "e \<noteq> trash_name"
  shows "spares R e n s (fst (archive_one R names x ar s))"
proof (cases "x = e")
  case False
  then show ?thesis using assms(3) only_in_spares [OF archive_one_only_in [OF assms(1)]] by auto
next
  case True
  have "fst (archive_one R names e ar s) = s"
    using assms(2) by (auto simp: archive_one_def Let_def bindio_def read_text_def retio_def stale_def split: sum.split)
  with True show ?thesis by (simp add: sparing.rel_refl)
qed

lemma archive_all_named:
  assumes "plain_path R" "e \<in> set names" "e \<noteq> trash_name"
  shows "spares R e n s (fst (archive_all R names es ar s))"
proof (induction es arbitrary: s ar)
  case (Cons x es)
  show ?case unfolding archive_all.simps
    by (rule sparing.rel_bind) (auto intro: archive_one_named [OF assms] Cons.IH)
qed (simp add: sparing.rel_refl)

lemma archive_all_archived:
  "archive_all dest names es ar s = (t, Inr ar') \<Longrightarrow> set ar' \<subseteq> set ar \<union> (set es - set names)"
proof (induction es arbitrary: s ar)
  case (Cons x es)
  then obtain s1 ar1 where 1: "archive_one dest names x ar s = (s1, Inr ar1)" "archive_all dest names es ar1 s1 = (t, Inr ar')"
    by (auto simp: bindio_def split: prod.splits sum.splits)
  from 1(1) have "ar1 = ar \<or> (ar1 = ar @ [x] \<and> x \<notin> set names)"
    by (auto simp: archive_one_def Let_def bindio_def retio_def stale_def split: if_splits prod.splits sum.splits)
  with Cons.IH [OF 1(2)] show ?case by auto
qed simp

lemma sync_mirrors:
  assumes a: "apart (repo @ [lit ''skills'']) dest fs" and r: "sync repo dest fs = (fs', Inr (st, archived))"
  shows "mirrored dest fs (rights (sync_skill_dirs fs (repo @ [lit ''skills'']))) st fs' \<and> set archived \<inter> set (s_names st) = {}"
  using a
proof (cases rule: apartE)
  case (1 cs)
  let ?R = "repo @ [lit ''skills'']" and ?st0 = "\<lparr>s_names = [], s_synced = [], s_rejected = []\<rparr>"
  from r obtain t es where s: "sync_all dest (sync_skill_dirs fs ?R) ?st0 fs = (t, Inr st)"
    and ar: "archive_all dest (s_names st) es [] t = (fs', Inr archived)"
    by (auto simp: sync_run [OF 1(1-3)] archive_rest_def bindio_def retio_def split: prod.splits sum.splits option.splits)
  have "mirrored dest fs [] ?st0 fs" by (simp add: mirrored_def)
  from sync_all_mirrors [OF 1(10) this s]
  have m: "mirrored dest fs (rights (sync_skill_dirs fs ?R)) st t" and k: "catalog_kept dest ?R fs t"
    by (simp_all add: sync_copies)
  have "tget fs' (dest @ [name]) = Some n" if "name \<in> set (s_names st)" "tget t (dest @ [name]) = Some n" for name n
  proof -
    have "name \<noteq> trash_name" using m that(1) not_trash by (auto simp: mirrored_def)
    from archive_all_named [OF 1(1) that(1) this, of n t es "[]"] k that(2) ar show ?thesis
      by (simp add: spares_def catalog_kept_def)
  qed
  with m have "mirrored dest fs (rights (sync_skill_dirs fs ?R)) st fs'" unfolding mirrored_def by blast
  with archive_all_archived [OF ar] show ?thesis by auto
qed

section \<open>Properties\<close>

text \<open>
  C16. The walk may be read as one look at the tree. Both tools list a directory only when they come to it, after they
  have already removed and copied; over skills apart from where the copies go this ends, and it gives the
  tree, the report or the error that running over the skills found at the start gives.
\<close>

theorem walks_are_snapshots:
  "(apart (repo @ [lit ''skills'']) dest fs \<longrightarrow> sync_live repo dest fs = Some (sync repo dest fs))
   \<and> (collectable (repo @ [lit ''skills'']) src fs \<longrightarrow> collect_live repo src fs = Some (collect repo src fs))"
  using sync_live_runs collect_live_runs by blast

text \<open>
  C15. After a run that reports success the destination has the catalog: the run ends, every named skill of the catalog is
  either refused by name or synced, and for every synced name the destination holds, link for link and
  byte for byte, the directory of the last skill of that name, whatever the copies of the others and the archiving
  did in between; nothing that was synced is archived.
\<close>

theorem sync_mirrors_catalog:
  assumes "apart (repo @ [lit ''skills'']) dest fs"
  shows "\<exists>fs' r. sync_live repo dest fs = Some (fs', r) \<and> (case r of
      Inl e \<Rightarrow> True
    | Inr (st, archived) \<Rightarrow> mirrored dest fs (rights (sync_skill_dirs fs (repo @ [lit ''skills'']))) st fs'
        \<and> set archived \<inter> set (s_names st) = {})"
  using sync_live_runs [OF assms] sync_mirrors [OF assms]
  by (cases "sync repo dest fs") (auto split: sum.split)

lemma sample_apart: "apart ([lit ''repo''] @ [lit ''skills'']) [lit ''d''] sample_dest"
  by code_simp

theorem walks_are_snapshots_witness:
  "sync_live [lit ''repo''] [lit ''d''] sample_dest = Some (sync [lit ''repo''] [lit ''d''] sample_dest)
   \<and> collect_live [lit ''repo''] [lit ''src''] sample_catalog = Some (collect [lit ''repo''] [lit ''src''] sample_catalog)"
  using walks_are_snapshots [of "[lit ''repo'']"] sample_apart sample_collectable by blast

theorem sync_mirrors_catalog_witness:
  "\<exists>fs' st. sync_live [lit ''repo''] [lit ''d''] sample_dest = Some (fs', Inr (st, [lit ''old''])) \<and> s_names st = [lit ''x'']
     \<and> tget fs' [lit ''d'', lit ''x''] = tget sample_dest [lit ''repo'', lit ''skills'', lit ''x'']"
proof -
  let ?items = "rights (sync_skill_dirs sample_dest ([lit ''repo''] @ [lit ''skills'']))"
  have ok: "case sync [lit ''repo''] [lit ''d''] sample_dest of (_, Inl e) \<Rightarrow> False
      | (_, Inr (st, ar)) \<Rightarrow> s_names st = [lit ''x''] \<and> ar = [lit ''old'']" by code_simp
  obtain fs' st where r: "sync [lit ''repo''] [lit ''d''] sample_dest = (fs', Inr (st, [lit ''old'']))" "s_names st = [lit ''x'']"
    using ok by (cases "sync [lit ''repo''] [lit ''d''] sample_dest") (auto split: sum.splits)
  have l: "map_option fst (last_of ?items (lit ''x'')) = Some [lit ''repo'', lit ''skills'', lit ''x'']" by code_simp
  from sync_mirrors_catalog [OF sample_apart] r sync_live_runs [OF sample_apart]
  have "mirrored [lit ''d''] sample_dest ?items st fs'" by simp
  then have "tget fs' [lit ''d'', lit ''x''] = tget sample_dest [lit ''repo'', lit ''skills'', lit ''x'']"
    using l r(2) unfolding mirrored_def by auto
  with r sync_live_runs [OF sample_apart] show ?thesis by simp
qed

text \<open>
  Apart it must be. With a destination inside the catalog the walk comes upon its own copies: it takes the copy for
  a skill of the catalog, removes it, and then has nothing to copy from.
\<close>

definition nested_catalog :: node where
  "nested_catalog = Dir [(lit ''r'', Dir [(lit ''skills'', Dir [(lit ''a'', sample_skill (lit ''x'') (lit ''al'') (lit ''1'')),
     (lit ''live'', Dir [])])])]"

lemma walk_meets_its_copies:
  "\<exists>fs' e. sync_live [lit ''r''] [lit ''r'', lit ''skills'', lit ''live''] nested_catalog = Some (fs', Inl e)"
  "\<not> isl (snd (sync [lit ''r''] [lit ''r'', lit ''skills'', lit ''live''] nested_catalog))"
proof -
  let ?R = "[lit ''r'', lit ''skills'']" and ?D = "[lit ''r'', lit ''skills'', lit ''live'']" and ?fs = nested_catalog
  let ?st = "\<lparr>s_names = [], s_synced = [], s_rejected = []\<rparr>"
  have a: "makedirs True ?D ?fs = (?fs, Inr ())" "isdir ?fs ?R" "visit (sync_one ?D) ?R ?st ?fs = (?fs, Inr ?st)"
    "subdirs ?fs ?fs ?R = [?R @ [lit ''a''], ?D]" by code_simp+
  have "case visit (sync_one ?D) (?R @ [lit ''a'']) ?st ?fs of (t, Inl e) \<Rightarrow> False
      | (t, Inr st) \<Rightarrow> subdirs ?fs t (?R @ [lit ''a'']) = []
        \<and> snd (visit (sync_one ?D) ?D st t) = Inr st \<and> fst (visit (sync_one ?D) ?D st t) = t \<and> subdirs t t ?D = [?D @ [lit ''x'']] \<and> isl (snd (visit (sync_one ?D) (?D @ [lit ''x'']) st t))" by code_simp
  then obtain t st where b: "visit (sync_one ?D) (?R @ [lit ''a'']) ?st ?fs = (t, Inr st)" "subdirs ?fs t (?R @ [lit ''a'']) = []"
    "snd (visit (sync_one ?D) ?D st t) = Inr st" "fst (visit (sync_one ?D) ?D st t) = t" "subdirs t t ?D = [?D @ [lit ''x'']]"
    "isl (snd (visit (sync_one ?D) (?D @ [lit ''x'']) st t))"
    by (auto split: prod.splits sum.splits)
  then have c: "visit (sync_one ?D) ?D st t = (t, Inr st)" by (simp add: prod_eq_iff)
  obtain u e where "visit (sync_one ?D) (?D @ [lit ''x'']) st t = (u, Inl e)"
    using b(6) by (cases "visit (sync_one ?D) (?D @ [lit ''x'']) st t") (auto simp: isl_def)
  with a b(1,2,5) c show "\<exists>fs' e. sync_live [lit ''r''] ?D ?fs = Some (fs', Inl e)" by (simp add: sync_live_def walk_run_def)
  show "\<not> isl (snd (sync [lit ''r''] ?D ?fs))" by code_simp
qed

end
