(* ===== verification/Writer_Store.thy ===== *)
theory Writer_Store
  imports Skill_Writer
begin

text \<open>
  What \<^verbatim>\<open>auto_skill.py create\<close> does to the file tree, and what \<^verbatim>\<open>validate\<close> and \<^verbatim>\<open>list\<close> see afterwards:
  nothing that exists is lost without \<^verbatim>\<open>--force\<close>, a created file is there with its content, creating
  the same skill again is recognised, and the listing gives back what was asked for.
\<close>

section \<open>The inputs after repair\<close>

definition used_name :: "unidb \<Rightarrow> args \<Rightarrow> pystr" where
  "used_name U a = kebab U (py_strip (a_name a))"

definition used_desc :: "args \<Rightarrow> pystr" where
  "used_desc a = fst (fit_desc (a_desc a))"

definition used_trigger :: "unidb \<Rightarrow> args \<Rightarrow> pystr" where
  "used_trigger U a = squash (\<lambda>c. is_space c \<or> c = 95) 45 (py_lower U (py_strip (a_trigger a)))"

definition used_source :: "env \<Rightarrow> args \<Rightarrow> pystr" where
  "used_source E a = py_strip (if a_source a \<noteq> [] then a_source a else env_source E)"

definition used_category :: "unidb \<Rightarrow> args \<Rightarrow> pystr" where
  "used_category U a = kebab U (py_strip (a_category a))"

definition target_dir :: "env \<Rightarrow> args \<Rightarrow> path" where
  "target_dir E a = (case a_dir a of Some d \<Rightarrow> d | None \<Rightarrow> default_dir E (a_global a))"

definition inputs_valid :: "unidb \<Rightarrow> env \<Rightarrow> args \<Rightarrow> bool" where
  "inputs_valid U E a \<longleftrightarrow>
     2 \<le> length (used_name U a) \<and> length (used_name U a) \<le> 49 \<and> used_desc a \<noteq> []
     \<and> used_trigger U a \<in> set VALID_TRIGGERS \<and> used_source E a \<noteq> []
     \<and> length (used_category U a) \<le> 33"

definition given_body :: "args \<Rightarrow> node \<Rightarrow> oserror + pystr" where
  "given_body a fs = (case a_body_file a of None \<Rightarrow> Inr (a_body a) | Some p \<Rightarrow> snd (read_text p fs))"

definition repairs_of :: "unidb \<Rightarrow> args \<Rightarrow> (pystr \<times> repair) list" where
  "repairs_of U a =
     repair_if (lit ''name'') (py_strip (a_name a)) (used_name U a)
     @ (case snd (fit_desc (a_desc a)) of None \<Rightarrow> []
        | Some n \<Rightarrow> [(lit ''description'', Clipped n (used_desc a))])
     @ repair_if (lit ''trigger'') (py_strip (a_trigger a)) (used_trigger U a)
     @ repair_if (lit ''category'') (py_strip (a_category a)) (used_category U a)"

lemma name_valid_iff:
  "re_match no_word NAME_RE (used_name U a) \<noteq> None \<longleftrightarrow> 2 \<le> length (used_name U a) \<and> length (used_name U a) \<le> 49"
  unfolding NAME_RE_def used_name_def shape_iff [OF kebab_kebab_form] by auto

lemma category_valid_iff:
  "used_category U a = [] \<or> re_match no_word CAT_RE (used_category U a) \<noteq> None
     \<longleftrightarrow> length (used_category U a) \<le> 33"
  unfolding CAT_RE_def used_category_def shape_iff [OF kebab_kebab_form] by auto

text \<open>Accepted inputs reach the write, rejected ones leave the tree as it is.\<close>

lemma cmd_create_alt:
  "cmd_create U E a fs =
     (if re_match no_word NAME_RE (used_name U a) = None
      then (fs, Inr (plain_report (Invalid (BadName (py_strip (a_name a)))) (used_name U a) None))
      else if used_desc a = [] then (fs, Inr (plain_report (Invalid NoDescription) (used_name U a) None))
      else if used_trigger U a \<notin> set VALID_TRIGGERS
      then (fs, Inr (plain_report (Invalid (BadTrigger (used_trigger U a))) (used_name U a) None))
      else if used_source E a = [] then (fs, Inr (plain_report (Invalid NoSource) (used_name U a) None))
      else if \<not> (used_category U a = [] \<or> re_match no_word CAT_RE (used_category U a) \<noteq> None)
      then (fs, Inr (plain_report (Invalid BadCategory) (used_name U a) None))
      else case given_body a fs of
             Inl e \<Rightarrow> (fs, Inr (plain_report (Invalid (BodyUnreadable e)) (used_name U a) None))
           | Inr body \<Rightarrow> write_skill U E a (used_name U a) (used_desc a) (used_trigger U a)
               (used_source E a) (used_category U a) body (repairs_of U a) fs)"
  unfolding cmd_create_def given_body_def repairs_of_def used_name_def used_desc_def used_trigger_def
    used_source_def used_category_def Let_def case_prod_unfold
  by (cases "a_body_file a") (simp_all only: option.case sum.case de_Morgan_disj not_not)

lemma cmd_create_valid:
  "inputs_valid U E a \<Longrightarrow> given_body a fs = Inr body \<Longrightarrow>
   cmd_create U E a fs = write_skill U E a (used_name U a) (used_desc a) (used_trigger U a)
     (used_source E a) (used_category U a) body (repairs_of U a) fs"
  unfolding cmd_create_alt category_valid_iff using name_valid_iff [of U a]
  by (auto simp: inputs_valid_def)

lemma cmd_create_invalid:
  "\<not> (inputs_valid U E a \<and> (\<exists>body. given_body a fs = Inr body)) \<Longrightarrow>
   \<exists>r. cmd_create U E a fs = (fs, Inr (plain_report (Invalid r) (used_name U a) None))"
  unfolding cmd_create_alt category_valid_iff using name_valid_iff [of U a]
  by (cases "given_body a fs") (auto simp: inputs_valid_def)

lemma cmd_create_cases:
  obtains (invalid) r where "cmd_create U E a fs = (fs, Inr (plain_report (Invalid r) (used_name U a) None))"
      "\<not> (inputs_valid U E a \<and> (\<exists>body. given_body a fs = Inr body))"
  | (accepted) body where "inputs_valid U E a" "given_body a fs = Inr body"
      "cmd_create U E a fs = write_skill U E a (used_name U a) (used_desc a) (used_trigger U a)
         (used_source E a) (used_category U a) body (repairs_of U a) fs"
  using cmd_create_valid cmd_create_invalid by metis

section \<open>Nothing is lost\<close>

text \<open>
  \<open>appends Q fs fs'\<close>: every file, link and directory of \<open>fs\<close> is in \<open>fs'\<close>; files keep their content,
  except that those at the places \<open>Q\<close> may have grown at the end.
\<close>

definition appends :: "path set \<Rightarrow> node \<Rightarrow> node \<Rightarrow> bool" where
  "appends Q fs fs' \<longleftrightarrow>
     (\<forall>q n. tget fs q = Some n \<longrightarrow>
        (case n of
           File t \<Rightarrow> (\<exists>u. tget fs' q = Some (File (t @ u)) \<and> (q \<notin> Q \<longrightarrow> u = []))
         | Link t \<Rightarrow> tget fs' q = Some (Link t)
         | Dir _ \<Rightarrow> dir_at fs' q))"

lemma appendsD:
  assumes "appends Q fs fs'"
  shows "tget fs q = Some (File t) \<Longrightarrow> \<exists>u. tget fs' q = Some (File (t @ u)) \<and> (q \<notin> Q \<longrightarrow> u = [])"
    and "tget fs q = Some (Link t) \<Longrightarrow> tget fs' q = Some (Link t)"
    and "dir_at fs q \<Longrightarrow> dir_at fs' q"
  using assms unfolding appends_def by (auto elim!: dir_atE dest!: spec [of _ q])

lemma appendsI:
  assumes "\<And>q t. tget fs q = Some (File t) \<Longrightarrow> \<exists>u. tget fs' q = Some (File (t @ u)) \<and> (q \<notin> Q \<longrightarrow> u = [])"
    and "\<And>q t. tget fs q = Some (Link t) \<Longrightarrow> tget fs' q = Some (Link t)"
    and "\<And>q. dir_at fs q \<Longrightarrow> dir_at fs' q"
  shows "appends Q fs fs'"
  unfolding appends_def
proof (intro allI impI)
  fix q n
  assume "tget fs q = Some n"
  then show "case n of File t \<Rightarrow> \<exists>u. tget fs' q = Some (File (t @ u)) \<and> (q \<notin> Q \<longrightarrow> u = [])
      | Link t \<Rightarrow> tget fs' q = Some (Link t) | Dir _ \<Rightarrow> dir_at fs' q"
    using assms by (cases n) (auto simp: dir_at_def)
qed

lemma grows_appends: "grows fs fs' \<Longrightarrow> appends Q fs fs'"
  by (rule appendsI) (auto dest: growsD grows_dir)

lemma appends_trans: "appends Q s t \<Longrightarrow> appends Q t u \<Longrightarrow> appends Q s u"
proof (rule appendsI)
  fix q w
  assume st: "appends Q s t" and tu: "appends Q t u" and q: "tget s q = Some (File w)"
  from appendsD(1) [OF st q] obtain v where v: "tget t q = Some (File (w @ v))" "q \<notin> Q \<longrightarrow> v = []" by blast
  from appendsD(1) [OF tu v(1)] obtain x where "tget u q = Some (File ((w @ v) @ x))" "q \<notin> Q \<longrightarrow> x = []" by blast
  with v show "\<exists>y. tget u q = Some (File (w @ y)) \<and> (q \<notin> Q \<longrightarrow> y = [])" by auto
qed (auto dest: appendsD)

lemma appends_open_append:
  assumes "\<forall>q. resolve fs link_limit [] p = Some q \<longrightarrow> q \<in> Q"
  shows "appends Q fs (fst (open_append p t fs))"
proof (cases "resolve fs link_limit [] p")
  case None
  then show ?thesis by (simp add: open_append_def write_with_def grows_appends)
next
  case (Some q)
  show ?thesis
  proof (cases "\<exists>old. tget fs q = Some (File old)")
    case True
    then obtain old where old: "tget fs q = Some (File old)" by blast
    let ?fs = "tput q (File (old @ t)) fs"
    have res: "fst (open_append p t fs) = ?fs" using Some old by (simp add: open_append_def write_with_def)
    have par: "q = [] \<or> dir_at fs (butlast q)"
      using old by (cases q rule: rev_cases) (auto dest: dir_at_prefix)
    have same: "tget ?fs x = tget fs x" if "\<not> prefix q x" "\<not> prefix x q" for x
      using that by (simp add: tget_tput_other)
    have below: "tget fs x = None" if "prefix q x" "x \<noteq> q" for x
      using that old by (auto simp: prefix_def tget_append split: if_splits)
    have above: "dir_at fs x" if "prefix x q" "x \<noteq> q" for x
      using that old by (auto simp: prefix_def dest: dir_at_prefix)
    have self: "tget ?fs q = Some (File (old @ t))" using par by (rule tget_tput_self)
    have qQ: "q \<in> Q" using assms Some by simp
    show ?thesis unfolding res
    proof (rule appendsI)
      fix x w
      assume x: "tget fs x = Some (File w)"
      then have "x = q \<or> (\<not> prefix q x \<and> \<not> prefix x q)"
        using below [of x] above [of x] by (auto simp: dir_at_def)
      with x self old qQ same show "\<exists>u. tget ?fs x = Some (File (w @ u)) \<and> (x \<notin> Q \<longrightarrow> u = [])" by auto
    next
      fix x w
      assume x: "tget fs x = Some (Link w)"
      then have "\<not> prefix q x \<and> \<not> prefix x q"
        using below [of x] above [of x] old by (cases "x = q") (auto simp: dir_at_def)
      with x same show "tget ?fs x = Some (Link w)" by simp
    next
      fix x
      assume x: "dir_at fs x"
      show "dir_at ?fs x"
      proof (cases "prefix x q")
        case True
        with x old have "strict_prefix x q" by (auto simp: strict_prefix_def dir_at_def)
        then show ?thesis using x by (rule dir_at_tput_above)
      next
        case False
        then show ?thesis using x below [of x] same [of x] by (cases "prefix q x") (auto simp: dir_at_def)
      qed
    qed
  next
    case False
    then show ?thesis using Some
      by (auto simp: open_append_def write_with_def grows_appends grows_tput split: option.splits node.splits)
  qed
qed

lemma same_links_open_append: "same_links fs (fst (open_append p t fs))"
  by (simp add: open_append_def same_links_write_with)

text \<open>An operation is gentle for \<open>P\<close> when it only appends to the file \<open>P\<close> resolves to and keeps links.\<close>

definition gentle :: "path \<Rightarrow> 'a io \<Rightarrow> bool" where
  "gentle P m \<longleftrightarrow>
     (\<forall>fs Q. (\<forall>q. resolve fs link_limit [] P = Some q \<longrightarrow> q \<in> Q) \<longrightarrow>
        appends Q fs (fst (m fs)) \<and> same_links fs (fst (m fs)))"

lemma gentle_grow: "(\<And>fs. grows fs (fst (m fs)) \<and> same_links fs (fst (m fs))) \<Longrightarrow> gentle P m"
  by (simp add: gentle_def grows_appends)

lemma gentle_append: "gentle P (open_append P t)"
  by (simp add: gentle_def appends_open_append same_links_open_append)

lemma gentle_ret: "gentle P (retio a)"
  by (rule gentle_grow) (simp add: retio_def)

lemma gentle_read: "gentle P (read_text p)"
  by (rule gentle_grow) simp

lemma gentle_makedirs: "gentle P (makedirs ok p)"
  by (rule gentle_grow) (simp add: grows_makedirs same_links_makedirs)

lemma gentle_excl: "gentle P (open_excl p t)"
  by (rule gentle_grow) (simp add: open_excl_def grows_create_at same_links_create_at)

lemma gentle_step:
  assumes "gentle P m" "m fs = (fs', r)" "\<forall>q. resolve fs link_limit [] P = Some q \<longrightarrow> q \<in> Q"
  shows "appends Q fs fs'" "same_links fs fs'" "\<forall>q. resolve fs' link_limit [] P = Some q \<longrightarrow> q \<in> Q"
  using assms unfolding gentle_def by (metis fst_conv, metis fst_conv, metis fst_conv resolve_same_links)

lemma gentle_bind:
  assumes "gentle P m" "\<And>a. gentle P (f a)"
  shows "gentle P (bindio m f)"
  unfolding gentle_def
proof (intro allI impI)
  fix fs Q
  assume Q: "\<forall>q. resolve fs link_limit [] P = Some q \<longrightarrow> q \<in> Q"
  obtain fs' r where m: "m fs = (fs', r)" by (cases "m fs")
  note s = gentle_step [OF assms(1) m Q]
  show "appends Q fs (fst (bindio m f fs)) \<and> same_links fs (fst (bindio m f fs))"
  proof (cases r)
    case (Inr a)
    have "appends Q fs' (fst (f a fs')) \<and> same_links fs' (fst (f a fs'))"
      using assms(2) s(3) unfolding gentle_def by blast
    with s m Inr show ?thesis by (auto simp: bindio_def intro: appends_trans same_links_trans)
  qed (use s m in \<open>simp add: bindio_def\<close>)
qed

definition try_excl :: "path \<Rightarrow> pystr \<Rightarrow> bool io" where
  "try_excl dest t fs =
     (case open_excl dest t fs of
        (fs', Inr u) \<Rightarrow> (fs', Inr True)
      | (fs', Inl FileExists) \<Rightarrow> (fs', Inr False)
      | (fs', Inl e) \<Rightarrow> (fs', Inl e))"

lemma excl_or_bind: "excl_or dest t won lost = bindio (try_excl dest t) (\<lambda>b. if b then won else lost)"
  by (rule ext) (auto simp: excl_or_def try_excl_def bindio_def split: prod.splits sum.splits oserror.splits)

lemma fst_try_excl: "fst (try_excl dest t fs) = fst (open_excl dest t fs)"
  by (auto simp: try_excl_def split: prod.splits sum.splits oserror.splits)

lemma gentle_excl_or: "gentle P won \<Longrightarrow> gentle P lost \<Longrightarrow> gentle P (excl_or dest t won lost)"
  using gentle_excl [of P dest t] unfolding excl_or_bind
  by (intro gentle_bind) (simp_all add: gentle_def fst_try_excl)

lemma gentle_reconcile: "gentle P done \<Longrightarrow> gentle P (reconcile False name dest r h done)"
  unfolding reconcile_def by (rule gentle_bind) (auto simp: gentle_read gentle_ret)

definition queue_path :: "env \<Rightarrow> args \<Rightarrow> path" where
  "queue_path E a = target_dir E a @ [pending, lit ''queue.md'']"

text \<open>\<open>store_at\<close> is the common tail of both branches of \<open>write_skill\<close>.\<close>

definition store_at :: "bool \<Rightarrow> pystr \<Rightarrow> path \<Rightarrow> pystr \<Rightarrow> pystr \<Rightarrow> report io \<Rightarrow> report io" where
  "store_at force name dest_dir rendered new_hash finish =
     bindio (makedirs True dest_dir)
       (\<lambda>_. excl_or (dest_dir @ [skill_md]) rendered finish
              (reconcile force name (dest_dir @ [skill_md]) rendered new_hash finish))"

lemma gentle_store_at: "gentle P finish \<Longrightarrow> gentle P (store_at False name dd r h finish)"
  unfolding store_at_def
  by (intro gentle_bind gentle_makedirs gentle_excl_or gentle_reconcile)

definition skill_dir :: "unidb \<Rightarrow> env \<Rightarrow> args \<Rightarrow> path" where
  "skill_dir U E a = target_dir E a @ (if a_stage a then [pending] else []) @ [used_name U a]"

definition finish_report ::
    "unidb \<Rightarrow> env \<Rightarrow> args \<Rightarrow> (pystr \<times> repair) list \<Rightarrow> node \<Rightarrow> report" where
  "finish_report U E a repairs fs =
     \<lparr>r_status = (if a_stage a then Staged else Created), r_name = used_name U a,
      r_path = Some (skill_dir U E a @ [skill_md]), r_repairs = repairs,
      r_dups = near_duplicates U E fs (target_dir E a) (used_name U a) (used_desc a)\<rparr>"

definition finish_io :: "unidb \<Rightarrow> env \<Rightarrow> args \<Rightarrow> report \<Rightarrow> report io" where
  "finish_io U E a r =
     (if a_stage a
      then bindio (open_append (queue_path E a) (queue_line E (used_name U a) (used_trigger U a) (used_desc a)))
             (\<lambda>_. retio r)
      else retio r)"

lemma gentle_finish: "gentle (queue_path E a) (finish_io U E a r)"
  unfolding finish_io_def by (auto intro!: gentle_bind gentle_append gentle_ret)

definition rendered_for :: "unidb \<Rightarrow> env \<Rightarrow> args \<Rightarrow> pystr \<Rightarrow> pystr" where
  "rendered_for U E a body =
     render E (used_name U a) (used_desc a) body (used_trigger U a) (used_source E a) (used_category U a)"

definition hash_for :: "unidb \<Rightarrow> env \<Rightarrow> args \<Rightarrow> pystr \<Rightarrow> pystr" where
  "hash_for U E a body = body_hash E (body_text (used_name U a) (used_desc a) body)"

lemma write_skill_store:
  "write_skill U E a (used_name U a) (used_desc a) (used_trigger U a) (used_source E a)
     (used_category U a) body repairs fs
   = store_at (a_force a) (used_name U a) (skill_dir U E a) (rendered_for U E a body)
       (hash_for U E a body) (finish_io U E a (finish_report U E a repairs fs)) fs"
  by (simp add: write_skill_def Let_def store_at_def skill_dir_def rendered_for_def hash_for_def
      finish_io_def finish_report_def queue_path_def target_dir_def [symmetric])

lemma create_gentle:
  assumes "\<not> a_force a" and "\<forall>q. resolve fs link_limit [] (queue_path E a) = Some q \<longrightarrow> q \<in> Q"
  shows "appends Q fs (fst (cmd_create U E a fs))" "same_links fs (fst (cmd_create U E a fs))"
proof -
  have "appends Q fs (fst (cmd_create U E a fs)) \<and> same_links fs (fst (cmd_create U E a fs))"
  proof (cases U E a fs rule: cmd_create_cases)
    case (invalid r)
    then show ?thesis by (simp add: grows_appends)
  next
    case (accepted body)
    show ?thesis
      unfolding accepted(3) write_skill_store
      using gentle_store_at [OF gentle_finish] assms by (simp add: gentle_def)
  qed
  then show "appends Q fs (fst (cmd_create U E a fs))" "same_links fs (fst (cmd_create U E a fs))" by auto
qed

text \<open>Outside staging there is no append: the tree only gains entries.\<close>

lemma appends_empty_grows: "appends {} fs fs' \<Longrightarrow> grows fs fs'"
  unfolding grows_def
proof (intro allI impI)
  fix q n
  assume a: "appends {} fs fs'" and "tget fs q = Some n"
  then show "if is_dir n then dir_at fs' q else tget fs' q = Some n"
    using appendsD [OF a] by (cases n) (auto simp: dir_at_def)
qed

lemma grows_excl_or:
  "(\<And>fs. grows fs (fst (won fs))) \<Longrightarrow> (\<And>fs. grows fs (fst (lost fs))) \<Longrightarrow> grows fs (fst (excl_or dest t won lost fs))"
  unfolding excl_or_bind
  by (intro grows_bindio) (simp_all add: fst_try_excl open_excl_def grows_create_at)

lemma create_live_grows:
  assumes "\<not> a_force a" "\<not> a_stage a"
  shows "grows fs (fst (cmd_create U E a fs))"
proof (cases U E a fs rule: cmd_create_cases)
  case (accepted body)
  have rec: "grows s (fst (reconcile False n d r h (finish_io U E a p) s))" for n d r h p s
    unfolding reconcile_def by (rule grows_bindio) (auto simp: retio_def)
  have fin: "grows s (fst (finish_io U E a p s))" for p s
    using assms by (simp add: finish_io_def retio_def)
  show ?thesis
    unfolding accepted(3) write_skill_store store_at_def using assms
    by (auto intro!: grows_bindio grows_makedirs grows_excl_or rec fin)
qed simp

text \<open>Whatever the outcome, files keep their content; only the staging queue may grow, at its end.\<close>

lemma create_appends_only:
  assumes "\<not> a_force a" "tget fs q = Some (File t)"
  shows "\<exists>u. tget (fst (cmd_create U E a fs)) q = Some (File (t @ u))
     \<and> (u = [] \<or> (a_stage a \<and> resolve fs link_limit [] (queue_path E a) = Some q))"
proof (cases "a_stage a")
  case True
  have "appends {q. resolve fs link_limit [] (queue_path E a) = Some q} fs (fst (cmd_create U E a fs))"
    by (rule create_gentle(1) [OF assms(1)]) simp
  from appendsD(1) [OF this assms(2)] True show ?thesis by auto
next
  case False
  from growsD [OF create_live_grows [OF assms(1) False] assms(2)] show ?thesis
    by (intro exI [of _ "[]"]) simp
qed

section \<open>What is there afterwards\<close>

lemma used_name_kebab: "kebab_form (used_name U a)"
  by (simp add: used_name_def kebab_kebab_form)

lemma used_category_kebab: "kebab_form (used_category U a)"
  by (simp add: used_category_def kebab_kebab_form)

lemma kebab_plain: "kebab_form n \<Longrightarrow> n \<noteq> [] \<Longrightarrow> plain_name n"
  by (auto simp: plain_name_def kebab_form_def list_all_iff kebab_cp_def is_lodi_def is_lower_def
      is_digit_def lit_simps)

lemma skill_md_plain [simp]: "plain_name skill_md"
  by (simp add: plain_name_def skill_md_def)

lemma skill_dir_snoc: "\<exists>d. skill_dir U E a = d @ [used_name U a]"
  by (simp add: skill_dir_def)

lemma inputs_valid_plain: "inputs_valid U E a \<Longrightarrow> plain_name (used_name U a)"
  using used_name_kebab [of U a] by (auto simp: inputs_valid_def intro!: kebab_plain)

text \<open>A created skill can be read back at its path.\<close>

lemma created_stat:
  assumes "cmd_create U E a fs = (fs', Inr r)" "r_status r = Created" "\<not> a_force a"
  shows "\<exists>body. inputs_valid U E a \<and> given_body a fs = Inr body \<and> \<not> a_stage a
     \<and> isdir fs' (skill_dir U E a)
     \<and> stat fs' (skill_dir U E a @ [skill_md]) = Some (File (rendered_for U E a body))"
proof (cases U E a fs rule: cmd_create_cases)
  case (invalid x)
  with assms show ?thesis by (auto simp: plain_report_def)
next
  case (accepted body)
  let ?d = "skill_dir U E a" and ?t = "rendered_for U E a body" and ?h = "hash_for U E a body"
  let ?fin = "finish_io U E a (finish_report U E a (repairs_of U a) fs)"
  have run: "store_at False (used_name U a) ?d ?t ?h ?fin fs = (fs', Inr r)"
    using accepted(3) assms(1,3) by (simp add: write_skill_store)
  then obtain fs1 where mk: "makedirs True ?d fs = (fs1, Inr ())"
      and ex: "excl_or (?d @ [skill_md]) ?t ?fin (reconcile False (used_name U a) (?d @ [skill_md]) ?t ?h ?fin) fs1 = (fs', Inr r)"
    by (auto simp: store_at_def bindio_def split: prod.splits sum.splits)
  have not_rec: "reconcile False n d t h f s \<noteq> (fs', Inr r)" for n d t h f s
    using assms(2) by (auto simp: reconcile_def bindio_def retio_def plain_report_def split: prod.splits sum.splits if_splits)
  have won: "\<exists>fs2. open_excl (?d @ [skill_md]) ?t fs1 = (fs2, Inr ()) \<and> ?fin fs2 = (fs', Inr r)"
    using ex not_rec by (auto simp: excl_or_def split: prod.splits sum.splits oserror.splits)
  then obtain fs2 where op: "open_excl (?d @ [skill_md]) ?t fs1 = (fs2, Inr ())" and fin: "?fin fs2 = (fs', Inr r)"
    by blast
  have live: "\<not> a_stage a"
    using fin assms(2) by (auto simp: finish_io_def finish_report_def bindio_def retio_def split: if_splits prod.splits sum.splits)
  then have same: "fs2 = fs'" using fin by (simp add: finish_io_def retio_def)
  obtain d0 where d0: "?d = d0 @ [used_name U a]" using skill_dir_snoc by blast
  have "isdir fs1 ?d" using mk d0 inputs_valid_plain [OF accepted(1)] makedirs_isdir by metis
  then have "isdir fs' ?d"
    using op same grows_create_at [of fs1] same_links_create_at [of _ fs1] isdir_kept
    unfolding open_excl_def by (metis fst_conv)
  moreover have "stat fs' (?d @ [skill_md]) = Some (File ?t)"
    using create_at_stat [of ?d skill_md "File ?t" fs1 fs'] op same by (simp add: open_excl_def)
  ultimately show ?thesis using accepted live by blast
qed

text \<open>With the skill's file in place, the outcome is decided by the hash in its head.\<close>

lemma create_present:
  assumes "inputs_valid U E a" "given_body a fs = Inr body" "isdir fs (skill_dir U E a)"
    and "stat fs (skill_dir U E a @ [skill_md]) = Some (File t)"
  shows "cmd_create U E a fs =
     (let dest = skill_dir U E a @ [skill_md];
          fin = finish_io U E a (finish_report U E a (repairs_of U a) fs)
      in if map_of (fst (read_frontmatter (univ_nl t))) (lit ''content_hash'') = Some (hash_for U E a body)
         then (fs, Inr (plain_report ExistsIdentical (used_name U a) (Some dest)))
         else if \<not> a_force a then (fs, Inr (plain_report RefusedConflict (used_name U a) (Some dest)))
         else bindio (open_write dest (rendered_for U E a body)) (\<lambda>_. fin) fs)"
proof -
  obtain d0 where d0: "skill_dir U E a = d0 @ [used_name U a]" using skill_dir_snoc by blast
  have "makedirs True (skill_dir U E a) fs = (fs, Inr ())"
    using makedirs_present assms(3) inputs_valid_plain [OF assms(1)] d0 by metis
  moreover have "open_excl (skill_dir U E a @ [skill_md]) (rendered_for U E a body) fs = (fs, Inl FileExists)"
    using open_excl_present assms(4) by simp
  ultimately show ?thesis
    unfolding cmd_create_valid [OF assms(1,2)] write_skill_store
    by (simp add: store_at_def bindio_def excl_or_def reconcile_def read_text_File [OF assms(4)] retio_def Let_def)
qed

section \<open>Creating twice\<close>

text \<open>The caller's text that the head can carry: the description without three dashes in a row, the
  creator on one line and without them too.\<close>

definition texts_ok :: "env \<Rightarrow> args \<Rightarrow> bool" where
  "texts_ok E a \<longleftrightarrow> \<not> contains dashes (used_desc a) \<and> one_line (used_source E a)
     \<and> \<not> contains dashes (used_source E a)"

lemma texts_fields:
  assumes "inputs_valid U E a" "texts_ok E a"
  shows "stamp_ok (used_name U a)" "text_ok (used_desc a)" "text_ok (used_trigger U a)"
    "text_ok (used_source E a)" "text_ok (used_category U a)"
proof -
  show "stamp_ok (used_name U a)" by (rule kebab_stamp [OF used_name_kebab])
  show "text_ok (used_category U a)" by (rule kebab_text [OF used_category_kebab])
  show "text_ok (used_trigger U a)"
    using assms(1) by (auto simp: inputs_valid_def intro!: kebab_text valid_trigger_kebab)
  show "text_ok (used_desc a)" "text_ok (used_source E a)"
    using assms(2) fit_desc_one_line [of "a_desc a"] fit_desc_trimmed [of "a_desc a"]
    by (auto simp: texts_ok_def text_ok_def used_desc_def used_source_def)
qed

lemma rendered_read:
  assumes "inputs_valid U E a" "env_ok E" "texts_ok E a"
  shows "read_frontmatter (univ_nl (rendered_for U E a body)) =
     (head_values E (used_name U a) (used_desc a) (used_trigger U a) (used_source E a) (used_category U a)
        (body_text (used_name U a) (used_desc a) body),
      lstrip_by (\<lambda>c. c = newline) (univ_nl (py_rstrip (body_text (used_name U a) (used_desc a) body) @ [newline])))"
  unfolding rendered_for_def by (intro read_rendered [OF assms(2) _ _ _ _ _ refl] texts_fields [OF assms(1,3)])

lemma head_values_hash:
  "map_of (head_values E name desc trigger source category b) (lit ''content_hash'') = Some (body_hash E b)"
  by (simp add: head_values_def head_keys_def)

text \<open>A later environment with the same variables and hash function, at another time and session.\<close>

definition same_setting :: "env \<Rightarrow> env \<Rightarrow> bool" where
  "same_setting E E' \<longleftrightarrow> env_home E' = env_home E \<and> env_dir E' = env_dir E
     \<and> env_source E' = env_source E \<and> env_sha E' = env_sha E"

lemma same_setting_used:
  assumes "same_setting E E'"
  shows "inputs_valid U E' a = inputs_valid U E a" "skill_dir U E' a = skill_dir U E a"
    "hash_for U E' a body = hash_for U E a body"
  using assms by (simp_all add: same_setting_def inputs_valid_def used_source_def skill_dir_def
      target_dir_def default_dir_def home_skills_def hash_for_def body_hash_def cong: option.case_cong)

lemma create_again:
  assumes "cmd_create U E a fs = (fs', Inr r)" "r_status r = Created" "\<not> a_force a"
    and "env_ok E" "texts_ok E a" "same_setting E E'"
  shows "cmd_create U E' a fs' =
     (fs', Inr (plain_report ExistsIdentical (used_name U a) (Some (skill_dir U E a @ [skill_md]))))"
proof -
  from created_stat [OF assms(1-3)] obtain body where b: "inputs_valid U E a" "given_body a fs = Inr body"
      "\<not> a_stage a" "isdir fs' (skill_dir U E a)"
      "stat fs' (skill_dir U E a @ [skill_md]) = Some (File (rendered_for U E a body))" by blast
  have g: "grows fs fs'" using create_live_grows [OF assms(3) b(3), of fs U E] assms(1) by simp
  have "same_links fs fs'" using create_gentle(2) [OF assms(3), of fs E UNIV U] assms(1) by simp
  with g b(2) have body': "given_body a fs' = Inr body"
    by (auto simp: given_body_def read_text_kept split: option.splits)
  note same = same_setting_used [OF assms(6)]
  have "cmd_create U E' a fs' = (let dest = skill_dir U E' a @ [skill_md];
          fin = finish_io U E' a (finish_report U E' a (repairs_of U a) fs')
      in if map_of (fst (read_frontmatter (univ_nl (rendered_for U E a body)))) (lit ''content_hash'') = Some (hash_for U E' a body)
         then (fs', Inr (plain_report ExistsIdentical (used_name U a) (Some dest)))
         else if \<not> a_force a then (fs', Inr (plain_report RefusedConflict (used_name U a) (Some dest)))
         else bindio (open_write dest (rendered_for U E' a body)) (\<lambda>_. fin) fs')"
    using b body' by (intro create_present) (simp_all add: same)
  moreover have "map_of (fst (read_frontmatter (univ_nl (rendered_for U E a body)))) (lit ''content_hash'')
      = Some (hash_for U E' a body)"
    unfolding same(3) by (simp add: rendered_read [OF b(1) assms(4,5)] head_values_hash hash_for_def)
  ultimately show ?thesis by (simp add: same Let_def)
qed

section \<open>A fresh name\<close>

lemma create_fresh:
  assumes "inputs_valid U E a" "given_body a fs = Inr body" "\<not> a_stage a"
    and "dir_at fs (target_dir E a)" "plain_path (target_dir E a)" "tget fs (skill_dir U E a) = None"
  shows "cmd_create U E a fs =
     (tput (skill_dir U E a @ [skill_md]) (File (rendered_for U E a body)) (tput (skill_dir U E a) (Dir []) fs),
      Inr (finish_report U E a (repairs_of U a) fs))"
proof -
  let ?D = "target_dir E a" and ?n = "used_name U a"
  have sd: "skill_dir U E a = ?D @ [?n]" using assms(3) by (simp add: skill_dir_def)
  have pl: "plain_name ?n" using assms(1) by (rule inputs_valid_plain)
  let ?fs = "tput (?D @ [?n]) (Dir []) fs"
  have self: "tget ?fs (?D @ [?n]) = Some (Dir [])" using assms(4) by (intro tget_tput_self) simp
  then have "dir_at ?fs (?D @ [?n])" by (simp add: dir_at_def)
  moreover have "plain_path (?D @ [?n])" using assms(5) pl by simp
  moreover have "tget ?fs ((?D @ [?n]) @ [skill_md]) = None" using self by (subst tget_append) simp
  ultimately have "open_excl (skill_dir U E a @ [skill_md]) t ?fs = (tput (skill_dir U E a @ [skill_md]) (File t) ?fs, Inr ())" for t
    by (simp add: open_excl_def create_at_def lplace_child sd del: append_assoc)
  moreover have "makedirs True (skill_dir U E a) fs = (tput (skill_dir U E a) (Dir []) fs, Inr ())"
    unfolding sd using assms(4-6) pl by (intro makedirs_child) (simp_all add: sd)
  ultimately show ?thesis
    unfolding cmd_create_valid [OF assms(1,2)] write_skill_store
    using assms(3) by (simp add: store_at_def bindio_def excl_or_def finish_io_def retio_def sd)
qed

section \<open>What the other commands see\<close>

lemma set_univ_nl: "x \<in> set s \<Longrightarrow> x \<noteq> 13 \<Longrightarrow> x \<noteq> 10 \<Longrightarrow> x \<in> set (univ_nl s)"
proof (induction s rule: induct_list012)
  case (3 y z zs)
  show ?case
  proof (cases "y = 13 \<and> z = 10")
    case True
    with 3 show ?thesis by simp
  next
    case False
    then have "univ_nl (y # z # zs) = (if y = 13 then 10 else y) # univ_nl (z # zs)" by simp
    with 3 show ?thesis by (auto simp del: univ_nl.simps)
  qed
qed simp_all

lemma strip_ne_iff: "py_strip s \<noteq> [] \<longleftrightarrow> (\<exists>x\<in>set s. \<not> is_space x)"
  by (auto simp: py_strip_def strip_by_Nil_iff)

lemma read_body_ne:
  assumes "py_strip b \<noteq> []"
  shows "py_strip (lstrip_by (\<lambda>c. c = newline) (univ_nl (py_rstrip b @ [newline]))) \<noteq> []"
proof -
  from assms obtain x where x: "x \<in> set b" "\<not> is_space x" by (auto simp: strip_ne_iff)
  then have ne: "x \<noteq> 13" "x \<noteq> 10" by (auto simp: is_space_def)
  have "x \<in> set (py_rstrip b)"
    using x rstrip_by_decomp [of b is_space] by (auto simp: py_rstrip_def) (metis UnE set_append)
  with ne have u: "x \<in> set (univ_nl (py_rstrip b @ [newline]))" by (intro set_univ_nl) auto
  obtain p where "univ_nl (py_rstrip b @ [newline]) = p @ lstrip_by (\<lambda>c. c = newline) (univ_nl (py_rstrip b @ [newline]))"
      "\<forall>y\<in>set p. y = newline" using lstrip_by_decomp by blast
  with u ne have "x \<in> set (lstrip_by (\<lambda>c. c = newline) (univ_nl (py_rstrip b @ [newline])))"
    by (metis UnE set_append)
  with x show ?thesis by (auto simp: strip_ne_iff)
qed

lemma body_text_ne: "py_strip (body_text n d b) \<noteq> []"
proof (cases "py_strip b = []")
  case True
  have "35 \<in> set (default_body n d)" by (simp add: default_body_def lit_simps)
  moreover have "\<not> is_space 35" by (simp add: is_space_def)
  ultimately have "py_strip (default_body n d) \<noteq> []" unfolding strip_ne_iff by blast
  with True show ?thesis by (simp add: body_text_def)
qed (simp add: body_text_def)

lemma rendered_valid:
  assumes "inputs_valid U E a" "env_ok E" "texts_ok E a"
  shows "validate_text (univ_nl (rendered_for U E a body)) = []"
proof -
  have "re_match no_word NAME_RE (used_name U a) \<noteq> None"
    using assms(1) name_valid_iff [of U a] by (simp add: inputs_valid_def)
  moreover have "used_name U a \<noteq> []" "used_desc a \<noteq> []" using assms(1) by (auto simp: inputs_valid_def)
  ultimately show ?thesis
    using read_body_ne [OF body_text_ne]
    by (simp add: validate_text_def Let_def rendered_read [OF assms] dget_def head_values_def head_keys_def)
qed

definition listed_as :: "unidb \<Rightarrow> env \<Rightarrow> args \<Rightarrow> listed" where
  "listed_as U E a =
     \<lparr>l_name = used_name U a, l_desc = used_desc a, l_created_at = env_now E,
      l_trigger = used_trigger U a, l_category = used_category U a, l_created_by = used_source E a,
      l_path = target_dir E a @ [used_name U a, skill_md]\<rparr>"

lemma kebab_not_hidden: "kebab_form n \<Longrightarrow> \<not> prefix (lit ''.'') n"
  by (cases n) (auto simp: kebab_form_def kebab_cp_def is_lodi_def is_lower_def is_digit_def lit_simps)

lemma rendered_listed:
  assumes "inputs_valid U E a" "env_ok E" "texts_ok E a"
    and "stat fs (target_dir E a @ [used_name U a, skill_md]) = Some (File (rendered_for U E a body))"
  shows "list_entry fs (target_dir E a) (used_name U a) = Inr [listed_as U E a]"
  using assms(4) kebab_not_hidden [OF used_name_kebab [of U a]]
  by (simp add: list_entry_def Let_def isfile_def read_text_File rendered_read [OF assms(1-3)]
      dget_def head_values_def head_keys_def listed_as_def)

lemma collect_entries_mem:
  "collect_entries f xs = Inr zs \<Longrightarrow> x \<in> set xs \<Longrightarrow> \<exists>ys. f x = Inr ys \<and> set ys \<subseteq> set zs"
  by (induction xs arbitrary: zs) (auto split: sum.splits, blast)

lemma stat_parent:
  assumes "stat fs (d @ [c]) \<noteq> None" "plain_name c"
  shows "\<exists>cs n. stat fs d = Some (Dir cs) \<and> (c, n) \<in> set cs"
proof -
  from child_exists [OF assms] obtain s where s: "resolve fs link_limit [] d = Some s" "dir_at fs s"
      "tget fs (s @ [c]) \<noteq> None" by blast
  then obtain cs where cs: "tget fs s = Some (Dir cs)" by (auto elim: dir_atE)
  with s(3) obtain n where "map_of cs c = Some n" by (auto simp: tget_append split: option.splits)
  with s(1) cs show ?thesis by (auto simp: stat_def dest: map_of_SomeD)
qed

lemma listing_mem:
  assumes "stat fs (d @ [c]) \<noteq> None" "plain_name c"
  shows "\<exists>es. listing fs d = Some es \<and> c \<in> set es"
  using stat_parent [OF assms] by (auto simp: listing_def image_iff) force

text \<open>Where the created file is found by the commands.\<close>

lemma created_listing:
  assumes "isdir fs' (skill_dir U E a)" "inputs_valid U E a" "\<not> a_stage a"
  shows "isdir fs' (target_dir E a) \<and> (\<exists>es. listing fs' (target_dir E a) = Some es \<and> used_name U a \<in> set es)"
proof -
  have st: "stat fs' (target_dir E a @ [used_name U a]) \<noteq> None"
    using assms(1,3) by (auto simp: isdir_def skill_dir_def split: option.splits)
  from stat_parent [OF st inputs_valid_plain [OF assms(2)]] have "isdir fs' (target_dir E a)"
    by (auto simp: isdir_def)
  with listing_mem [OF st inputs_valid_plain [OF assms(2)]] show ?thesis by simp
qed

end
