(* ===== verification/Py_Json.thy ===== *)
theory Py_Json
  imports Oracle_Prelude Complex_Main
begin

text \<open>
  Values of Python's \<^verbatim>\<open>json\<close> module as the scripts receive them. Parsing is done by the standard library; the
  scripts see the parsed value or an exception. YAML gives the same values and a few more (dates, sets,
  bytes): \<open>JOther\<close> is one of these, with its truth value and the text \<^verbatim>\<open>str\<close> gives of it.
\<close>

datatype json = JNull | JBool bool | JNum rat | JStr pystr | JArr "json list" | JObj "(pystr \<times> json) list"
  | JOther bool pystr

text \<open>Python's truth value, and \<^verbatim>\<open>x or y\<close>.\<close>

fun truthy :: "json \<Rightarrow> bool" where
  "truthy JNull = False"
| "truthy (JBool b) = b"
| "truthy (JNum n) = (n \<noteq> 0)"
| "truthy (JStr s) = (s \<noteq> [])"
| "truthy (JArr xs) = (xs \<noteq> [])"
| "truthy (JObj kvs) = (kvs \<noteq> [])"
| "truthy (JOther b s) = b"

definition jor :: "json \<Rightarrow> json \<Rightarrow> json" where
  "jor a b = (if truthy a then a else b)"

text \<open>\<^verbatim>\<open>x.get(k)\<close> gives \<^verbatim>\<open>None\<close> for a missing key and raises on anything but a dictionary.\<close>

definition jget :: "(pystr \<times> json) list \<Rightarrow> pystr \<Rightarrow> json" where
  "jget kvs k = (case map_of kvs k of None \<Rightarrow> JNull | Some v \<Rightarrow> v)"

fun jdict :: "json \<Rightarrow> (pystr \<times> json) list option" where
  "jdict (JObj kvs) = Some kvs"
| "jdict _ = None"

fun jstr :: "json \<Rightarrow> pystr option" where
  "jstr (JStr s) = Some s"
| "jstr _ = None"

text \<open>
  \<^verbatim>\<open>dict(x)\<close> takes a dictionary, or a list of pairs: lists, strings or dictionaries of length two. Its keys can be
  any hashable values, of which \<^verbatim>\<open>True\<close> and \<open>1\<close> are the same; \<open>key_text\<close> is what \<^verbatim>\<open>json.dumps\<close> makes of one, with
  the digits of a number as a parameter.
\<close>

type_synonym pdict = "(json \<times> json) list"

definition hashable :: "json \<Rightarrow> bool" where
  "hashable j = (case j of JArr _ \<Rightarrow> False | JObj _ \<Rightarrow> False | _ \<Rightarrow> True)"

definition as_key :: "json \<Rightarrow> json" where
  "as_key k = (case k of JBool b \<Rightarrow> JNum (if b then 1 else 0) | _ \<Rightarrow> k)"

fun put_key :: "json \<Rightarrow> json \<Rightarrow> pdict \<Rightarrow> pdict" where
  "put_key k v [] = [(k, v)]"
| "put_key k v ((k', v') # d) = (if as_key k' = as_key k then (k', v) # d else (k', v') # put_key k v d)"

fun get_key :: "json \<Rightarrow> pdict \<Rightarrow> json option" where
  "get_key k [] = None"
| "get_key k ((k', v) # d) = (if as_key k' = as_key k then Some v else get_key k d)"

definition pair_of :: "json \<Rightarrow> (json \<times> json) option" where
  "pair_of x = (case x of
      JArr [k, v] \<Rightarrow> Some (k, v)
    | JStr [a, b] \<Rightarrow> Some (JStr [a], JStr [b])
    | JObj [(a, _), (b, _)] \<Rightarrow> Some (JStr a, JStr b)
    | _ \<Rightarrow> None)"

fun put_pairs :: "json list \<Rightarrow> pdict \<Rightarrow> pdict option" where
  "put_pairs [] d = Some d"
| "put_pairs (x # xs) d =
     (case pair_of x of
        None \<Rightarrow> None
      | Some (k, v) \<Rightarrow> if hashable k then put_pairs xs (put_key k v d) else None)"

definition py_dict :: "json \<Rightarrow> pdict option" where
  "py_dict x = (case x of
      JObj kvs \<Rightarrow> Some (map (\<lambda>(k, v). (JStr k, v)) kvs)
    | JArr xs \<Rightarrow> put_pairs xs []
    | JStr s \<Rightarrow> if s = [] then Some [] else None
    | _ \<Rightarrow> None)"

definition key_text :: "(json \<Rightarrow> pystr) \<Rightarrow> json \<Rightarrow> pystr" where
  "key_text K k = (case k of
      JStr s \<Rightarrow> s
    | JBool b \<Rightarrow> if b then lit ''true'' else lit ''false''
    | JNull \<Rightarrow> lit ''null''
    | _ \<Rightarrow> K k)"

definition dict_json :: "(json \<Rightarrow> pystr) \<Rightarrow> pdict \<Rightarrow> json" where
  "dict_json K d = JObj (map (\<lambda>(k, v). (key_text K k, v)) d)"

lemma get_put: "get_key k (put_key k' v d) = (if as_key k = as_key k' then Some v else get_key k d)"
  by (induction d) auto

lemma as_key_str [simp]: "as_key (JStr s) = JStr s" "as_key k = JStr s \<longleftrightarrow> k = JStr s"
  by (auto simp: as_key_def split: json.split)

text \<open>\<^verbatim>\<open>str(v)\<close>; the text of a number, a list or a dictionary is the standard library's, a parameter.\<close>

fun py_str :: "(json \<Rightarrow> pystr) \<Rightarrow> json \<Rightarrow> pystr" where
  "py_str R JNull = lit ''None''"
| "py_str R (JBool b) = (if b then lit ''True'' else lit ''False'')"
| "py_str R (JStr s) = s"
| "py_str R (JOther b s) = s"
| "py_str R v = R v"

text \<open>\<^verbatim>\<open>_as_dict\<close> and \<^verbatim>\<open>_as_list\<close>: anything that is not a dictionary counts as the empty one, anything but a
  list as a list of itself.\<close>

definition as_dict :: "json \<Rightarrow> (pystr \<times> json) list" where
  "as_dict v = (case v of JObj kvs \<Rightarrow> kvs | _ \<Rightarrow> [])"

definition as_list :: "json \<Rightarrow> json list" where
  "as_list v = (case v of JNull \<Rightarrow> [] | JArr xs \<Rightarrow> xs | _ \<Rightarrow> [v])"

text \<open>The first of some keys that holds a non-blank string, stripped.\<close>

fun first_string :: "(pystr \<times> json) list \<Rightarrow> pystr list \<Rightarrow> pystr option" where
  "first_string p [] = None"
| "first_string p (k # ks) =
     (case jget p k of
        JStr s \<Rightarrow> if py_strip s \<noteq> [] then Some (py_strip s) else first_string p ks
      | _ \<Rightarrow> first_string p ks)"

lemma first_string_Some: "first_string p ks = Some s \<Longrightarrow> s \<noteq> [] \<and> (\<exists>k t. k \<in> set ks \<and> jget p k = JStr t \<and> s = py_strip t)"
  by (induction p ks rule: first_string.induct) (auto split: json.splits if_splits)

end
