(* ===== verification/Mcp_Frontmatter.thy ===== *)
theory Mcp_Frontmatter
  imports Writer_Store Py_Json
begin

text \<open>
  The frontmatter of \<^verbatim>\<open>skills-mcp/server.py\<close>: the reader with its YAML parser and its flat fallback, and the
  in-place editing of a head by \<^verbatim>\<open>skill_patch\<close>. The YAML parser is a parameter: \<open>None\<close> when PyYAML is not
  installed, otherwise what \<^verbatim>\<open>yaml.safe_load\<close> gives for a block.
\<close>

datatype yaml_result = YError | YMapping "(json \<times> json) list" | YNoMapping

type_synonym yaml = "(pystr \<Rightarrow> yaml_result) option"

datatype fm_fault = NoFence | NeverCloses | NoYaml | YamlError | NotAMapping

section \<open>Reading\<close>

fun fence :: "pystr list \<Rightarrow> (pystr list \<times> pystr list) option" where
  "fence [] = None"
| "fence (l # ls) =
     (if py_strip l = dashes then Some ([], ls) else map_option (\<lambda>(a, b). (l # a, b)) (fence ls))"

abbreviation drop_newlines :: "pystr \<Rightarrow> pystr" where
  "drop_newlines \<equiv> lstrip_by (\<lambda>c. c = newline)"

definition split_head :: "pystr \<Rightarrow> fm_fault + pystr list \<times> pystr" where
  "split_head text =
     (if \<not> prefix dashes text then Inl NoFence
      else case fence (tl (splitlines text)) of
             None \<Rightarrow> Inl NeverCloses
           | Some (fm, rest) \<Rightarrow> Inr (fm, drop_newlines (py_join [newline] rest)))"

definition flat_value :: "pystr \<Rightarrow> pystr" where
  "flat_value val =
     (if 2 \<le> length val \<and> hd val = last val \<and> hd val \<in> {dquote, quote}
      then (if hd val = quote then replace_all [quote, quote] [quote] (butlast (tl val)) else butlast (tl val))
      else val)"

definition flat_step :: "pydict \<Rightarrow> pystr \<Rightarrow> pydict" where
  "flat_step fm raw =
     (if py_strip raw = [] \<or> py_lstrip raw \<noteq> raw then fm
      else if colon \<notin> set raw then fm
      else AList.update (py_strip (before_cp colon raw)) (flat_value (py_strip (after_cp colon raw))) fm)"

definition flat_fields :: "pystr \<Rightarrow> pydict" where
  "flat_fields block = foldl flat_step [] (splitlines block)"

definition str_keys :: "(json \<Rightarrow> pystr) \<Rightarrow> (json \<times> json) list \<Rightarrow> (pystr \<times> json) list" where
  "str_keys R kvs = foldl (\<lambda>d (k, v). AList.update (py_str R k) v d) [] kvs"

definition split_frontmatter_ex ::
    "(json \<Rightarrow> pystr) \<Rightarrow> yaml \<Rightarrow> pystr \<Rightarrow> (pystr \<times> json) list \<times> pystr \<times> fm_fault option" where
  "split_frontmatter_ex R Y text =
     (case split_head text of
        Inl e \<Rightarrow> ([], text, Some e)
      | Inr (ls, body) \<Rightarrow>
          (let block = py_join [newline] ls;
               flat = map (\<lambda>(k, v). (k, JStr v)) (flat_fields block)
           in case Y of
                None \<Rightarrow> (flat, body, Some NoYaml)
              | Some y \<Rightarrow>
                  (case y block of
                     YError \<Rightarrow> (flat, body, Some YamlError)
                   | YMapping kvs \<Rightarrow> (str_keys R kvs, body, None)
                   | YNoMapping \<Rightarrow> (flat, body, Some NotAMapping))))"

definition raw_frontmatter :: "pystr \<Rightarrow> pystr list \<times> pystr" where
  "raw_frontmatter text = (case split_head text of Inl e \<Rightarrow> ([], text) | Inr r \<Rightarrow> r)"

section \<open>Editing a head\<close>

definition mcp_yaml_scalar :: "pystr \<Rightarrow> pystr" where
  "mcp_yaml_scalar v =
     [quote] @ replace_cp quote [quote, quote] (py_strip (replace_cp 13 [blank] (replace_cp newline [blank] v))) @ [quote]"

definition is_key :: "pystr \<Rightarrow> pystr \<Rightarrow> bool" where
  "is_key key l \<longleftrightarrow> py_strip l = l \<and> (l = key @ [colon] \<or> prefix (key @ [colon]) l)"

definition key_value :: "bool \<Rightarrow> pystr \<Rightarrow> pystr" where
  "key_value quoted v =
     (if quoted then mcp_yaml_scalar v else replace_cp 13 [blank] (replace_cp newline [blank] v))"

definition set_fm_key :: "pystr list \<Rightarrow> pystr \<Rightarrow> pystr \<Rightarrow> bool \<Rightarrow> pystr list" where
  "set_fm_key fm key v quoted =
     (let new = key @ [colon, blank] @ key_value quoted v;
          out = map (\<lambda>l. if is_key key l then new else l) fm
      in if list_ex (is_key key) fm then out else out @ [new])"

text \<open>The text \<^verbatim>\<open>skill_patch\<close> writes: the head with its three provenance keys, then the new body.\<close>

definition stamp_keys :: "pystr list \<Rightarrow> pystr \<Rightarrow> pystr \<Rightarrow> pystr \<Rightarrow> pystr list" where
  "stamp_keys fm hash now source =
     set_fm_key (set_fm_key (set_fm_key fm (lit ''content_hash'') hash False)
       (lit ''edited_at'') now False) (lit ''edited_by'') source True"

definition patched_text :: "pystr list \<Rightarrow> pystr \<Rightarrow> pystr" where
  "patched_text fm body =
     (let t = (if fm \<noteq> [] then dashes @ [newline] @ py_join [newline] fm @ [newline] @ dashes @ [newline] @ body
               else body)
      in if suffix [newline] t then t else t @ [newline])"

section \<open>Laws\<close>

lemma mcp_scalar_same: "mcp_yaml_scalar v = yaml_scalar (Some v)"
  by (simp add: mcp_yaml_scalar_def yaml_scalar_def flat_text_def)

lemma flat_step_same: "flat_step fm raw = fm_step fm raw"
proof -
  have "flat_value = unquote" unfolding flat_value_def unquote_def Let_def by (rule refl)
  then show ?thesis by (simp add: flat_step_def fm_step_def)
qed

lemma fence_at:
  "list_all (\<lambda>l. py_strip l \<noteq> dashes) fm \<Longrightarrow> py_strip l = dashes \<Longrightarrow> fence (fm @ l # ls) = Some (fm, ls)"
  by (induction fm) auto

lemma fence_Some:
  "fence ls = Some (fm, rest) \<Longrightarrow>
   list_all (\<lambda>l. py_strip l \<noteq> dashes) fm \<and> (\<exists>l. py_strip l = dashes \<and> ls = fm @ l # rest)"
proof (induction ls arbitrary: fm)
  case (Cons a ls)
  then show ?case by (cases "py_strip a = dashes") (fastforce+)
qed simp

lemma split_head_lines:
  assumes "split_head text = Inr (fm, body)"
  shows "list_all (\<lambda>l. one_line l \<and> py_strip l \<noteq> dashes) fm"
proof -
  from assms obtain rest where "fence (tl (splitlines text)) = Some (fm, rest)"
    by (auto simp: split_head_def split: if_splits option.splits)
  then obtain l where "list_all (\<lambda>l. py_strip l \<noteq> dashes) fm" "tl (splitlines text) = fm @ l # rest"
    using fence_Some by blast
  moreover from this(2) have "x \<in> set (splitlines text)" if "x \<in> set fm" for x
    using that by (metis list.set_sel(2) UnCI set_append tl_Nil append_is_Nil_conv list.distinct(1))
  ultimately show ?thesis using splitlines_lines by (auto simp: list_all_iff)
qed

lemma suffix_single: "suffix [c] s \<longleftrightarrow> s \<noteq> [] \<and> last s = c"
  by (cases s rule: rev_cases) (auto simp: suffix_def)

lemma join_lines: "fm \<noteq> [] \<Longrightarrow> py_join [newline] fm @ [newline] = concat (map (\<lambda>l. l @ [newline]) fm)"
  by (induction "[newline]" fm rule: py_join.induct) auto

lemma set_fm_key_lines:
  assumes "list_all (\<lambda>l. one_line l \<and> py_strip l \<noteq> dashes) fm" "one_line (key @ [colon, blank] @ key_value q v)" "key \<noteq> []"
    "hd key \<noteq> 45" "\<not> is_space (hd key)"
  shows "list_all (\<lambda>l. one_line l \<and> py_strip l \<noteq> dashes) (set_fm_key fm key v q)"
proof -
  let ?new = "key @ [colon, blank] @ key_value q v"
  obtain a b where d: "?new = a @ py_strip ?new @ b" "\<forall>x\<in>set a. is_space x"
    using strip_by_decomp [of ?new is_space] unfolding py_strip_def by blast
  have "a = []" using d assms(3,5) by (cases a; cases key) auto
  have "py_strip ?new \<noteq> dashes"
  proof
    assume "py_strip ?new = dashes"
    with d(1) \<open>a = []\<close> have "hd ?new = hd (dashes @ b)" by simp
    with assms(3,4) show False by (simp add: lit_simps)
  qed
  with assms(1,2) show ?thesis by (auto simp: set_fm_key_def Let_def list_all_iff)
qed

text \<open>A body after a patch and a fresh read: its lines, joined by LF.\<close>

definition ended :: "pystr \<Rightarrow> pystr" where
  "ended b = (if b = [] \<or> suffix [newline] b then b else b @ [newline])"

definition normal_body :: "pystr \<Rightarrow> pystr" where
  "normal_body b = drop_newlines (py_join [newline] (splitlines b))"

lemma patched_text_lines:
  "fm \<noteq> [] \<Longrightarrow> patched_text fm body = dashes @ [newline] @ concat (map (\<lambda>l. l @ [newline]) fm) @ dashes @ [newline] @ ended body"
  by (cases body rule: rev_cases) (simp_all add: patched_text_def Let_def join_lines [symmetric] ended_def suffix_single)

lemma reread:
  assumes "list_all (\<lambda>l. one_line l \<and> py_strip l \<noteq> dashes) fm" "fm \<noteq> []"
  shows "split_head (patched_text fm body) = Inr (fm, normal_body (ended body))"
proof -
  have "splitlines (patched_text fm body) = dashes # fm @ dashes # splitlines (ended body)"
    using splitlines_block [of "dashes # fm @ [dashes]" "ended body"] assms
    by (simp add: patched_text_lines list_all_iff)
  then show ?thesis using assms
    by (simp add: split_head_def fence_at list_all_iff patched_text_lines normal_body_def)
qed

text \<open>On a body whose only line terminator is LF nothing but surrounding newlines changes.\<close>

definition lf_only :: "pystr \<Rightarrow> bool" where
  "lf_only b \<longleftrightarrow> list_all (\<lambda>c. is_linebreak c \<longrightarrow> c = newline) b"

lemma splitlines_eq_Nil [simp]: "splitlines s = [] \<longleftrightarrow> s = []"
  by (simp add: splitlines.simps [of s])

lemma join_splitlines: "lf_only b \<Longrightarrow> py_join [newline] (splitlines b) = (if suffix [newline] b then butlast b else b)"
proof (induction b rule: length_induct)
  case (1 b)
  show ?case
  proof (cases "newline \<in> set b")
    case False
    with 1 have "one_line b" by (auto simp: one_line_iff lf_only_def list_all_iff)
    with False show ?thesis by (auto simp: splitlines_one suffix_def)
  next
    case True
    then obtain l r where b: "b = l @ newline # r" "newline \<notin> set l" by (meson split_list_first)
    with 1 have l: "one_line l" "lf_only r" by (auto simp: one_line_iff lf_only_def list_all_iff)
    then have "py_join [newline] (splitlines r) = (if suffix [newline] r then butlast r else r)"
      using 1 b by simp
    moreover have "py_join [newline] (l # xs) = (if xs = [] then l else l @ newline # py_join [newline] xs)" for xs
      by (cases xs) auto
    moreover have "suffix [newline] b \<longleftrightarrow> r = [] \<or> suffix [newline] r"
      unfolding b by (cases r rule: rev_cases) (auto simp: suffix_def append_eq_append_conv2 Cons_eq_append_conv)
    ultimately show ?thesis unfolding b splitlines_LF [OF l(1)] by (auto simp: butlast_append suffix_def)
  qed
qed

lemma strip_drop_newlines: "py_strip (drop_newlines s) = py_strip s"
proof -
  have "dropWhile is_space (dropWhile (\<lambda>c. c = newline) s) = dropWhile is_space s"
    by (induction s) (auto simp: is_space_def)
  then show ?thesis by (simp add: py_strip_def strip_by_def lstrip_by_def)
qed

lemma strip_snoc: "is_space c \<Longrightarrow> py_strip (s @ [c]) = py_strip s"
proof -
  assume c: "is_space c"
  show ?thesis
  proof (cases "\<forall>x\<in>set s. is_space x")
    case True
    with c show ?thesis by (simp add: py_strip_def strip_by_Nil_iff [THEN iffD2])
  next
    case False
    then have "dropWhile is_space (s @ [c]) = dropWhile is_space s @ [c]" by (induction s) auto
    with c show ?thesis by (simp add: py_strip_def strip_by_def lstrip_by_def rstrip_by_def)
  qed
qed

lemma strip_normal: "lf_only b \<Longrightarrow> py_strip (normal_body (ended b)) = py_strip b"
proof -
  assume b: "lf_only b"
  have nl: "is_space newline" by (simp add: is_space_def)
  have lf: "lf_only (ended b)" using b by (auto simp: ended_def lf_only_def list_all_iff)
  have "py_strip (ended b) = py_strip b" by (simp add: ended_def strip_snoc nl)
  then show ?thesis unfolding normal_body_def strip_drop_newlines join_splitlines [OF lf]
    by (auto simp: suffix_def strip_snoc nl)
qed

end
