(* ===== verification/Mcp_Catalog.thy ===== *)
theory Mcp_Catalog
  imports Mcp_Frontmatter Catalog_Paths
begin

text \<open>
  The catalog of \<^verbatim>\<open>skills-mcp/server.py\<close>: the roots in order of precedence, the parsed entries with the
  per-process cache, the index with its reasons for exclusion, and the paths inside a skill.
\<close>

record mcp_env =
  m_db :: unidb
  m_yaml :: yaml
  m_repr :: "json \<Rightarrow> pystr"
  m_platform :: pystr
  m_roots :: "path list"
  m_mtime :: "path \<Rightarrow> nat"
  m_environ :: "pystr \<Rightarrow> pystr option"
  m_which :: "pystr \<Rightarrow> bool"
  m_parse :: "pystr \<Rightarrow> json option"
  m_aborts :: "pystr \<Rightarrow> bool"
  m_home :: path
  m_here :: path
  m_sha :: "pystr \<Rightarrow> pystr"
  m_now :: pystr
  m_tmp :: pystr

section \<open>Reading with a cap\<close>

definition MAX_FILE_BYTES :: nat where "MAX_FILE_BYTES = 1000000"

datatype read_fault = CouldNotRead | TooLarge nat

text \<open>\<open>follow\<close> is false for reference files: the last component must not be a link then.\<close>

definition open_node :: "bool \<Rightarrow> node \<Rightarrow> path \<Rightarrow> node option" where
  "open_node follow fs p =
     (if follow then stat fs p else (case lplace fs p of None \<Rightarrow> None | Some q \<Rightarrow> tget fs q))"

definition read_text_capped :: "bool \<Rightarrow> node \<Rightarrow> path \<Rightarrow> read_fault + pystr" where
  "read_text_capped follow fs p =
     (case open_node follow fs p of
        Some (File t) \<Rightarrow> if utf8_len t > MAX_FILE_BYTES then Inl (TooLarge (utf8_len t)) else Inr t
      | _ \<Rightarrow> Inl CouldNotRead)"

section \<open>Entries\<close>

record entry =
  e_name :: pystr
  e_desc :: "pystr option"
  e_category :: "pystr option"
  e_trigger :: "pystr option"
  e_requires :: "(pystr \<times> json) list"
  e_dir :: pystr
  e_root :: path
  e_path :: path

datatype exclusion = NoStat | ReadFailed read_fault | NoName | PlatformGate "pystr list" | Shadowed path

definition mcp_str :: "mcp_env \<Rightarrow> json \<Rightarrow> pystr" where
  "mcp_str E = py_str (m_repr E)"

definition skill_name :: "mcp_env \<Rightarrow> (pystr \<times> json) list \<Rightarrow> pystr \<Rightarrow> pystr" where
  "skill_name E fm dir_name = py_strip (mcp_str E (jor (jget fm (lit ''name'')) (JStr dir_name)))"

definition opt_text :: "mcp_env \<Rightarrow> (pystr \<times> json) list \<Rightarrow> char list \<Rightarrow> pystr option" where
  "opt_text E fm k =
     (let s = py_strip (mcp_str E (jor (jget fm (lit k)) (JStr [])))
      in if s = [] then None else Some s)"

definition platform_aliases :: "(pystr \<times> pystr) list" where
  "platform_aliases = map (\<lambda>(a, b). (lit a, lit b))
     [(''darwin'', ''macos''), (''osx'', ''macos''), (''mac'', ''macos''), (''macos'', ''macos''),
      (''linux'', ''linux''), (''win32'', ''windows''), (''windows'', ''windows'')]"

definition os_tag :: "mcp_env \<Rightarrow> pystr" where
  "os_tag E =
     (if prefix (lit ''linux'') (m_platform E) then lit ''linux''
      else if m_platform E = lit ''darwin'' then lit ''macos''
      else if prefix (lit ''win'') (m_platform E) then lit ''windows''
      else m_platform E)"

definition platforms :: "mcp_env \<Rightarrow> (pystr \<times> json) list \<Rightarrow> pystr list" where
  "platforms E fm =
     map (\<lambda>p. let s = py_lower (m_db E) (py_strip (mcp_str E p))
              in case map_of platform_aliases s of Some t \<Rightarrow> t | None \<Rightarrow> s)
         (as_list (jget fm (lit ''platforms'')))"

text \<open>The part of \<^verbatim>\<open>_parse_entry\<close> after a cache miss.\<close>

definition parse_text :: "mcp_env \<Rightarrow> path \<Rightarrow> path \<Rightarrow> pystr \<Rightarrow> exclusion + entry" where
  "parse_text E R md text =
     (let fm = fst (split_frontmatter_ex (m_repr E) (m_yaml E) text);
          dir_name = last (butlast md);
          name = skill_name E fm dir_name;
          plats = platforms E fm
      in if name = [] then Inl NoName
         else if plats \<noteq> [] \<and> os_tag E \<notin> set plats then Inl (PlatformGate plats)
         else Inr \<lparr>e_name = name, e_desc = opt_text E fm ''description'', e_category = opt_text E fm ''category'',
                e_trigger = opt_text E fm ''trigger'', e_requires = as_dict (jget fm (lit ''requires'')),
                e_dir = dir_name, e_root = R, e_path = md\<rparr>)"

definition parse_fresh :: "mcp_env \<Rightarrow> node \<Rightarrow> path \<Rightarrow> path \<Rightarrow> exclusion + entry" where
  "parse_fresh E fs R md =
     (case read_text_capped True fs md of
        Inl e \<Rightarrow> Inl (ReadFailed e)
      | Inr text \<Rightarrow> parse_text E R md text)"

text \<open>The cache: path, modification time and size lead to the entry.\<close>

type_synonym cache = "((path \<times> nat \<times> nat) \<times> entry) list"

definition ENTRY_CACHE_MAX :: nat where "ENTRY_CACHE_MAX = 2000"

definition node_size :: "node \<Rightarrow> nat" where
  "node_size n = (case n of File t \<Rightarrow> utf8_len t | _ \<Rightarrow> 0)"

definition cache_key :: "mcp_env \<Rightarrow> path \<Rightarrow> node \<Rightarrow> path \<times> nat \<times> nat" where
  "cache_key E md n = (md, m_mtime E md, node_size n)"

definition remember :: "path \<times> nat \<times> nat \<Rightarrow> entry \<Rightarrow> cache \<Rightarrow> cache" where
  "remember k e c = AList.update k e (if length c > ENTRY_CACHE_MAX then [] else c)"

definition parse_entry :: "mcp_env \<Rightarrow> node \<Rightarrow> path \<Rightarrow> path \<Rightarrow> cache \<Rightarrow> cache \<times> (exclusion + entry)" where
  "parse_entry E fs R md c =
     (case stat fs md of
        None \<Rightarrow> (c, Inl NoStat)
      | Some n \<Rightarrow>
          (case map_of c (cache_key E md n) of
             Some e \<Rightarrow> (c, Inr e)
           | None \<Rightarrow>
               (case parse_fresh E fs R md of
                  Inl x \<Rightarrow> (c, Inl x)
                | Inr e \<Rightarrow> (remember (cache_key E md n) e c, Inr e))))"

section \<open>The index\<close>

text \<open>
  \<^verbatim>\<open>sorted(glob(root/*/SKILL.md))\<close>: directories whose name does not start with a dot, ordered by the whole
  path, in which the slash takes part.
\<close>

definition globbed :: "node \<Rightarrow> path \<Rightarrow> pystr \<Rightarrow> bool" where
  "globbed fs R x \<longleftrightarrow> \<not> prefix (lit ''.'') x \<and> isdir fs (R @ [x])
     \<and> (case lplace fs (R @ [x, skill_md]) of None \<Rightarrow> False | Some q \<Rightarrow> tget fs q \<noteq> None)"

definition iter_root :: "node \<Rightarrow> path \<Rightarrow> path list" where
  "iter_root fs R =
     (case stat fs R of
        Some (Dir cs) \<Rightarrow>
          map (\<lambda>x. R @ [x, skill_md]) (sort_key (\<lambda>x. x @ slash # skill_md) (filter (globbed fs R) (map fst cs)))
      | _ \<Rightarrow> [])"

definition iter_skill_dirs :: "mcp_env \<Rightarrow> node \<Rightarrow> (path \<times> path) list" where
  "iter_skill_dirs E fs = concat (map (\<lambda>R. map (Pair R) (iter_root fs R)) (m_roots E))"

record index =
  ix_cache :: cache
  ix_entries :: "entry list"
  ix_excluded :: "(pystr \<times> path \<times> exclusion) list"
  ix_seen :: "(pystr \<times> path) list"

definition index_step :: "mcp_env \<Rightarrow> node \<Rightarrow> index \<Rightarrow> path \<times> path \<Rightarrow> index" where
  "index_step E fs ix rm =
     (let (R, md) = rm; (c, r) = parse_entry E fs R md (ix_cache ix); ix' = ix\<lparr>ix_cache := c\<rparr>
      in case r of
           Inl why \<Rightarrow> ix'\<lparr>ix_excluded := ix_excluded ix @ [(last (butlast md), R, why)]\<rparr>
         | Inr e \<Rightarrow>
             (case map_of (ix_seen ix) (e_name e) of
                Some prev \<Rightarrow> ix'\<lparr>ix_excluded := ix_excluded ix @ [(e_name e, R, Shadowed prev)]\<rparr>
              | None \<Rightarrow> ix'\<lparr>ix_seen := (e_name e, R) # ix_seen ix, ix_entries := ix_entries ix @ [e]\<rparr>))"

definition build_index :: "mcp_env \<Rightarrow> node \<Rightarrow> cache \<Rightarrow> index" where
  "build_index E fs c =
     foldl (index_step E fs) \<lparr>ix_cache = c, ix_entries = [], ix_excluded = [], ix_seen = []\<rparr> (iter_skill_dirs E fs)"

definition load_catalog :: "mcp_env \<Rightarrow> node \<Rightarrow> cache \<Rightarrow> entry list" where
  "load_catalog E fs c = ix_entries (build_index E fs c)"

definition resolve_skill_dir :: "mcp_env \<Rightarrow> node \<Rightarrow> cache \<Rightarrow> pystr \<Rightarrow> path option" where
  "resolve_skill_dir E fs c name =
     map_option (\<lambda>e. butlast (e_path e)) (find (\<lambda>e. e_name e = name) (ix_entries (build_index E fs c)))"

section \<open>Inside a skill\<close>

text \<open>\<^verbatim>\<open>os.walk\<close> does not enter linked directories and does not list them as files.\<close>

fun walk_files :: "node \<Rightarrow> path \<Rightarrow> pystr \<Rightarrow> node \<Rightarrow> pystr list" where
  "walk_files fs p rel (Dir cs) =
     concat (map (\<lambda>(x, c). case c of
         Dir _ \<Rightarrow> walk_files fs (p @ [x]) (rel @ x @ [slash]) c
       | File _ \<Rightarrow> [rel @ x]
       | Link _ \<Rightarrow> if isdir fs (p @ [x]) then [] else [rel @ x]) cs)"
| "walk_files fs p rel _ = []"

definition linked_files :: "node \<Rightarrow> path \<Rightarrow> pystr list" where
  "linked_files fs dir =
     (let real_root = realpath fs dir
      in sort (filter (\<lambda>r. r \<noteq> skill_md)
           (case tget fs real_root of Some n \<Rightarrow> walk_files fs real_root [] n | None \<Rightarrow> [])))"

definition safe_join :: "node \<Rightarrow> path \<Rightarrow> pystr \<Rightarrow> path option" where
  "safe_join fs dir file_path =
     (let real_root = realpath fs dir
      in if is_abs file_path then None
         else let candidate = realpath fs (real_root @ comps file_path)
              in if candidate = real_root then None
                 else if \<not> prefix real_root candidate then None
                 else if \<not> isfile fs candidate then None
                 else Some candidate)"

section \<open>The cache is transparent\<close>

text \<open>A function run with a memo: on coherent memos it computes its specification and keeps them coherent.\<close>

locale memoised =
  fixes ok :: "'a \<Rightarrow> bool" and coh :: "'c \<Rightarrow> bool" and run :: "'a \<Rightarrow> 'c \<Rightarrow> 'c \<times> 'r" and spec :: "'a \<Rightarrow> 'r"
  assumes run_spec: "ok a \<Longrightarrow> coh c \<Longrightarrow> snd (run a c) = spec a"
    and run_coh: "ok a \<Longrightarrow> coh c \<Longrightarrow> coh (fst (run a c))"
begin

lemma run_cases: "ok a \<Longrightarrow> coh c \<Longrightarrow> \<exists>c'. run a c = (c', spec a) \<and> coh c'"
  using run_spec [of a c] run_coh [of a c] by (cases "run a c") auto

end

definition home_root :: "path \<Rightarrow> path" where
  "home_root md = take (length md - 2) md"

definition coherent :: "mcp_env \<Rightarrow> node \<Rightarrow> cache \<Rightarrow> bool" where
  "coherent E fs c \<longleftrightarrow>
     list_all (\<lambda>(k, e). case stat fs (fst k) of
         None \<Rightarrow> True
       | Some n \<Rightarrow> k = cache_key E (fst k) n \<longrightarrow> parse_fresh E fs (home_root (fst k)) (fst k) = Inr e) c"

definition parse_spec :: "mcp_env \<Rightarrow> node \<Rightarrow> path \<times> path \<Rightarrow> exclusion + entry" where
  "parse_spec E fs rm = (case stat fs (snd rm) of None \<Rightarrow> Inl NoStat | Some n \<Rightarrow> parse_fresh E fs (fst rm) (snd rm))"

lemma set_alist_update: "set (AList.update k v c) \<subseteq> insert (k, v) (set c)"
  by (induction c) auto

lemma coherent_Nil [simp]: "coherent E fs []"
  by (simp add: coherent_def)

lemma coherent_hit:
  assumes "coherent E fs c" "map_of c (cache_key E md n) = Some e" "stat fs md = Some n"
  shows "parse_fresh E fs (home_root md) md = Inr e"
proof -
  from assms(2) have "(cache_key E md n, e) \<in> set c" by (rule map_of_SomeD)
  with assms(1,3) show ?thesis by (fastforce simp: coherent_def list_all_iff cache_key_def)
qed

lemma coherent_remember:
  assumes "coherent E fs c" "parse_fresh E fs (home_root md) md = Inr e"
  shows "coherent E fs (remember (cache_key E md n) e c)"
proof -
  let ?c = "if length c > ENTRY_CACHE_MAX then [] else c"
  have "coherent E fs ?c" using assms(1) by simp
  moreover have "set (remember (cache_key E md n) e c) \<subseteq> insert (cache_key E md n, e) (set ?c)"
    unfolding remember_def by (rule set_alist_update)
  ultimately show ?thesis using assms(2)
    by (fastforce simp: coherent_def list_all_iff cache_key_def split: option.splits)
qed

interpretation memo: memoised "\<lambda>rm. fst rm = home_root (snd rm)" "coherent E fs"
    "\<lambda>rm. parse_entry E fs (fst rm) (snd rm)" "parse_spec E fs" for E fs
  by unfold_locales
     (auto simp: parse_entry_def parse_spec_def coherent_hit coherent_remember split: option.splits sum.splits)

lemma iter_ok: "rm \<in> set (iter_skill_dirs E fs) \<Longrightarrow> fst rm = home_root (snd rm)"
  by (auto simp: iter_skill_dirs_def iter_root_def home_root_def split: option.splits node.splits)

section \<open>The index meets its specification\<close>

fun first_wins :: "pystr list \<Rightarrow> entry list \<Rightarrow> entry list" where
  "first_wins seen [] = []"
| "first_wins seen (e # es) =
     (if e_name e \<in> set seen then first_wins seen es else e # first_wins (e_name e # seen) es)"

definition valid_entries :: "mcp_env \<Rightarrow> node \<Rightarrow> (path \<times> path) list \<Rightarrow> entry list" where
  "valid_entries E fs rms = concat (map (\<lambda>rm. case parse_spec E fs rm of Inl x \<Rightarrow> [] | Inr e \<Rightarrow> [e]) rms)"

lemma index_fold:
  assumes "\<forall>rm\<in>set rms. fst rm = home_root (snd rm)" "coherent E fs (ix_cache ix)"
  shows "ix_entries (foldl (index_step E fs) ix rms)
           = ix_entries ix @ first_wins (map fst (ix_seen ix)) (valid_entries E fs rms)
     \<and> coherent E fs (ix_cache (foldl (index_step E fs) ix rms))
     \<and> length (ix_entries (foldl (index_step E fs) ix rms)) + length (ix_excluded (foldl (index_step E fs) ix rms))
         = length (ix_entries ix) + length (ix_excluded ix) + length rms"
  using assms
proof (induction rms arbitrary: ix)
  case Nil
  then show ?case by (simp add: valid_entries_def)
next
  case (Cons rm rms)
  obtain c where c: "parse_entry E fs (fst rm) (snd rm) (ix_cache ix) = (c, parse_spec E fs rm)" "coherent E fs c"
    using memo.run_cases [of rm E fs "ix_cache ix"] Cons.prems by auto
  have ok: "\<forall>rm\<in>set rms. fst rm = home_root (snd rm)" using Cons.prems(1) by simp
  have v: "valid_entries E fs (rm # rms) =
      (case parse_spec E fs rm of Inl x \<Rightarrow> [] | Inr e \<Rightarrow> [e]) @ valid_entries E fs rms"
    by (simp add: valid_entries_def)
  have step: "ix_cache (index_step E fs ix rm) = c"
    using c(1) by (auto simp: index_step_def Let_def split: prod.splits sum.splits option.splits)
  note IH = Cons.IH [OF ok, of "index_step E fs ix rm", unfolded step, OF c(2)]
  show ?case
  proof (cases "parse_spec E fs rm")
    case (Inl x)
    then have st: "index_step E fs ix rm =
        ix\<lparr>ix_cache := c, ix_excluded := ix_excluded ix @ [(last (butlast (snd rm)), fst rm, x)]\<rparr>"
      using c(1) by (cases rm) (simp add: index_step_def)
    show ?thesis using IH unfolding foldl.simps v Inl st by auto
  next
    case (Inr e)
    show ?thesis
    proof (cases "map_of (ix_seen ix) (e_name e)")
      case None
      then have n: "e_name e \<notin> set (map fst (ix_seen ix))" by (simp add: map_of_eq_None_iff)
      have st: "index_step E fs ix rm =
          ix\<lparr>ix_cache := c, ix_seen := (e_name e, fst rm) # ix_seen ix, ix_entries := ix_entries ix @ [e]\<rparr>"
        using c(1) Inr None by (cases rm) (simp add: index_step_def)
      show ?thesis using IH n unfolding foldl.simps v Inr st by auto
    next
      case (Some p)
      then have n: "e_name e \<in> set (map fst (ix_seen ix))" by (force dest: map_of_SomeD)
      have st: "index_step E fs ix rm =
          ix\<lparr>ix_cache := c, ix_excluded := ix_excluded ix @ [(e_name e, fst rm, Shadowed p)]\<rparr>"
        using c(1) Inr Some by (cases rm) (simp add: index_step_def)
      show ?thesis using IH n unfolding foldl.simps v Inr st by auto
    qed
  qed
qed

lemma build_index_spec:
  assumes "coherent E fs c"
  shows "ix_entries (build_index E fs c) = first_wins [] (valid_entries E fs (iter_skill_dirs E fs))"
    "coherent E fs (ix_cache (build_index E fs c))"
    "length (ix_entries (build_index E fs c)) + length (ix_excluded (build_index E fs c)) = length (iter_skill_dirs E fs)"
  using index_fold [of "iter_skill_dirs E fs" E fs "\<lparr>ix_cache = c, ix_entries = [], ix_excluded = [], ix_seen = []\<rparr>"]
    assms iter_ok unfolding build_index_def by auto

lemma first_wins_distinct: "distinct (map e_name (first_wins seen es)) \<and> set (map e_name (first_wins seen es)) \<inter> set seen = {}"
  by (induction seen es rule: first_wins.induct) auto

lemma first_wins_sub: "set (first_wins seen es) \<subseteq> set es"
  by (induction seen es rule: first_wins.induct) auto

lemma find_distinct: "distinct (map f xs) \<Longrightarrow> e \<in> set xs \<Longrightarrow> find (\<lambda>x. f x = f e) xs = Some e"
  by (induction xs) (auto simp: image_iff)

lemma resolve_listed:
  assumes "coherent E fs c" "e \<in> set (ix_entries (build_index E fs c'))" "coherent E fs c'"
  shows "resolve_skill_dir E fs c (e_name e) = Some (butlast (e_path e))"
proof -
  have "e \<in> set (ix_entries (build_index E fs c))"
    using assms(2) unfolding build_index_spec(1) [OF assms(1)] build_index_spec(1) [OF assms(3)] .
  moreover have "distinct (map e_name (ix_entries (build_index E fs c)))"
    unfolding build_index_spec(1) [OF assms(1)] using first_wins_distinct by blast
  ultimately show ?thesis by (simp add: resolve_skill_dir_def find_distinct)
qed

lemma valid_entry:
  assumes "e \<in> set (ix_entries (build_index E fs c))" "coherent E fs c"
  shows "\<exists>R md. (R, md) \<in> set (iter_skill_dirs E fs) \<and> parse_fresh E fs R md = Inr e"
  using assms(1) first_wins_sub unfolding build_index_spec(1) [OF assms(2)] valid_entries_def parse_spec_def
  by (fastforce split: option.splits sum.splits)

lemma parsed_entry:
  assumes "parse_fresh E fs R md = Inr e"
  shows "e_path e = md" "e_name e \<noteq> []" "py_strip (e_name e) = e_name e"
    "\<exists>t. read_text_capped True fs md = Inr t"
  using assms by (auto simp: parse_fresh_def parse_text_def Let_def skill_name_def split: sum.splits if_splits)

end
