(* ===== verification/Bash_Guard.thy ===== *)
theory Bash_Guard
  imports Py_Json Py_Regex File_Tree
begin

text \<open>
  \<^verbatim>\<open>rules/bash_guard.py\<close>: the hook before a shell command. From the parsed payload it makes a denial or nothing;
  \<open>Inl ()\<close> is an exception. \<open>Tool_Mains\<close> has the process around it, which catches them.
\<close>

definition oracle_suffix :: pystr where "oracle_suffix = lit ''-oracle''"

section \<open>The patterns\<close>

definition opt_cp :: "nat \<Rightarrow> regex" where "opt_cp c = Rep 0 (Some 1) (cp c)"
definition space_re :: regex where "space_re = Cls is_space"
definition nonspace :: regex where "nonspace = Cls (\<lambda>c. \<not> is_space c)"

text \<open>\<^verbatim>\<open>--screenshot[= ]"?'?(/tmp/\S*)\<close>\<close>

definition SHOT_TMP :: regex where
  "SHOT_TMP = Seq (Str (lit ''--screenshot'')) (Seq (Cls (\<lambda>c. c = 61 \<or> c = 32))
     (Seq (opt_cp 34) (Seq (opt_cp 39) (Grp 1 (Seq (Str (lit ''/tmp/'')) (star nonspace))))))"

text \<open>\<^verbatim>\<open>\bpkill\s+(?:-\w+\s+)*-\w*f\w*\s+(\S+|"[^"]*"|'[^']*')\<close>\<close>

definition PKILL_F :: "(nat \<Rightarrow> bool) \<Rightarrow> regex" where
  "PKILL_F w = Seq WordB (Seq (Str (lit ''pkill'')) (Seq (plus1 space_re)
     (Seq (star (Seq (cp 45) (Seq (plus1 (Cls w)) (plus1 space_re))))
       (Seq (cp 45) (Seq (star (Cls w)) (Seq (cp 102) (Seq (star (Cls w)) (Seq (plus1 space_re)
         (Grp 1 (Alt (plus1 nonspace)
           (Alt (Seq (cp 34) (Seq (star (Cls (\<lambda>c. c \<noteq> 34))) (cp 34)))
                (Seq (cp 39) (Seq (star (Cls (\<lambda>c. c \<noteq> 39))) (cp 39))))))))))))))"

section \<open>The decision\<close>

datatype denial = ScreenshotInTmp pystr | PkillMatchesSelf pystr

definition verdict :: "unidb \<Rightarrow> pystr \<Rightarrow> denial option" where
  "verdict U command =
     (case re_search (word_cp U) SHOT_TMP command of
        Some m \<Rightarrow> Some (ScreenshotInTmp (re_group command 1 m))
      | None \<Rightarrow>
          (case re_search (word_cp U) (PKILL_F (word_cp U)) command of
             Some m \<Rightarrow> if 91 \<notin> set (re_group command 1 m) then Some (PkillMatchesSelf (re_group command 1 m)) else None
           | None \<Rightarrow> None))"

text \<open>\<open>here\<close> is \<^verbatim>\<open>os.getcwd()\<close>, which raises when the directory is gone.\<close>

definition guard_cwd :: "pystr option \<Rightarrow> (pystr \<times> json) list \<Rightarrow> pystr option" where
  "guard_cwd here p =
     (case first_string p (map lit [''cwd'', ''project_dir'', ''projectDir'']) of Some s \<Rightarrow> Some s | None \<Rightarrow> here)"

text \<open>\<^verbatim>\<open>os.path.basename(os.path.normpath(s))\<close>: components with \<^verbatim>\<open>..\<close> taken back, as strings.\<close>

definition norm_step :: "bool \<Rightarrow> path \<Rightarrow> pystr \<Rightarrow> path" where
  "norm_step rooted done c =
     (if c \<noteq> lit ''..'' \<or> (\<not> rooted \<and> done = []) \<or> (done \<noteq> [] \<and> last done = lit ''..'') then done @ [c]
      else butlast done)"

definition norm_base :: "pystr \<Rightarrow> pystr" where
  "norm_base s =
     (let cs = foldl (norm_step (is_abs s)) [] (comps s)
      in if cs = [] then (if is_abs s then [] else lit ''.'') else last cs)"

definition guard_is_oracle :: "pystr \<Rightarrow> bool" where
  "guard_is_oracle cwd \<longleftrightarrow> suffix oracle_suffix (norm_base cwd)"

definition guard_main :: "unidb \<Rightarrow> pystr option \<Rightarrow> json \<Rightarrow> unit + denial option" where
  "guard_main U here payload =
     (case jdict payload of
        None \<Rightarrow> Inl ()
      | Some p \<Rightarrow>
          (case guard_cwd here p of
             None \<Rightarrow> Inl ()
           | Some cwd \<Rightarrow>
               if \<not> guard_is_oracle cwd then Inr None
               else case jdict (jor (jget p (lit ''tool_input'')) (JObj [])) of
                      None \<Rightarrow> Inl ()
                    | Some t \<Rightarrow>
                        (case jstr (jor (jget t (lit ''command'')) (JStr [])) of
                           None \<Rightarrow> Inr None
                         | Some cmd \<Rightarrow> if cmd = [] then Inr None else Inr (verdict U cmd))))"

section \<open>Searching\<close>

lemma rmatch_Str:
  "st' \<in> set (rmatch W s (Str l) st) \<longleftrightarrow>
     l = take (length l) (drop (fst st) s) \<and> (l = [] \<or> fst st + length l \<le> length s) \<and> st' = (fst st + length l, snd st)"
proof (induction l arbitrary: st)
  case Nil
  then show ?case by (cases st) auto
next
  case (Cons c cs)
  have "c # cs = take (Suc (length cs)) (drop (fst st) s) \<longleftrightarrow>
      fst st < length s \<and> s ! fst st = c \<and> cs = take (length cs) (drop (Suc (fst st)) s)"
    by (cases "fst st < length s") (auto simp: Cons_nth_drop_Suc [symmetric])
  then show ?case using Cons [of "(Suc (fst st), snd st)"] by (auto simp: rmatch_mem)
qed

lemma search_from_iff:
  "search_from W r s is \<noteq> None \<longleftrightarrow> (\<exists>i\<in>set is. rmatch W s r (i, []) \<noteq> [])"
  by (induction W r s "is" rule: search_from.induct) (auto split: list.splits)

lemma re_search_iff: "re_search W r s \<noteq> None \<longleftrightarrow> (\<exists>i\<le>length s. \<exists>st. st \<in> set (rmatch W s r (i, [])))"
proof -
  have ne: "xs \<noteq> [] \<longleftrightarrow> (\<exists>st. st \<in> set xs)" for xs :: "rstate list" by (cases xs) auto
  show ?thesis unfolding re_search_def search_from_iff ne set_upt Bex_def by (simp only: atLeastLessThan_iff less_Suc_eq_le zero_le simp_thms)
qed

lemma search_from_mem: "search_from W r s is = Some m \<Longrightarrow> \<exists>i. m \<in> set (rmatch W s r (i, []))"
  by (induction W r s "is" rule: search_from.induct) (auto split: list.splits intro: list.set_intros, metis list.set_intros(1))

lemma Str_contains: "st' \<in> set (rmatch W s (Str l) st) \<Longrightarrow> contains l s"
  unfolding rmatch_Str contains_iff_sublist by (metis append_take_drop_id sublist_appendI)

lemma shot_needs_word: "re_search W SHOT_TMP s \<noteq> None \<Longrightarrow> contains (lit ''--screenshot'') s"
  unfolding re_search_iff SHOT_TMP_def by (auto simp: rmatch_mem(1) simp del: rmatch.simps dest: Str_contains)

lemma pkill_needs_word: "re_search W (PKILL_F w) s \<noteq> None \<Longrightarrow> contains (lit ''pkill'') s"
  unfolding re_search_iff PKILL_F_def by (auto simp: rmatch_mem(1) simp del: rmatch.simps dest: Str_contains)

lemma opt_stop: "st \<in> set (rmatch W s (opt_cp c) st)"
  by (cases st) (simp add: opt_cp_def rep_cls span_def count_ok_def del: rep.simps rmatch.simps(2))

lemma star_stop: "st \<in> set (rmatch W s (star r) st)"
  by simp

lemma shot_found:
  assumes "sep = 61 \<or> sep = 32"
  shows "re_search W SHOT_TMP (a @ lit ''--screenshot'' @ [sep] @ lit ''/tmp/'' @ b) \<noteq> None"
proof -
  let ?w = "lit ''--screenshot''" and ?t = "lit ''/tmp/''"
  let ?s = "a @ ?w @ [sep] @ ?t @ b"
  let ?i = "length a" and ?j = "length a + length ?w"
  have m1: "(?j, []) \<in> set (rmatch W ?s (Str ?w) (?i, []))" by (simp only: rmatch_Str) simp
  have m2: "(Suc ?j, []) \<in> set (rmatch W ?s (Cls (\<lambda>c. c = 61 \<or> c = 32)) (?j, []))"
    using assms by (simp add: nth_append)
  have m3: "(Suc ?j + length ?t, []) \<in> set (rmatch W ?s (Str ?t) (Suc ?j, []))" by (simp only: rmatch_Str) simp
  have "(Suc ?j + length ?t, [(1, Suc ?j, Suc ?j + length ?t)]) \<in> set (rmatch W ?s (Grp 1 (Seq (Str ?t) (star nonspace))) (Suc ?j, []))"
    using m3 star_stop [of "(Suc ?j + length ?t, [])" W ?s nonspace] by force
  then have "\<exists>st. st \<in> set (rmatch W ?s SHOT_TMP (?i, []))"
    unfolding SHOT_TMP_def rmatch_mem(1) using m1 m2 opt_stop by blast
  then show ?thesis unfolding re_search_iff by (intro exI [of _ ?i]) simp
qed

lemma shot_group:
  assumes "re_search W SHOT_TMP s = Some m"
  shows "prefix (lit ''/tmp/'') (re_group s 1 m)"
proof -
  have "\<exists>i. m \<in> set (rmatch W s SHOT_TMP (i, []))"
    using assms search_from_mem unfolding re_search_def by blast
  then obtain i st1 st2 where g: "st1 \<in> set (rmatch W s (Seq (Str (lit ''/tmp/'')) (star nonspace)) (i, st2))"
      "m = (fst st1, (1, i, fst st1) # snd st1)"
    unfolding SHOT_TMP_def by (auto simp: rmatch_mem(1) simp del: rmatch.simps(3,5))
  from g(1) obtain st3 where t: "st3 \<in> set (rmatch W s (Str (lit ''/tmp/'')) (i, st2))"
      "st1 \<in> set (rmatch W s (star nonspace) st3)" unfolding rmatch_mem(1) by blast
  have five: "length (lit ''/tmp/'') = 5" by (simp add: lit_def)
  from t(1) have s3: "st3 = (i + 5, st2)" "lit ''/tmp/'' = take 5 (drop i s)"
    unfolding rmatch_Str five by simp_all
  from t(2) have "i + 5 \<le> fst st1"
    unfolding s3(1) nonspace_def rmatch.simps(5) rep_cls by (auto simp: span_def)
  then have "take 5 (drop i s) = take 5 (re_group s 1 m)" by (simp add: g(2) re_group_def min_def)
  with s3(2) show ?thesis by (metis take_is_prefix)
qed

section \<open>Properties\<close>

text \<open>
  A screenshot into \<^verbatim>\<open>/tmp/\<close> is caught wherever it stands in the command: the verdict is a denial that
  names the path.
\<close>

theorem guard_blocks_tmp_screenshots:
  assumes "sep = 61 \<or> sep = 32"
  shows "\<exists>p. verdict U (a @ lit ''--screenshot'' @ [sep] @ lit ''/tmp/'' @ b) = Some (ScreenshotInTmp p)
     \<and> prefix (lit ''/tmp/'') p"
proof -
  let ?c = "a @ lit ''--screenshot'' @ [sep] @ lit ''/tmp/'' @ b"
  obtain m where m: "re_search (word_cp U) SHOT_TMP ?c = Some m"
    using shot_found [OF assms, of "word_cp U" a b] by blast
  show ?thesis unfolding verdict_def m using shot_group [OF m] by simp
qed

theorem guard_blocks_tmp_screenshots_witness:
  "verdict latin_db (lit ''chromium --screenshot=/tmp/a.png'') \<noteq> None"
proof -
  have "lit ''chromium --screenshot=/tmp/a.png'' = lit ''chromium '' @ lit ''--screenshot'' @ [61] @ lit ''/tmp/'' @ lit ''a.png''"
    by (simp add: lit_simps)
  then show ?thesis using guard_blocks_tmp_screenshots [of 61 latin_db "lit ''chromium ''" "lit ''a.png''"] by auto
qed

text \<open>
  Narrow scope: a denial is issued only for a payload object whose working directory is an oracle's
  (its last component ends in \<^verbatim>\<open>-oracle\<close>), for the command of its tool input and by the verdict of this command.
\<close>

lemma guard_denies_iff:
  "guard_main U here j = Inr (Some d) \<longleftrightarrow>
     (\<exists>p cwd t cmd. j = JObj p \<and> guard_cwd here p = Some cwd \<and> suffix (lit ''-oracle'') (norm_base cwd)
        \<and> jget p (lit ''tool_input'') = JObj t \<and> jget t (lit ''command'') = JStr cmd \<and> cmd \<noteq> [] \<and> verdict U cmd = Some d)"
proof -
  have c: "jstr (jor v (JStr [])) = Some cmd \<and> cmd \<noteq> [] \<longleftrightarrow> v = JStr cmd \<and> cmd \<noteq> []" for v cmd
    by (cases v) (auto simp: jor_def)
  have t: "jdict (jor v (JObj [])) = Some t \<and> t \<noteq> [] \<longleftrightarrow> v = JObj t \<and> t \<noteq> []" for v t
    by (cases v) (auto simp: jor_def)
  have "guard_main U here j = Inr (Some d) \<longleftrightarrow>
     (\<exists>p cwd t cmd. jdict j = Some p \<and> guard_cwd here p = Some cwd \<and> guard_is_oracle cwd
        \<and> jdict (jor (jget p (lit ''tool_input'')) (JObj [])) = Some t
        \<and> (jstr (jor (jget t (lit ''command'')) (JStr [])) = Some cmd \<and> cmd \<noteq> []) \<and> verdict U cmd = Some d)"
    by (auto simp: guard_main_def split: option.splits if_splits)
  also have "\<dots> \<longleftrightarrow>
     (\<exists>p cwd t cmd. jdict j = Some p \<and> guard_cwd here p = Some cwd \<and> guard_is_oracle cwd
        \<and> (jdict (jor (jget p (lit ''tool_input'')) (JObj [])) = Some t \<and> t \<noteq> [])
        \<and> jget t (lit ''command'') = JStr cmd \<and> cmd \<noteq> [] \<and> verdict U cmd = Some d)"
  proof -
    have "jget t (lit ''command'') = JStr cmd \<Longrightarrow> t \<noteq> []" for t cmd by (auto simp: jget_def)
    then show ?thesis unfolding c by blast
  qed
  also have "\<dots> \<longleftrightarrow>
     (\<exists>p cwd t cmd. j = JObj p \<and> guard_cwd here p = Some cwd \<and> suffix (lit ''-oracle'') (norm_base cwd)
        \<and> jget p (lit ''tool_input'') = JObj t \<and> jget t (lit ''command'') = JStr cmd \<and> cmd \<noteq> [] \<and> verdict U cmd = Some d)"
  proof -
    have "jget t (lit ''command'') = JStr cmd \<Longrightarrow> t \<noteq> []" for t cmd by (auto simp: jget_def)
    moreover have "jdict j = Some p \<longleftrightarrow> j = JObj p" for p by (cases j) auto
    ultimately show ?thesis unfolding t guard_is_oracle_def oracle_suffix_def by blast
  qed
  finally show ?thesis .
qed

text \<open>It contains \<^verbatim>\<open>--screenshot\<close>, or \<^verbatim>\<open>pkill\<close> with a pattern without a bracket.\<close>

lemma verdict_words:
  assumes "verdict U cmd = Some d"
  shows "case d of ScreenshotInTmp x \<Rightarrow> contains (lit ''--screenshot'') cmd
        | PkillMatchesSelf x \<Rightarrow> contains (lit ''pkill'') cmd \<and> 91 \<notin> set x"
  using assms shot_needs_word [of "word_cp U" cmd] pkill_needs_word [of "word_cp U" "word_cp U" cmd]
  by (auto simp: verdict_def split: option.splits if_splits)

definition sample_payload :: json where
  "sample_payload = JObj [(lit ''cwd'', JStr (lit ''/w/jack-oracle/'')),
     (lit ''tool_input'', JObj [(lit ''command'', JStr (lit ''pkill -f node''))])]"

lemma sample_denied: "guard_main latin_db None sample_payload = Inr (Some (PkillMatchesSelf (lit ''node'')))"
  by code_simp

text \<open>The bracket trick is let through, the plain pattern is not.\<close>

lemma pkill_examples:
  "verdict latin_db (lit ''pkill -f node'') = Some (PkillMatchesSelf (lit ''node''))"
  "verdict latin_db (lit ''pkill -9 -f node'') = Some (PkillMatchesSelf (lit ''node''))"
  "verdict latin_db (lit ''pkill -f [n]ode'') = None"
  "verdict latin_db (lit ''pkill node'') = None"
  by code_simp+

end
