(* ===== verification/Mcp_Tools.thy ===== *)
theory Mcp_Tools
  imports Mcp_Catalog Bash_Guard
begin

text \<open>
  The requirements, the three tools and the JSON-RPC loop of \<^verbatim>\<open>skills-mcp/server.py\<close>. The server's state is
  the file tree and the cache; every tool gives the new state with a result or an error. \<open>Internal\<close>
  stands for any exception that is not a \<^verbatim>\<open>ValueError\<close>.
\<close>

record server =
  v_fs :: node
  v_cache :: cache

datatype tool_error =
    NameRequired pystr | SkillNotFound pystr | BadFilePath pystr | CannotRead read_fault
  | OldRequired | NewRequired | OldIsNew | NotInBody | Ambiguous nat | Unparseable fm_fault
  | Internal

text \<open>The branch a failed step takes.\<close>

definition orelse_fail :: "'a option \<Rightarrow> tool_error \<Rightarrow> ('a \<Rightarrow> tool_error + 'b) \<Rightarrow> tool_error + 'b" where
  "orelse_fail x e f = (case x of None \<Rightarrow> Inl e | Some a \<Rightarrow> f a)"

definition chain :: "tool_error + 'a \<Rightarrow> ('a \<Rightarrow> tool_error + 'b) \<Rightarrow> tool_error + 'b" where
  "chain x f = (case x of Inl e \<Rightarrow> Inl e | Inr a \<Rightarrow> f a)"

section \<open>Requirements\<close>

definition BUILTIN_TOOLS :: "pystr list" where
  "BUILTIN_TOOLS = map lit [''Bash'', ''Read'', ''Edit'', ''Write'', ''Glob'', ''Grep'', ''LS'', ''List'',
     ''WebFetch'', ''WebSearch'', ''Task'', ''Agent'', ''TodoWrite'', ''NotebookEdit'',
     ''Skill'', ''MultiEdit'', ''ExitPlanMode'']"

definition server_names :: "(pystr \<times> json) list \<Rightarrow> pystr list" where
  "server_names d = map fst (as_dict (jget d (lit ''mcpServers'')))"

text \<open>The parsed content of a configuration file; \<open>None\<close> when it cannot be read or parsed.\<close>

definition load_config :: "mcp_env \<Rightarrow> node \<Rightarrow> path \<Rightarrow> json option" where
  "load_config E fs p = (case snd (read_text p fs) of Inl e \<Rightarrow> None | Inr t \<Rightarrow> m_parse E t)"

definition registered_mcp_servers :: "mcp_env \<Rightarrow> node \<Rightarrow> tool_error + pystr list" where
  "registered_mcp_servers E fs =
     chain (case load_config E fs (m_home E @ [lit ''.claude.json'']) of
              None \<Rightarrow> Inr []
            | Some (JObj conf) \<Rightarrow>
                Inr (server_names conf
                  @ concat (map (\<lambda>(p, cfg). server_names (as_dict cfg)) (as_dict (jget conf (lit ''projects'')))))
            | Some j \<Rightarrow> Inl Internal)
       (\<lambda>a. case load_config E fs (m_here E @ [lit ''.mcp.json'']) of
              None \<Rightarrow> Inr a
            | Some (JObj d) \<Rightarrow> Inr (a @ server_names d)
            | Some j \<Rightarrow> Inl Internal)"

definition expand_home :: "mcp_env \<Rightarrow> pystr \<Rightarrow> path" where
  "expand_home E s =
     (if s = lit ''~'' \<or> prefix (lit ''~/'') s then m_home E @ comps (tl s)
      else if is_abs s then comps s else m_here E @ comps s)"

text \<open>
  The roots of the catalog from \<^verbatim>\<open>SKILLS_MCP_ROOTS\<close> or \<^verbatim>\<open>SKILLS_MCP_DIR\<close>, colon-separated, made absolute and
  normalised, each once.
\<close>

definition root_path :: "mcp_env \<Rightarrow> pystr \<Rightarrow> path" where
  "root_path E part = foldl (norm_step True) [] (expand_home E part)"

definition split_roots :: "mcp_env \<Rightarrow> pystr \<Rightarrow> path list" where
  "split_roots E raw =
     foldl (\<lambda>out p. if p \<in> set out then out else out @ [p]) []
       (map (root_path E) (filter (\<lambda>p. p \<noteq> []) (map py_strip (split_max [58] (length raw) raw))))"

definition skill_roots :: "mcp_env \<Rightarrow> path list" where
  "skill_roots E =
     (let var = (\<lambda>k. case m_environ E (lit k) of None \<Rightarrow> [] | Some v \<Rightarrow> py_strip v)
      in if var ''SKILLS_MCP_ROOTS'' \<noteq> [] then split_roots E (var ''SKILLS_MCP_ROOTS'')
         else if var ''SKILLS_MCP_DIR'' \<noteq> [] then split_roots E (var ''SKILLS_MCP_DIR'')
         else split_roots E (lit ''~/.claude/skills-lib:~/.claude/skills''))"

lemma split_roots_distinct: "distinct (split_roots E raw)"
proof -
  have "distinct out \<Longrightarrow> distinct (foldl (\<lambda>out p. if p \<in> set out then out else out @ [p]) out ps)" for out ps :: "path list"
    by (induction ps arbitrary: out) auto
  then show ?thesis by (simp add: split_roots_def)
qed

definition needs :: "(pystr \<times> json) list \<Rightarrow> char list \<Rightarrow> json list" where
  "needs req k = as_list (jget req (lit k))"

definition missing_mcp :: "mcp_env \<Rightarrow> pystr list \<Rightarrow> (pystr \<times> json) list \<Rightarrow> json list" where
  "missing_mcp E reg req = filter (\<lambda>m. mcp_str E m \<notin> set reg) (needs req ''mcp'')"

definition readiness :: "mcp_env \<Rightarrow> node \<Rightarrow> json \<Rightarrow> tool_error + json" where
  "readiness E fs requires =
     (let req = as_dict requires;
          miss_env = filter (\<lambda>e. m_environ E (mcp_str E e) \<in> {None, Some []}) (needs req ''env'');
          miss_cmd = filter (\<lambda>c. \<not> m_which E (mcp_str E c)) (needs req ''commands'');
          miss_file = filter (\<lambda>f. \<not> path_exists fs (expand_home E (mcp_str E f))) (needs req ''files'')
      in chain (registered_mcp_servers E fs) (\<lambda>reg.
          let missing = filter (\<lambda>(k, v). v \<noteq> [])
                [(lit ''env'', miss_env), (lit ''commands'', miss_cmd), (lit ''files'', miss_file),
                 (lit ''mcp'', missing_mcp E reg req)];
              tools = map (mcp_str E) (needs req ''tools'')
          in Inr (JObj
               ([(lit ''status'', JStr (if missing \<noteq> [] then lit ''setup_needed'' else lit ''available'')),
                 (lit ''missing'', if missing = [] then JNull else JObj (map (\<lambda>(k, v). (k, JArr v)) missing))]
                @ (if tools = [] then [] else [(lit ''required_tools'', JArr (map JStr tools))])))))"

text \<open>\<^verbatim>\<open>set(map(str, xs))\<close>: iterating a number, a truth value or nothing raises.\<close>

definition str_items :: "mcp_env \<Rightarrow> json \<Rightarrow> tool_error + pystr list" where
  "str_items E v =
     (case v of
        JArr xs \<Rightarrow> Inr (map (mcp_str E) xs)
      | JObj kvs \<Rightarrow> Inr (map fst kvs)
      | JStr s \<Rightarrow> Inr (map (\<lambda>c. [c]) s)
      | _ \<Rightarrow> Inl Internal)"

datatype hide_reason = HideMcp "json list" | HideTools "pystr list" | HideToolsets "pystr list"

text \<open>The test on \<^verbatim>\<open>tools\<close> and on \<^verbatim>\<open>toolsets\<close>: only with a stated need and a reported inventory.\<close>

definition inventory_gap ::
    "mcp_env \<Rightarrow> pystr list \<Rightarrow> json \<Rightarrow> pystr list \<Rightarrow> tool_error + pystr list" where
  "inventory_gap E req have builtin =
     (if req = [] \<or> have = JNull then Inr []
      else chain (str_items E have) (\<lambda>avail. Inr (filter (\<lambda>t. t \<notin> set (avail @ builtin)) req)))"

definition visibility_hide_reason ::
    "mcp_env \<Rightarrow> node \<Rightarrow> (pystr \<times> json) list \<Rightarrow> json \<Rightarrow> json \<Rightarrow> tool_error + hide_reason option" where
  "visibility_hide_reason E fs req agent_tools agent_toolsets =
     chain (registered_mcp_servers E fs) (\<lambda>reg.
       if missing_mcp E reg req \<noteq> [] then Inr (Some (HideMcp (missing_mcp E reg req)))
       else chain (inventory_gap E (map (mcp_str E) (needs req ''tools'')) agent_tools BUILTIN_TOOLS) (\<lambda>miss.
         if miss \<noteq> [] then Inr (Some (HideTools miss))
         else chain (inventory_gap E (map (mcp_str E) (needs req ''toolsets'')) agent_toolsets []) (\<lambda>miss'.
           Inr (if miss' \<noteq> [] then Some (HideToolsets miss') else None))))"

section \<open>skills\_list\<close>

definition optional_field :: "char list \<Rightarrow> pystr option \<Rightarrow> (pystr \<times> json) list" where
  "optional_field k v = (case v of None \<Rightarrow> [] | Some s \<Rightarrow> [(lit k, JStr s)])"

definition public_entry :: "entry \<Rightarrow> json" where
  "public_entry e = JObj ((lit ''name'', JStr (e_name e)) # optional_field ''description'' (e_desc e)
     @ optional_field ''category'' (e_category e) @ optional_field ''trigger'' (e_trigger e))"

text \<open>\<^verbatim>\<open>(args.get(k) or "").strip()\<close>.\<close>

definition text_arg :: "(pystr \<times> json) list \<Rightarrow> char list \<Rightarrow> tool_error + pystr" where
  "text_arg args k =
     (case jor (jget args (lit k)) (JStr []) of JStr s \<Rightarrow> Inr (py_strip s) | _ \<Rightarrow> Inl Internal)"

fun sift :: "(entry \<Rightarrow> tool_error + bool) \<Rightarrow> entry list \<Rightarrow> tool_error + entry list \<times> nat" where
  "sift hide [] = Inr ([], 0)"
| "sift hide (e # es) =
     chain (hide e) (\<lambda>h. chain (sift hide es) (\<lambda>(vis, n).
       Inr (if h then (vis, Suc n) else (e # vis, n))))"

record listing_result =
  l_skills :: "entry list"
  l_hidden :: nat
  l_hint :: bool

definition hides :: "mcp_env \<Rightarrow> node \<Rightarrow> (pystr \<times> json) list \<Rightarrow> entry \<Rightarrow> tool_error + bool" where
  "hides E fs args e =
     (if truthy (jget args (lit ''all'')) then Inr False
      else chain (visibility_hide_reason E fs (e_requires e) (jget args (lit ''agent_tools''))
                    (jget args (lit ''agent_toolsets'')))
             (\<lambda>r. Inr (r \<noteq> None)))"

definition list_catalog ::
    "mcp_env \<Rightarrow> node \<Rightarrow> entry list \<Rightarrow> pystr \<Rightarrow> (pystr \<times> json) list \<Rightarrow> tool_error + listing_result" where
  "list_catalog E fs catalog category args =
       chain (sift (hides E fs args)
               (if category = [] then catalog
                else filter (\<lambda>e. (case e_category e of None \<Rightarrow> [] | Some s \<Rightarrow> s) = category) catalog))
         (\<lambda>(vis, hidden). Inr \<lparr>l_skills = sort_key e_name vis, l_hidden = hidden,
            l_hint = (jget args (lit ''agent_tools'') = JNull)\<rparr>)"

definition jnat :: "nat \<Rightarrow> json" where "jnat n = JNum (of_nat n)"

definition skills_dir :: "mcp_env \<Rightarrow> pystr" where
  "skills_dir E = path_text (case m_roots E of [] \<Rightarrow> m_home E @ [lit ''.claude'', lit ''skills''] | R # _ \<Rightarrow> R)"

definition hidden_note :: "nat \<Rightarrow> pystr" where
  "hidden_note n = decimal n @ lit '' skill(s) hidden '' @ [8212]
     @ lit '' required tools/servers unavailable. Call skills_list with all=true to see them.''"

definition tools_hint :: pystr where
  "tools_hint =
     lit ''Tip: pass agent_tools=[...] (your available tool names) so skills needing tools you lack are hidden. ''
     @ lit ''Without it, tool-gated skills are shown.''"

definition listing_json :: "mcp_env \<Rightarrow> listing_result \<Rightarrow> json" where
  "listing_json E r = JObj
     ([(lit ''skills_dir'', JStr (skills_dir E)), (lit ''count'', jnat (length (l_skills r))),
       (lit ''skills'', JArr (map public_entry (l_skills r)))]
      @ (if l_hidden r = 0 then [] else [(lit ''hidden_count'', jnat (l_hidden r)), (lit ''hidden_note'', JStr (hidden_note (l_hidden r)))])
      @ (if l_hint r then [(lit ''_hint'', JStr tools_hint)] else []))"

definition tool_skills_list :: "mcp_env \<Rightarrow> (pystr \<times> json) list \<Rightarrow> server \<Rightarrow> server \<times> (tool_error + json)" where
  "tool_skills_list E args s =
     (case text_arg args ''category'' of
        Inl e \<Rightarrow> (s, Inl e)
      | Inr category \<Rightarrow>
          (let ix = build_index E (v_fs s) (v_cache s)
           in (s\<lparr>v_cache := ix_cache ix\<rparr>,
               chain (list_catalog E (v_fs s) (ix_entries ix) category args) (\<lambda>r. Inr (listing_json E r)))))"

section \<open>skill\_view\<close>

definition linked_json :: "pystr list \<Rightarrow> json" where
  "linked_json fs = (if fs = [] then JNull else JArr (map JStr fs))"

definition usage_hint :: "pystr list \<Rightarrow> json" where
  "usage_hint fs = (if fs = [] then JNull else JStr (lit ''To read a linked file, call skill_view(name, file_path) e.g. file_path='references/api.md'' @ [quote]))"

text \<open>The body of \<^verbatim>\<open>tool_skill_view\<close> once the skill's directory is known.\<close>

definition view_in :: "mcp_env \<Rightarrow> node \<Rightarrow> path \<Rightarrow> pystr \<Rightarrow> pystr \<Rightarrow> tool_error + json" where
  "view_in E fs dir name file_path =
     (if file_path \<noteq> [] then
        (case safe_join fs dir file_path of
           None \<Rightarrow> Inl (BadFilePath file_path)
         | Some p \<Rightarrow>
             (case read_text_capped False fs p of
                Inl e \<Rightarrow> Inl (CannotRead e)
              | Inr t \<Rightarrow> Inr (JObj [(lit ''name'', JStr name), (lit ''file_path'', JStr file_path), (lit ''content'', JStr t)])))
      else
        (case read_text_capped True fs (dir @ [skill_md]) of
           Inl e \<Rightarrow> Inl (CannotRead e)
         | Inr text \<Rightarrow>
             (let (fm, body, st) = split_frontmatter_ex (m_repr E) (m_yaml E) text;
                  linked = linked_files fs dir
              in chain (readiness E fs (jget fm (lit ''requires''))) (\<lambda>ready.
                Inr (JObj [(lit ''name'', JStr (mcp_str E (jor (jget fm (lit ''name'')) (JStr name)))),
                  (lit ''description'', JStr (mcp_str E (jor (jget fm (lit ''description'')) (JStr [])))),
                  (lit ''content'', JStr body), (lit ''linked_files'', linked_json linked),
                  (lit ''usage_hint'', usage_hint linked), (lit ''readiness'', ready)])))))"

definition tool_skill_view :: "mcp_env \<Rightarrow> (pystr \<times> json) list \<Rightarrow> server \<Rightarrow> server \<times> (tool_error + json)" where
  "tool_skill_view E args s =
     (case chain (text_arg args ''name'') (\<lambda>name. chain (text_arg args ''file_path'') (\<lambda>fp.
             if name = [] then Inl (NameRequired (lit ''skill_view'')) else Inr (name, fp))) of
        Inl e \<Rightarrow> (s, Inl e)
      | Inr (name, fp) \<Rightarrow>
          (let s' = s\<lparr>v_cache := ix_cache (build_index E (v_fs s) (v_cache s))\<rparr>
           in (s', case resolve_skill_dir E (v_fs s) (v_cache s) name of
                     None \<Rightarrow> Inl (SkillNotFound name)
                   | Some dir \<Rightarrow> view_in E (v_fs s) dir name fp)))"

section \<open>skill\_patch\<close>

text \<open>
  The atomic write: a file with a name nobody else uses (\<^verbatim>\<open>mkstemp\<close>) is filled and renamed over \<^verbatim>\<open>SKILL.md\<close>,
  replacing what is there, a link included. When anything fails the temporary file is taken away.
\<close>

definition os_unlink :: "path \<Rightarrow> node \<Rightarrow> node" where
  "os_unlink p fs =
     (case lplace fs p of
        None \<Rightarrow> fs
      | Some q \<Rightarrow> (case tget fs q of None \<Rightarrow> fs | Some (Dir _) \<Rightarrow> fs | Some _ \<Rightarrow> tdel q fs))"

definition os_replace :: "path \<Rightarrow> path \<Rightarrow> unit io" where
  "os_replace src dst fs =
     (case (lplace fs src, lplace fs dst) of
        (Some q, Some d) \<Rightarrow>
          (case tget fs q of
             None \<Rightarrow> (fs, Inl NoSuchFile)
           | Some n \<Rightarrow>
               if dir_at fs d then (fs, Inl IsADirectory)
               else if dir_at fs (butlast d) then (tput d n (tdel q fs), Inr ())
               else (fs, Inl (parent_error fs d)))
      | _ \<Rightarrow> (fs, Inl LinkLoop))"

definition atomic_write :: "path \<Rightarrow> pystr \<Rightarrow> path \<Rightarrow> pystr \<Rightarrow> unit io" where
  "atomic_write dir tmp md t fs =
     (case open_excl (dir @ [tmp]) t fs of
        (fs1, Inl e) \<Rightarrow> (fs1, Inl e)
      | (fs1, Inr _) \<Rightarrow>
          (case os_replace (dir @ [tmp]) md fs1 of
             (fs2, Inl e) \<Rightarrow> (os_unlink (dir @ [tmp]) fs2, Inl e)
           | (fs2, Inr _) \<Rightarrow> (fs2, Inr ())))"

definition default_source :: pystr where "default_source = lit ''skills-mcp''"

definition patch_source :: "mcp_env \<Rightarrow> (pystr \<times> json) list \<Rightarrow> tool_error + pystr" where
  "patch_source E args =
     (case jor (jget args (lit ''edited_by'')) (case m_environ E (lit ''AUTO_SKILL_SOURCE'') of
                None \<Rightarrow> JStr default_source
              | Some v \<Rightarrow> if v = [] then JStr default_source else JStr v) of
        JStr v \<Rightarrow>
          (let s = py_strip v; first = (if s = [] then [] else py_strip (hd (splitlines s)))
           in Inr (if first = [] then default_source else first))
      | _ \<Rightarrow> Inl Internal)"

record patch =
  p_text :: pystr
  p_body :: pystr
  p_source :: pystr

text \<open>The new text of the file, from its old text.\<close>

definition mcp_hash :: "mcp_env \<Rightarrow> pystr \<Rightarrow> pystr" where
  "mcp_hash E body = m_sha E (py_strip body)"

definition fm_status :: "mcp_env \<Rightarrow> pystr \<Rightarrow> fm_fault option" where
  "fm_status E text = snd (snd (split_frontmatter_ex (m_repr E) (m_yaml E) text))"

definition patch_text ::
    "mcp_env \<Rightarrow> (pystr \<times> json) list \<Rightarrow> json \<Rightarrow> json \<Rightarrow> pystr \<Rightarrow> tool_error + patch" where
  "patch_text E args old_string new_string text =
     (let (fm, body) = raw_frontmatter text
      in case old_string of
           JStr old \<Rightarrow>
             if count_sub old body = 0 then Inl NotInBody
             else if count_sub old body > 1 then Inl (Ambiguous (count_sub old body))
             else (case new_string of
                JStr new \<Rightarrow>
                  (let new_body = replace_first old new body
                   in chain (patch_source E args) (\<lambda>source.
                     let new_text = patched_text (stamp_keys fm (mcp_hash E new_body) (m_now E) source) new_body
                     in case fm_status E new_text of
                          Some st \<Rightarrow> if fm_status E text = None then Inl (Unparseable st)
                                     else Inr \<lparr>p_text = new_text, p_body = new_body, p_source = source\<rparr>
                        | None \<Rightarrow> Inr \<lparr>p_text = new_text, p_body = new_body, p_source = source\<rparr>))
              | _ \<Rightarrow> Inl Internal)
         | _ \<Rightarrow> Inl Internal)"

definition patch_result :: "mcp_env \<Rightarrow> pystr \<Rightarrow> patch \<Rightarrow> json" where
  "patch_result E name p = JObj [(lit ''name'', JStr name), (lit ''patched'', JBool True),
     (lit ''content_hash'', JStr (mcp_hash E (p_body p))), (lit ''edited_by'', JStr (p_source p)),
     (lit ''body_chars'', jnat (length (p_body p)))]"

definition patch_checks :: "(pystr \<times> json) list \<Rightarrow> tool_error + pystr \<times> json \<times> json" where
  "patch_checks args =
     chain (text_arg args ''name'') (\<lambda>name.
       let old = jget args (lit ''old_string''); new = jget args (lit ''new_string'')
       in if name = [] then Inl (NameRequired (lit ''skill_patch''))
          else if \<not> truthy old then Inl OldRequired
          else if new = JNull then Inl NewRequired
          else if old = new then Inl OldIsNew
          else Inr (name, old, new))"

definition tool_skill_patch :: "mcp_env \<Rightarrow> (pystr \<times> json) list \<Rightarrow> server \<Rightarrow> server \<times> (tool_error + json)" where
  "tool_skill_patch E args s =
     (case patch_checks args of
        Inl e \<Rightarrow> (s, Inl e)
      | Inr (name, old, new) \<Rightarrow>
          (let fs = v_fs s; s' = s\<lparr>v_cache := ix_cache (build_index E fs (v_cache s))\<rparr>
           in case resolve_skill_dir E fs (v_cache s) name of
                None \<Rightarrow> (s', Inl (SkillNotFound name))
              | Some dir \<Rightarrow>
                  (case read_text_capped True fs (dir @ [skill_md]) of
                     Inl e \<Rightarrow> (s', Inl (CannotRead e))
                   | Inr text \<Rightarrow>
                       (case patch_text E args old new text of
                          Inl e \<Rightarrow> (s', Inl e)
                        | Inr p \<Rightarrow>
                            (case atomic_write dir (m_tmp E) (dir @ [skill_md]) (p_text p) fs of
                               (fs', Inl e) \<Rightarrow> (s'\<lparr>v_fs := fs'\<rparr>, Inl Internal)
                             | (fs', Inr _) \<Rightarrow> (s'\<lparr>v_fs := fs'\<rparr>, Inr (patch_result E name p)))))))"

section \<open>JSON-RPC\<close>

text \<open>An error keeps what its message quotes: the line, the tool or the method.\<close>

datatype rpc_error = ParseError pystr | InvalidRequest | UnknownTool json | MethodNotFound json | InternalError

datatype rpc_body = Initialized pystr | Pong | ToolsListed | ToolResult json | ToolFailed tool_error | RpcError rpc_error

record reply =
  rp_id :: json
  rp_body :: rpc_body

definition SUPPORTED_PROTOCOL_VERSIONS :: "pystr list" where
  "SUPPORTED_PROTOCOL_VERSIONS = map lit [''2025-06-18'', ''2025-03-26'', ''2024-11-05'']"

definition DEFAULT_PROTOCOL_VERSION :: pystr where
  "DEFAULT_PROTOCOL_VERSION = lit ''2025-06-18''"

definition tool_impl ::
    "json \<Rightarrow> (mcp_env \<Rightarrow> (pystr \<times> json) list \<Rightarrow> server \<Rightarrow> server \<times> (tool_error + json)) option" where
  "tool_impl j = (case j of
      JStr n \<Rightarrow> if n = lit ''skills_list'' then Some tool_skills_list
                 else if n = lit ''skill_view'' then Some tool_skill_view
                 else if n = lit ''skill_patch'' then Some tool_skill_patch else None
    | _ \<Rightarrow> None)"

text \<open>\<open>Inl ()\<close> is an exception that leaves \<^verbatim>\<open>handle\<close>; \<open>Inr None\<close> is no reply.\<close>

definition call_tool :: "mcp_env \<Rightarrow> json \<Rightarrow> (pystr \<times> json) list \<Rightarrow> server \<Rightarrow> server \<times> (unit + reply option)" where
  "call_tool E msg_id params s =
     (if \<not> hashable (jget params (lit ''name'')) then (s, Inl ())
      else case tool_impl (jget params (lit ''name'')) of
             None \<Rightarrow> (s, Inr (Some \<lparr>rp_id = msg_id, rp_body = RpcError (UnknownTool (jget params (lit ''name'')))\<rparr>))
           | Some impl \<Rightarrow>
               (case jor (jget params (lit ''arguments'')) (JObj []) of
                  JObj args \<Rightarrow>
                    (case impl E args s of
                       (s', Inl e) \<Rightarrow> (s', Inr (Some \<lparr>rp_id = msg_id, rp_body = ToolFailed e\<rparr>))
                     | (s', Inr r) \<Rightarrow> (s', Inr (Some \<lparr>rp_id = msg_id, rp_body = ToolResult r\<rparr>)))
                | _ \<Rightarrow> (s, Inr (Some \<lparr>rp_id = msg_id, rp_body = ToolFailed Internal\<rparr>))))"

definition handle :: "mcp_env \<Rightarrow> (pystr \<times> json) list \<Rightarrow> server \<Rightarrow> server \<times> (unit + reply option)" where
  "handle E msg s =
     (let meth = jget msg (lit ''method''); msg_id = jget msg (lit ''id'');
          params = jor (jget msg (lit ''params'')) (JObj []);
          is_notification = (map_of msg (lit ''id'') = None);
          answer = (\<lambda>b. (s, Inr (Some \<lparr>rp_id = msg_id, rp_body = b\<rparr>)))
      in if meth = JStr (lit ''initialize'') then
           (case params of
              JObj ps \<Rightarrow>
                (let v = jget ps (lit ''protocolVersion'')
                 in if \<not> hashable v then (s, Inl ())
                    else answer (Initialized (case v of
                           JStr p \<Rightarrow> if p \<in> set SUPPORTED_PROTOCOL_VERSIONS then p else DEFAULT_PROTOCOL_VERSION
                         | _ \<Rightarrow> DEFAULT_PROTOCOL_VERSION)))
            | _ \<Rightarrow> (s, Inl ()))
         else if meth = JStr (lit ''notifications/initialized'') \<or> meth = JStr (lit ''initialized'') then (s, Inr None)
         else if meth = JStr (lit ''ping'') then answer Pong
         else if meth = JStr (lit ''tools/list'') then answer ToolsListed
         else if meth = JStr (lit ''tools/call'') then
           (case params of JObj ps \<Rightarrow> call_tool E msg_id ps s | _ \<Rightarrow> (s, Inl ()))
         else if is_notification then (s, Inr None)
         else answer (RpcError (MethodNotFound meth)))"

text \<open>
  One line of input that \<^verbatim>\<open>json.loads\<close> accepts or refuses with \<^verbatim>\<open>JSONDecodeError\<close>; the environment (clock, modification
  times) is that of the moment.
\<close>

definition answer_line :: "mcp_env \<Rightarrow> pystr \<Rightarrow> server \<Rightarrow> server \<times> reply list" where
  "answer_line E line s =
     (if py_strip line = [] then (s, [])
      else case m_parse E (py_strip line) of
             None \<Rightarrow> (s, [\<lparr>rp_id = JNull, rp_body = RpcError (ParseError (py_strip line))\<rparr>])
           | Some (JObj msg) \<Rightarrow>
               (case handle E msg s of
                  (s', Inl _) \<Rightarrow> (s', [\<lparr>rp_id = jget msg (lit ''id''), rp_body = RpcError InternalError\<rparr>])
                | (s', Inr r) \<Rightarrow> (s', (case r of None \<Rightarrow> [] | Some x \<Rightarrow> [x])))
           | Some j \<Rightarrow> (s, [\<lparr>rp_id = JNull, rp_body = RpcError InvalidRequest\<rparr>]))"

text \<open>Any other exception of \<^verbatim>\<open>json.loads\<close> leaves the loop: \<open>None\<close>.\<close>

definition serve_line :: "mcp_env \<Rightarrow> pystr \<Rightarrow> server \<Rightarrow> (server \<times> reply list) option" where
  "serve_line E line s =
     (if py_strip line \<noteq> [] \<and> m_aborts E (py_strip line) then None else Some (answer_line E line s))"

text \<open>The loop: the state it ends in, its replies, and whether it ended with an exception.\<close>

fun serve :: "(mcp_env \<times> pystr) list \<Rightarrow> server \<Rightarrow> server \<times> reply list \<times> bool" where
  "serve [] s = (s, [], False)"
| "serve ((E, line) # rest) s =
     (case serve_line E line s of
        None \<Rightarrow> (s, [], True)
      | Some (s1, out1) \<Rightarrow> (case serve rest s1 of (s2, out2, crashed) \<Rightarrow> (s2, out1 @ out2, crashed)))"

end
