(* ===== verification/Mcp_Serving.thy ===== *)
theory Mcp_Serving
  imports Mcp_Tools "HOL-Library.Multiset"
begin

text \<open>
  What the skill librarian guarantees: its index, the confinement of what it serves, the effect and the
  honesty of a patch, the reasons for hiding, and the replies of its loop.
\<close>

section \<open>Confinement\<close>

lemma realpath_file:
  assumes "isfile fs (realpath fs p)"
  shows "resolve fs link_limit [] p = Some (realpath fs p)"
proof (cases "resolve fs link_limit [] p")
  case None
  with assms show ?thesis by (simp add: realpath_def isfile_def stat_def)
next
  case (Some q)
  then show ?thesis by (simp add: realpath_def)
qed

lemma link_free_prefix: "link_free fs p \<Longrightarrow> prefix q p \<Longrightarrow> link_free fs q"
  by (auto simp: link_free_def dest: prefix_order.trans)

lemma resolved_plain:
  "resolve fs k cur p = Some r \<Longrightarrow> plain_path cur \<Longrightarrow> plain_path r"
proof (induction k cur p rule: resolve_induct [where fs = fs])
  case (follow k cur c rest t)
  then show ?case by (auto simp: resolve_follow split: if_splits)
next
  case (up k cur rest)
  then show ?case by (auto simp: resolve_up plain_path_def list_all_iff dest: in_set_butlastD)
qed (auto simp: resolve_steps)

lemma resolve_settled:
  "link_free fs (cur @ p) \<Longrightarrow> plain_path p \<Longrightarrow> resolve fs k cur p = Some (cur @ p)"
proof (induction p arbitrary: cur)
  case (Cons c p)
  then have "\<nexists>t. tget fs (cur @ [c]) = Some (Link t)" by (auto simp: link_free_def)
  with Cons.prems Cons.IH [of "cur @ [c]"] show ?case by (simp add: resolve_step)
qed (simp)

lemma link_free_root: "is_dir fs \<Longrightarrow> link_free fs []"
  by (cases fs) (auto simp: link_free_def)

lemma safe_join_confined:
  assumes "safe_join fs dir fp = Some p" "is_dir fs"
  shows "strict_prefix (realpath fs dir) p" "\<exists>t. tget fs p = Some (File t)" "lplace fs p = Some p" "link_free fs p"
proof -
  from assms(1) have p: "p = realpath fs (realpath fs dir @ comps fp)" "p \<noteq> realpath fs dir"
      "prefix (realpath fs dir) p" "isfile fs p"
    by (auto simp: safe_join_def Let_def split: if_splits)
  then show "strict_prefix (realpath fs dir) p" by (simp add: strict_prefix_def)
  then have ne: "p \<noteq> []" by auto
  have r: "resolve fs link_limit [] (realpath fs dir @ comps fp) = Some p"
    using realpath_file p(1,4) by metis
  show lf: "link_free fs p" using resolve_link_free [OF r] link_free_root assms(2) by blast
  have pl: "plain_path p" using resolved_plain [OF r] by simp
  have "resolve fs link_limit [] p = Some p" using resolve_settled [of fs "[]" p] lf pl by simp
  with p(4) show "\<exists>t. tget fs p = Some (File t)"
    by (auto simp: isfile_def stat_def split: option.splits elim: is_file.elims)
  have "resolve fs link_limit [] (butlast p) = Some (butlast p)"
    using resolve_settled [of fs "[]" "butlast p"] link_free_butlast [OF lf] pl
    by (simp add: plain_path_def list_all_iff in_set_butlastD)
  then show "lplace fs p = Some p" using ne by (simp add: lplace_def)
qed

section \<open>The atomic write\<close>

lemma alist_update_same: "map_of cs x = Some c \<Longrightarrow> AList.update x c cs = cs"
  by (induction cs) (auto split: if_splits)

lemma alist_update_twice: "AList.update x a (AList.update x b cs) = AList.update x a cs"
  by (induction cs) auto

lemma alist_delete_snoc: "map_of cs x = None \<Longrightarrow> AList.delete x (cs @ [(x, m)]) = cs"
  by (induction cs) (auto simp: AList.delete_eq map_of_eq_None_iff split: if_splits)

lemma tdel_tput_vacant:
  "tget n p = None \<Longrightarrow> p \<noteq> [] \<Longrightarrow> tdel p (tput p m n) = n"
proof (induction p m n rule: tput.induct)
  case (2 x xs m cs)
  then show ?case
    by (auto simp: alist_delete_snoc update_conv' alist_update_twice alist_update_same split: option.splits)
qed auto

lemma atomic_write_cases:
  assumes f: "stat fs (dir @ [skill_md]) = Some (File old)" and d: "is_dir fs"
  shows "(\<exists>e. atomic_write dir tmp (dir @ [skill_md]) t fs = (fs, Inl e)) \<or>
    (\<exists>q. lplace fs (dir @ [skill_md]) = Some q
       \<and> atomic_write dir tmp (dir @ [skill_md]) t fs = (tput q (File t) fs, Inr ()))"
proof -
  have sm: "plain_name skill_md" by (simp add: plain_name_def skill_md_def)
  obtain D where D: "resolve fs link_limit [] dir = Some D" "dir_at fs D" "tget fs (D @ [skill_md]) \<noteq> None"
    using child_exists [of fs dir skill_md] f sm by auto
  let ?tmp = "D @ [tmp]" and ?md = "D @ [skill_md]"
  have lp: "lplace fs (dir @ [c]) = Some (D @ [c])" for c using D(1) by (simp add: lplace_def)
  have nd: "\<not> dir_at fs ?md"
  proof
    assume "dir_at fs ?md"
    then obtain cs where cs: "tget fs ?md = Some (Dir cs)"
      by (auto simp: dir_at_def split: option.splits elim: is_dir.elims)
    with resolve_snoc [OF D(1) sm] have "stat fs (dir @ [skill_md]) = Some (Dir cs)" by (simp add: stat_def)
    with f show False by simp
  qed
  show ?thesis
  proof (cases "tget fs ?tmp")
    case (Some n)
    then show ?thesis by (simp add: atomic_write_def open_excl_def create_at_def lp)
  next
    case None
    with D(3) have ne: "tmp \<noteq> skill_md" by auto
    let ?fs1 = "tput ?tmp (File t) fs"
    have o: "open_excl (dir @ [tmp]) t fs = (?fs1, Inr ())"
      using None D(2) by (simp add: open_excl_def create_at_def lp)
    have "same_links fs ?fs1" using same_links_tput [of fs ?tmp "File t"] None D(2) by simp
    then have lp1: "lplace ?fs1 (dir @ [c]) = Some (D @ [c])" for c
      using D(1) by (simp add: lplace_def resolve_same_links)
    have g: "tget ?fs1 ?tmp = Some (File t)" using tget_tput_self [of ?tmp fs] D(2) by simp
    have "tget ?fs1 ?md = tget fs ?md" using ne by (intro tget_tput_other) auto
    then have nd1: "\<not> dir_at ?fs1 ?md" using nd by (simp add: dir_at_def)
    have "dir_at ?fs1 D" using D(2) by (intro dir_at_tput_above) (auto simp: strict_prefix_def)
    then have "os_replace (dir @ [tmp]) (dir @ [skill_md]) ?fs1 = (tput ?md (File t) (tdel ?tmp ?fs1), Inr ())"
      using g nd1 by (simp add: os_replace_def lp1)
    then have "atomic_write dir tmp (dir @ [skill_md]) t fs = (tput ?md (File t) fs, Inr ())"
      using o None by (simp add: atomic_write_def tdel_tput_vacant)
    with lp show ?thesis by blast
  qed
qed

lemma read_capped_stat: "read_text_capped True fs p = Inr t \<Longrightarrow> stat fs p = Some (File t)"
  by (auto simp: read_text_capped_def open_node_def split: option.splits node.splits if_splits)

section \<open>Monadic steps\<close>

lemma chain_Inr: "chain x f = Inr b \<longleftrightarrow> (\<exists>a. x = Inr a \<and> f a = Inr b)"
  by (cases x) (auto simp: chain_def)

lemma chain_simps [simp]: "chain (Inr a) f = f a" "chain (Inl e) f = Inl e"
  by (simp_all add: chain_def)

section \<open>The index and what can be viewed\<close>

definition sample_mcp :: mcp_env where
  "sample_mcp = \<lparr>m_db = latin_db, m_yaml = None, m_repr = (\<lambda>_. []), m_platform = lit ''linux'',
     m_roots = [[lit ''lib''], [lit ''skills'']], m_mtime = (\<lambda>_. 0), m_environ = (\<lambda>_. None), m_which = (\<lambda>_. False),
     m_parse = (\<lambda>_. None), m_aborts = (\<lambda>_. False), m_home = [lit ''home''], m_here = [lit ''work''], m_sha = (\<lambda>s. lit ''hash''),
     m_now = lit ''now'', m_tmp = lit ''.tmp''\<rparr>"

definition sample_skill :: "char list \<Rightarrow> char list \<Rightarrow> node" where
  "sample_skill n b = Dir [(skill_md, File (lit ''---'' @ [10] @ lit ''name: '' @ lit n @ [10] @ lit ''---'' @ [10] @ lit b)),
     (lit ''ref'', Dir [(lit ''api.md'', File (lit ''the api''))])]"

definition sample_lib :: node where
  "sample_lib = Dir [(lit ''lib'', Dir [(lit ''a'', sample_skill ''one'' ''do x'')]),
     (lit ''skills'', Dir [(lit ''b'', sample_skill ''two'' ''do y''), (lit ''c'', sample_skill ''one'' ''do z'')])]"

definition sample_server :: server where
  "sample_server = \<lparr>v_fs = sample_lib, v_cache = []\<rparr>"

text \<open>
  The index is what its specification says whatever a coherent cache holds: the parsable candidates of
  all roots in order, of each name the first (an earlier root shadows a later one), every candidate
  either listed or excluded with a reason, and the cache stays coherent.
\<close>

theorem catalog_first_wins:
  assumes "coherent E fs c"
  shows "load_catalog E fs c = first_wins [] (valid_entries E fs (iter_skill_dirs E fs))
    \<and> distinct (map e_name (load_catalog E fs c))
    \<and> coherent E fs (ix_cache (build_index E fs c))
    \<and> length (load_catalog E fs c) + length (ix_excluded (build_index E fs c)) = length (iter_skill_dirs E fs)"
  using build_index_spec [OF assms] first_wins_distinct [of "[]"] by (simp add: load_catalog_def)

theorem catalog_first_wins_witness:
  "coherent sample_mcp sample_lib (ix_cache (build_index sample_mcp sample_lib []))
   \<and> map (\<lambda>e. (e_name e, e_path e)) (load_catalog sample_mcp sample_lib (ix_cache (build_index sample_mcp sample_lib [])))
     = [(lit ''one'', [lit ''lib'', lit ''a'', skill_md]), (lit ''two'', [lit ''skills'', lit ''b'', skill_md])]"
proof -
  note empty = catalog_first_wins [of sample_mcp sample_lib "[]"]
  then have "load_catalog sample_mcp sample_lib (ix_cache (build_index sample_mcp sample_lib []))
      = load_catalog sample_mcp sample_lib []"
    using catalog_first_wins [of sample_mcp sample_lib "ix_cache (build_index sample_mcp sample_lib [])"] by simp
  moreover have "map (\<lambda>e. (e_name e, e_path e)) (load_catalog sample_mcp sample_lib [])
     = [(lit ''one'', [lit ''lib'', lit ''a'', skill_md]), (lit ''two'', [lit ''skills'', lit ''b'', skill_md])]"
    by code_simp
  ultimately show ?thesis using empty by simp
qed

lemma listed_viewable:
  assumes coh: "coherent E (v_fs s) (v_cache s)" and e: "e \<in> set (load_catalog E (v_fs s) (v_cache s))"
    and reg: "registered_mcp_servers E (v_fs s) = Inr reg"
  shows "\<exists>text j. read_text_capped True (v_fs s) (e_path e) = Inr text
     \<and> snd (tool_skill_view E [(lit ''name'', JStr (e_name e))] s) = Inr (JObj j)
     \<and> jget j (lit ''content'') = JStr (fst (snd (split_frontmatter_ex (m_repr E) (m_yaml E) text)))"
proof -
  obtain R md where md: "(R, md) \<in> set (iter_skill_dirs E (v_fs s))" "parse_fresh E (v_fs s) R md = Inr e"
    using valid_entry [OF e [unfolded load_catalog_def] coh] by blast
  note p = parsed_entry [OF md(2)]
  from md(1) have "butlast md @ [skill_md] = md"
    by (auto simp: iter_skill_dirs_def iter_root_def butlast_append split: option.splits node.splits)
  moreover have "resolve_skill_dir E (v_fs s) (v_cache s) (e_name e) = Some (butlast md)"
    using resolve_listed [OF coh e [unfolded load_catalog_def] coh] p(1) by simp
  moreover obtain src where "read_text_capped True (v_fs s) md = Inr src" using p(4) by blast
  moreover have "\<exists>r. readiness E (v_fs s) q = Inr r" for q
    using reg by (auto simp: readiness_def Let_def)
  then have "\<exists>r. \<forall>q. readiness E (v_fs s) q = Inr (r q)" by metis
  then obtain r where "\<And>q. readiness E (v_fs s) q = Inr (r q)" by blast
  ultimately show ?thesis using p(1-3)
    by (cases "split_frontmatter_ex (m_repr E) (m_yaml E) src")
       (simp add: tool_skill_view_def text_arg_def jget_def jor_def Let_def view_in_def lit_eq_iff)
qed

text \<open>
  C27. What is listed can be viewed: for every entry of the index, \<^verbatim>\<open>skill_view\<close> by its name answers with that
  entry's own file. It can fail only when a configuration file of the MCP servers has no object at its
  top.
\<close>

theorem listed_is_viewable:
  assumes coh: "coherent E (v_fs s) (v_cache s)" and e: "e \<in> set (load_catalog E (v_fs s) (v_cache s))"
    and reg: "registered_mcp_servers E (v_fs s) = Inr reg"
  shows "\<exists>text j. read_text_capped True (v_fs s) (e_path e) = Inr text
     \<and> snd (tool_skill_view E [(lit ''name'', JStr (e_name e))] s) = Inr (JObj j)
     \<and> jget j (lit ''content'') = JStr (fst (snd (split_frontmatter_ex (m_repr E) (m_yaml E) text)))"
  using assms by (rule listed_viewable)

theorem listed_is_viewable_witness:
  "\<exists>j. snd (tool_skill_view sample_mcp [(lit ''name'', JStr (lit ''two''))] sample_server) = Inr (JObj j)"
proof -
  let ?E = sample_mcp and ?s = sample_server
  obtain e where e: "e \<in> set (load_catalog ?E (v_fs ?s) (v_cache ?s))" "e_name e = lit ''two''"
  proof -
    have "map e_name (load_catalog ?E (v_fs ?s) (v_cache ?s)) = [lit ''one'', lit ''two'']" by code_simp
    then have "lit ''two'' \<in> e_name ` set (load_catalog ?E (v_fs ?s) (v_cache ?s))"
      by (metis list.set_intros(1,2) list.set_map)
    then show thesis by (rule imageE) (simp add: that)
  qed
  have c: "coherent ?E (v_fs ?s) (v_cache ?s)" by (simp add: sample_server_def)
  have r: "registered_mcp_servers ?E (v_fs ?s) = Inr []" by code_simp
  from listed_is_viewable [OF c e(1) r] e(2) show ?thesis by auto
qed

text \<open>
  C4. A reference file is served only from inside its skill: the content is that of a plain file strictly below
  the real path of the skill's directory, reached without any link, at most the cap in size; neither
  \<^verbatim>\<open>..\<close>, nor an absolute path, nor a link leads out.
\<close>

theorem view_serves_only_inside:
  assumes r: "tool_skill_view E args s = (s', Inr j)" and fp: "text_arg args ''file_path'' = Inr fp" "fp \<noteq> []"
    and d: "is_dir (v_fs s)"
  shows "\<exists>name dir p t. resolve_skill_dir E (v_fs s) (v_cache s) name = Some dir
     \<and> strict_prefix (realpath (v_fs s) dir) p \<and> link_free (v_fs s) p \<and> tget (v_fs s) p = Some (File t)
     \<and> utf8_len t \<le> MAX_FILE_BYTES
     \<and> j = JObj [(lit ''name'', JStr name), (lit ''file_path'', JStr fp), (lit ''content'', JStr t)]"
proof -
  from r fp obtain name dir where n: "resolve_skill_dir E (v_fs s) (v_cache s) name = Some dir"
      "view_in E (v_fs s) dir name fp = Inr j"
    by (auto simp: tool_skill_view_def Let_def chain_def split: sum.splits if_splits option.splits)
  from n(2) fp(2) obtain p t where p: "safe_join (v_fs s) dir fp = Some p"
      "read_text_capped False (v_fs s) p = Inr t"
      "j = JObj [(lit ''name'', JStr name), (lit ''file_path'', JStr fp), (lit ''content'', JStr t)]"
    by (auto simp: view_in_def split: option.splits sum.splits)
  note c = safe_join_confined [OF p(1) d]
  from p(2) c(3) have t: "tget (v_fs s) p = Some (File t)" "utf8_len t \<le> MAX_FILE_BYTES"
    by (auto simp: read_text_capped_def open_node_def split: option.splits node.splits if_splits)
  with n(1) c(1,4) p(3) show ?thesis by blast
qed

definition sample_view :: "(pystr \<times> json) list" where
  "sample_view = [(lit ''name'', JStr (lit ''two'')), (lit ''file_path'', JStr (lit ''../b/ref/api.md''))]"

theorem view_serves_only_inside_witness:
  "\<exists>p t. link_free sample_lib p \<and> tget sample_lib p = Some (File t)
     \<and> snd (tool_skill_view sample_mcp sample_view sample_server)
       = Inr (JObj [(lit ''name'', JStr (lit ''two'')), (lit ''file_path'', JStr (lit ''../b/ref/api.md'')), (lit ''content'', JStr t)])"
proof -
  have ok: "case snd (tool_skill_view sample_mcp sample_view sample_server) of
      Inr (JObj kvs) \<Rightarrow> jget kvs (lit ''name'') = JStr (lit ''two'') | _ \<Rightarrow> False" by code_simp
  then obtain s' kvs where r: "tool_skill_view sample_mcp sample_view sample_server = (s', Inr (JObj kvs))"
      "jget kvs (lit ''name'') = JStr (lit ''two'')"
    by (cases "tool_skill_view sample_mcp sample_view sample_server") (auto split: sum.splits json.splits)
  have fp: "text_arg sample_view ''file_path'' = Inr (lit ''../b/ref/api.md'')" "lit ''../b/ref/api.md'' \<noteq> []"
    "is_dir (v_fs sample_server)" by code_simp+
  from view_serves_only_inside [OF r(1) fp] r(2) show ?thesis
    unfolding r(1) by (auto simp: sample_server_def jget_def)
qed

section \<open>What is hidden\<close>

lemma sift_Inr:
  "sift hide es = Inr (vis, n) \<Longrightarrow>
     vis = filter (\<lambda>e. hide e = Inr False) es \<and> n = length (filter (\<lambda>e. hide e = Inr True) es)
     \<and> list_all (\<lambda>e. \<exists>b. hide e = Inr b) es"
proof (induction es arbitrary: vis n)
  case (Cons e es)
  from Cons.prems obtain h v m where h: "hide e = Inr h" "sift hide es = Inr (v, m)"
      "(vis, n) = (if h then (v, Suc m) else (e # v, m))"
    by (auto simp: chain_Inr)
  from Cons.IH [OF h(2)] h(1,3) show ?case by (cases h) auto
qed simp

text \<open>A reason to hide is a need that is not met for certain.\<close>

definition lacks :: "mcp_env \<Rightarrow> node \<Rightarrow> (pystr \<times> json) list \<Rightarrow> entry \<Rightarrow> bool" where
  "lacks E fs args e \<longleftrightarrow>
     (\<exists>reg m. registered_mcp_servers E fs = Inr reg \<and> m \<in> set (needs (e_requires e) ''mcp'') \<and> mcp_str E m \<notin> set reg)
     \<or> (\<exists>avail m. str_items E (jget args (lit ''agent_tools'')) = Inr avail
         \<and> m \<in> set (needs (e_requires e) ''tools'') \<and> mcp_str E m \<notin> set avail \<and> mcp_str E m \<notin> set BUILTIN_TOOLS)
     \<or> (\<exists>avail m. str_items E (jget args (lit ''agent_toolsets'')) = Inr avail
         \<and> m \<in> set (needs (e_requires e) ''toolsets'') \<and> mcp_str E m \<notin> set avail)"

lemma gap_found:
  assumes "inventory_gap E req stock builtin = Inr miss" "miss \<noteq> []"
  shows "\<exists>avail t. str_items E stock = Inr avail \<and> t \<in> set req \<and> t \<notin> set avail \<and> t \<notin> set builtin"
proof -
  from assms obtain avail where a: "str_items E stock = Inr avail" "miss = filter (\<lambda>t. t \<notin> set (avail @ builtin)) req"
    by (auto simp: inventory_gap_def chain_Inr split: if_splits)
  from assms(2) have "hd miss \<in> set miss" by simp
  with a show ?thesis by auto
qed

lemma hidden_lacks:
  assumes "hides E fs args e = Inr True"
  shows "lacks E fs args e \<and> \<not> truthy (jget args (lit ''all''))"
proof -
  let ?r = "e_requires e"
  from assms have nall: "\<not> truthy (jget args (lit ''all''))"
    and v: "\<exists>h. visibility_hide_reason E fs ?r (jget args (lit ''agent_tools'')) (jget args (lit ''agent_toolsets'')) = Inr (Some h)"
    by (auto simp: hides_def chain_Inr split: if_splits)
  then obtain reg where reg: "registered_mcp_servers E fs = Inr reg"
    by (auto simp: visibility_hide_reason_def chain_Inr)
  show ?thesis
  proof (cases "missing_mcp E reg ?r = []")
    case False
    then have "hd (missing_mcp E reg ?r) \<in> set (missing_mcp E reg ?r)" by simp
    with reg nall show ?thesis unfolding lacks_def missing_mcp_def by auto
  next
    case True
    with v reg obtain m1 where m1: "inventory_gap E (map (mcp_str E) (needs ?r ''tools'')) (jget args (lit ''agent_tools'')) BUILTIN_TOOLS = Inr m1"
      by (auto simp: visibility_hide_reason_def chain_Inr)
    show ?thesis
    proof (cases "m1 = []")
      case False
      from gap_found [OF m1 this] nall show ?thesis unfolding lacks_def by auto
    next
      case e: True
      with v reg True m1 obtain m2 where m2: "m2 \<noteq> []"
          "inventory_gap E (map (mcp_str E) (needs ?r ''toolsets'')) (jget args (lit ''agent_toolsets'')) [] = Inr m2"
        by (auto simp: visibility_hide_reason_def chain_Inr split: if_splits)
      from gap_found [OF m2(2,1)] nall show ?thesis unfolding lacks_def by auto
    qed
  qed
qed

definition in_category :: "pystr \<Rightarrow> entry list \<Rightarrow> entry list" where
  "in_category category catalog =
     (if category = [] then catalog
      else filter (\<lambda>e. (case e_category e of None \<Rightarrow> [] | Some s \<Rightarrow> s) = category) catalog)"

text \<open>
  C26. The listing: the skills of the category, sorted by name, each either shown or counted as hidden; one is
  hidden only if a server it needs is not registered, or the reported inventory lacks a tool or a toolset
  it needs that is not built in; and asking for all hides nothing.
\<close>

theorem listing_hides_only_lacking:
  assumes "list_catalog E fs catalog category args = Inr r"
  shows "sorted (map e_name (l_skills r))
    \<and> length (l_skills r) + l_hidden r = length (in_category category catalog)
    \<and> mset (l_skills r) \<subseteq># mset (in_category category catalog)
    \<and> list_all (\<lambda>e. e \<in> set (l_skills r) \<or> (lacks E fs args e \<and> \<not> truthy (jget args (lit ''all''))))
        (in_category category catalog)"
proof -
  let ?c = "in_category category catalog"
  from assms obtain vis n where s: "sift (hides E fs args) ?c = Inr (vis, n)"
      and r: "r = \<lparr>l_skills = sort_key e_name vis, l_hidden = n, l_hint = (jget args (lit ''agent_tools'') = JNull)\<rparr>"
    by (auto simp: list_catalog_def in_category_def chain_Inr split: if_splits)
  note v = sift_Inr [OF s]
  have "length (filter (\<lambda>e. hides E fs args e = Inr False) xs) + length (filter (\<lambda>e. hides E fs args e = Inr True) xs) = length xs"
    if "list_all (\<lambda>e. \<exists>b. hides E fs args e = Inr b) xs" for xs
    using that by (induction xs) auto
  with v have len: "length vis + n = length ?c" by simp
  have "list_all (\<lambda>e. e \<in> set vis \<or> (lacks E fs args e \<and> \<not> truthy (jget args (lit ''all'')))) ?c"
    unfolding list_all_iff
  proof
    fix e
    assume e: "e \<in> set ?c"
    with v obtain b where b: "hides E fs args e = Inr b" by (auto simp: list_all_iff)
    show "e \<in> set vis \<or> (lacks E fs args e \<and> \<not> truthy (jget args (lit ''all'')))"
    proof (cases b)
      case True
      with hidden_lacks [of E fs args e] b show ?thesis by simp
    next
      case False
      with v e b show ?thesis by simp
    qed
  qed
  with len v show ?thesis by (simp add: r multiset_filter_subset)
qed

theorem listing_hides_only_lacking_witness:
  "\<exists>r. list_catalog sample_mcp sample_lib (load_catalog sample_mcp sample_lib []) [] [] = Inr r
     \<and> length (l_skills r) + l_hidden r = 2"
proof -
  let ?c = "load_catalog sample_mcp sample_lib []"
  have "\<not> isl (list_catalog sample_mcp sample_lib ?c [] [])" by code_simp
  then obtain r where r: "list_catalog sample_mcp sample_lib ?c [] [] = Inr r"
    by (cases "list_catalog sample_mcp sample_lib ?c [] []") auto
  have "length ?c = 2" by code_simp
  with listing_hides_only_lacking [OF r] r show ?thesis by (simp add: in_category_def)
qed

section \<open>Replies\<close>

text \<open>
  What JSON-RPC says of a line, as far as the server keeps to it. A request is an object with an identifier; the two
  names of the handshake and an object without an identifier are the exceptions.
\<close>

definition own_methods :: "json list" where
  "own_methods = map (\<lambda>m. JStr (lit m)) [''initialize'', ''ping'', ''tools/list'', ''tools/call'']"

definition handshake :: "json list" where
  "handshake = map (\<lambda>m. JStr (lit m)) [''notifications/initialized'', ''initialized'']"

definition answers_object :: "(pystr \<times> json) list \<Rightarrow> reply list \<Rightarrow> bool" where
  "answers_object msg rs \<longleftrightarrow>
     (let meth = jget msg (lit ''method'')
      in case map_of msg (lit ''id'') of
           Some i \<Rightarrow>
             if meth \<in> set handshake then rs = []
             else (\<exists>b. rs = [\<lparr>rp_id = i, rp_body = b\<rparr>] \<and> (meth \<in> set own_methods \<or> b = RpcError (MethodNotFound meth)))
         | None \<Rightarrow> if meth \<in> set own_methods then \<exists>b. rs = [\<lparr>rp_id = JNull, rp_body = b\<rparr>] else rs = [])"

definition answers :: "mcp_env \<times> pystr \<Rightarrow> reply list \<Rightarrow> bool" where
  "answers el rs \<longleftrightarrow>
     (let t = py_strip (snd el)
      in if t = [] then rs = []
         else case m_parse (fst el) t of
                None \<Rightarrow> rs = [\<lparr>rp_id = JNull, rp_body = RpcError (ParseError t)\<rparr>]
              | Some j \<Rightarrow> (case jdict j of
                    None \<Rightarrow> rs = [\<lparr>rp_id = JNull, rp_body = RpcError InvalidRequest\<rparr>]
                  | Some msg \<Rightarrow> answers_object msg rs))"

definition fatal :: "mcp_env \<times> pystr \<Rightarrow> bool" where
  "fatal el \<longleftrightarrow> py_strip (snd el) \<noteq> [] \<and> m_aborts (fst el) (py_strip (snd el))"

lemma serve_line_Some: "serve_line E line s = Some r \<longleftrightarrow> \<not> fatal (E, line) \<and> answer_line E line s = r"
  by (auto simp: serve_line_def fatal_def)

lemma call_tool_reply:
  "case snd (call_tool E i ps s) of Inl u \<Rightarrow> True | Inr r \<Rightarrow> \<exists>b. r = Some \<lparr>rp_id = i, rp_body = b\<rparr>"
  by (auto simp: call_tool_def split: option.splits json.splits prod.splits sum.splits)

lemma handle_answers:
  "answers_object msg (case snd (handle E msg s) of
      Inl _ \<Rightarrow> [\<lparr>rp_id = jget msg (lit ''id''), rp_body = RpcError InternalError\<rparr>]
    | Inr r \<Rightarrow> (case r of None \<Rightarrow> [] | Some x \<Rightarrow> [x]))"
proof -
  let ?i = "jget msg (lit ''id'')" and ?m = "jget msg (lit ''method'')"
  consider (init) "?m = JStr (lit ''initialize'')" | (call) "?m = JStr (lit ''tools/call'')"
    | (other) "?m \<noteq> JStr (lit ''initialize'')" "?m \<noteq> JStr (lit ''tools/call'')" by blast
  then show ?thesis
  proof cases
    case init
    then show ?thesis
      by (auto simp: handle_def Let_def answers_object_def own_methods_def handshake_def jget_def split: json.splits option.splits)
  next
    case call
    show ?thesis
    proof (cases "jor (jget msg (lit ''params'')) (JObj [])")
      case (JObj ps)
      then have "handle E msg s = call_tool E ?i ps s" using call by (simp add: handle_def Let_def)
      with call_tool_reply [of ?i E ps s] call show ?thesis
        by (auto simp: answers_object_def own_methods_def handshake_def jget_def split: sum.splits option.splits)
    qed (use call in \<open>auto simp: handle_def Let_def answers_object_def own_methods_def handshake_def jget_def split: option.splits\<close>)
  next
    case other
    then show ?thesis
      by (auto simp: handle_def Let_def answers_object_def own_methods_def handshake_def jget_def split: option.splits)
  qed
qed

lemma answer_line_answers: "answers (E, line) (snd (answer_line E line s))"
proof (cases "\<exists>msg. py_strip line \<noteq> [] \<and> m_parse E (py_strip line) = Some (JObj msg)")
  case True
  then obtain msg where m: "py_strip line \<noteq> []" "m_parse E (py_strip line) = Some (JObj msg)" by blast
  obtain s' r where h: "handle E msg s = (s', r)" by fastforce
  with m handle_answers [of msg E s] show ?thesis
    by (cases r) (simp_all add: answers_def answer_line_def)
next
  case False
  then show ?thesis by (auto simp: answers_def answer_line_def Let_def split: option.split json.split)
qed

text \<open>
  C31. Replies come exactly once and in order, for as long as the loop runs. Line by line: a request (an object with an
  identifier) gets one reply, which carries its identifier, and of an unknown method says so; what is not JSON or
  no object gets one error with a null identifier; a blank line none. Two kinds of line are not treated as
  JSON-RPC asks: a request named \<^verbatim>\<open>initialized\<close> gets no reply, and a call of one of the four methods without
  identifier gets one, with null. The loop ends before the input does exactly at the first line on which
  \<^verbatim>\<open>json.loads\<close> raises anything but \<^verbatim>\<open>JSONDecodeError\<close>, and no error of a tool ends it.
\<close>

theorem replies_exact:
  "\<exists>s' outs. serve ls s = (s', concat outs, list_ex fatal ls) \<and> list_all2 answers (takeWhile (Not \<circ> fatal) ls) outs"
proof (induction ls arbitrary: s)
  case (Cons l ls)
  obtain E line where l: "l = (E, line)" by (cases l)
  show ?case
  proof (cases "fatal l")
    case True
    then show ?thesis by (simp add: l serve_line_def fatal_def)
  next
    case False
    obtain s1 rs where a: "answer_line E line s = (s1, rs)" by fastforce
    with False have "serve_line E line s = Some (s1, rs)" by (simp add: l serve_line_Some)
    moreover from Cons.IH [of s1] obtain s' outs where "serve ls s1 = (s', concat outs, list_ex fatal ls)"
        "list_all2 answers (takeWhile (Not \<circ> fatal) ls) outs" by blast
    moreover have "answers l rs" using answer_line_answers [of E line s] a by (simp add: l)
    ultimately show ?thesis using False by (intro exI [of _ s'] exI [of _ "rs # outs"]) (simp add: l comp_def)
  qed
qed simp

end
