(* ===== verification/Mcp_Patching.thy ===== *)
theory Mcp_Patching
  imports Mcp_Serving
begin

text \<open>
  The effect and the honesty of \<^verbatim>\<open>skill_patch\<close>: what a successful patch changes, that a refused one changes
  nothing, and that the provenance it stamps is true of the file it leaves.
\<close>

section \<open>One replacement\<close>

lemma count_sub_cut: "old \<noteq> [] \<Longrightarrow> count_sub old s \<noteq> 0 \<Longrightarrow> cut old s \<noteq> None"
proof (induction old s rule: count_sub.induct)
  case (2 sub c cs)
  then show ?case by (auto split: if_splits)
qed simp

lemma replace_first_split:
  assumes "old \<noteq> []" "count_sub old body \<noteq> 0"
  shows "\<exists>a b. body = a @ old @ b \<and> (\<forall>new. replace_first old new body = a @ new @ b)"
proof -
  obtain a b where c: "cut old body = Some (a, b)" using count_sub_cut [OF assms] by auto
  from cut_Some_append [OF c] c show ?thesis by (auto simp: replace_first_def)
qed

text \<open>The checks of \<^verbatim>\<open>skill_patch\<close> that come before the file is read.\<close>

lemma patch_checks_Inr:
  assumes "patch_checks args = Inr (name, old, new)"
  shows "text_arg args ''name'' = Inr name" "name \<noteq> []" "truthy old" "old \<noteq> new"
    "old = jget args (lit ''old_string'')" "new = jget args (lit ''new_string'')"
  using assms by (auto simp: patch_checks_def Let_def chain_Inr split: if_splits)

text \<open>What an accepted patch is: one occurrence replaced in the body, the head stamped.\<close>

definition patch_of :: "mcp_env \<Rightarrow> pystr \<Rightarrow> pystr \<Rightarrow> pystr \<Rightarrow> patch \<Rightarrow> bool" where
  "patch_of E old new text p \<longleftrightarrow>
     count_sub old (snd (raw_frontmatter text)) = 1
     \<and> (\<exists>a b. snd (raw_frontmatter text) = a @ old @ b \<and> p_body p = a @ new @ b)
     \<and> p_text p = patched_text (stamp_keys (fst (raw_frontmatter text)) (mcp_hash E (p_body p)) (m_now E) (p_source p)) (p_body p)
     \<and> (fm_status E text = None \<longrightarrow> fm_status E (p_text p) = None)"

lemma patch_text_Inr:
  assumes "patch_text E args old new text = Inr p" "truthy old"
  shows "\<exists>o' n'. old = JStr o' \<and> new = JStr n' \<and> patch_of E o' n' text p \<and> patch_source E args = Inr (p_source p)"
proof -
  obtain fm body where rf: "raw_frontmatter text = (fm, body)" by fastforce
  from assms(1) obtain o' where o': "old = JStr o'" by (auto simp: patch_text_def rf split: json.splits)
  with assms(1) obtain n' where n': "new = JStr n'" "count_sub o' body \<noteq> 0" "\<not> 1 < count_sub o' body"
    by (auto simp: patch_text_def rf split: json.splits if_splits)
  let ?b = "replace_first o' n' body"
  from assms(1) obtain src where src: "patch_source E args = Inr src"
    by (auto simp: patch_text_def rf o' n' chain_Inr Let_def split: if_splits)
  let ?t = "patched_text (stamp_keys fm (mcp_hash E ?b) (m_now E) src) ?b"
  have p: "p = \<lparr>p_text = ?t, p_body = ?b, p_source = src\<rparr>" "fm_status E text = None \<longrightarrow> fm_status E ?t = None"
    using assms(1) by (auto simp: patch_text_def rf o' n' chain_Inr Let_def src split: if_splits option.splits)
  have "o' \<noteq> []" using assms(2) o' by simp
  then obtain a b where "body = a @ o' @ b" "?b = a @ n' @ b"
    using replace_first_split [OF _ n'(2)] by blast
  with p n' src o' show ?thesis by (auto simp: patch_of_def rf)
qed

text \<open>A call either stops before it writes, or it comes down to one atomic write.\<close>

lemma patch_cases:
  obtains (refused) "isl (snd (tool_skill_patch E args s))" "v_fs (fst (tool_skill_patch E args s)) = v_fs s"
  | (written) name old new dir src p where "patch_checks args = Inr (name, old, new)"
      "resolve_skill_dir E (v_fs s) (v_cache s) name = Some dir"
      "read_text_capped True (v_fs s) (dir @ [skill_md]) = Inr src" "patch_text E args old new src = Inr p"
      "tool_skill_patch E args s =
        (case atomic_write dir (m_tmp E) (dir @ [skill_md]) (p_text p) (v_fs s) of
           (fs', Inl e) \<Rightarrow> (s\<lparr>v_cache := ix_cache (build_index E (v_fs s) (v_cache s)), v_fs := fs'\<rparr>, Inl Internal)
         | (fs', Inr _) \<Rightarrow> (s\<lparr>v_cache := ix_cache (build_index E (v_fs s) (v_cache s)), v_fs := fs'\<rparr>, Inr (patch_result E name p)))"
proof (cases "patch_checks args")
  case (Inl e)
  then show ?thesis by (intro refused) (simp_all add: tool_skill_patch_def)
next
  case (Inr x)
  then obtain name old new where c: "patch_checks args = Inr (name, old, new)" by (cases x) auto
  consider (none) "resolve_skill_dir E (v_fs s) (v_cache s) name = None"
    | (unread) dir e where "resolve_skill_dir E (v_fs s) (v_cache s) name = Some dir"
        "read_text_capped True (v_fs s) (dir @ [skill_md]) = Inl e"
    | (bad) dir src e where "resolve_skill_dir E (v_fs s) (v_cache s) name = Some dir"
        "read_text_capped True (v_fs s) (dir @ [skill_md]) = Inr src" "patch_text E args old new src = Inl e"
    | (good) dir src p where "resolve_skill_dir E (v_fs s) (v_cache s) name = Some dir"
        "read_text_capped True (v_fs s) (dir @ [skill_md]) = Inr src" "patch_text E args old new src = Inr p"
    by (metis option.exhaust sum.exhaust)
  then show ?thesis
  proof cases
    case good
    then show ?thesis by (intro written [OF c]) (simp_all add: tool_skill_patch_def c Let_def)
  qed (rule refused; simp add: tool_skill_patch_def c Let_def)+
qed

text \<open>
  C3. A patch is all or nothing. Refused, for whatever reason, it leaves the tree as it was; accepted, the tree
  differs in one file only, the \<^verbatim>\<open>SKILL.md\<close> of the skill the name resolves to, where the one occurrence
  of the old string in the body is replaced and the three provenance keys are set. A head that parsed
  still parses.
\<close>

theorem patch_all_or_nothing:
  assumes d: "is_dir (v_fs s)"
  shows "case tool_skill_patch E args s of
     (s', Inl e) \<Rightarrow> v_fs s' = v_fs s
   | (s', Inr j) \<Rightarrow> \<exists>name dir q old new text p.
       text_arg args ''name'' = Inr name \<and> resolve_skill_dir E (v_fs s) (v_cache s) name = Some dir
       \<and> lplace (v_fs s) (dir @ [skill_md]) = Some q \<and> stat (v_fs s) (dir @ [skill_md]) = Some (File text)
       \<and> jget args (lit ''old_string'') = JStr old \<and> jget args (lit ''new_string'') = JStr new
       \<and> patch_of E old new text p \<and> v_fs s' = tput q (File (p_text p)) (v_fs s) \<and> j = patch_result E name p"
proof (cases E args s rule: patch_cases)
  case refused
  then show ?thesis by (auto simp: isl_def split: prod.splits)
next
  case (written name old new dir src p)
  note ck = patch_checks_Inr [OF written(1)] and st = read_capped_stat [OF written(3)]
  from patch_text_Inr [OF written(4) ck(3)] obtain o' n' where on: "old = JStr o'" "new = JStr n'" "patch_of E o' n' src p"
    by blast
  from atomic_write_cases [OF st d, of "m_tmp E" "p_text p"] show ?thesis
  proof (elim disjE exE conjE, goal_cases failed wrote)
    case (failed e)
    then show ?case by (simp add: written(5))
  next
    case (wrote q)
    then show ?case using on ck(1,5,6) written(2) st by (auto simp: written(5))
  qed
qed

definition sample_patch :: "(pystr \<times> json) list" where
  "sample_patch = [(lit ''name'', JStr (lit ''two'')), (lit ''old_string'', JStr (lit ''y'')),
     (lit ''new_string'', JStr (lit ''well''))]"

theorem patch_all_or_nothing_witness:
  "\<exists>q t. v_fs (fst (tool_skill_patch sample_mcp sample_patch sample_server)) = tput q (File t) sample_lib"
proof -
  have "\<not> isl (snd (tool_skill_patch sample_mcp sample_patch sample_server))" by code_simp
  then obtain s' j where r: "tool_skill_patch sample_mcp sample_patch sample_server = (s', Inr j)"
    by (cases "tool_skill_patch sample_mcp sample_patch sample_server"; cases "snd (tool_skill_patch sample_mcp sample_patch sample_server)") auto
  have "is_dir (v_fs sample_server)" by code_simp
  from patch_all_or_nothing [OF this, where E = sample_mcp and args = sample_patch] show ?thesis
    unfolding r by (auto simp: sample_server_def)
qed

section \<open>Provenance\<close>

text \<open>A value that is written as it is and read back as it is: one line, not blank, without surrounding space.\<close>

definition bare :: "pystr \<Rightarrow> bool" where
  "bare v \<longleftrightarrow> one_line v \<and> v \<noteq> [] \<and> py_strip v = v"

lemma one_line_no_LF: "one_line v \<Longrightarrow> newline \<notin> set v \<and> 13 \<notin> set v"
  by (auto simp: one_line_iff)

lemma key_value_bare: "one_line v \<Longrightarrow> key_value False v = v"
  using one_line_no_LF [of v] by (simp add: key_value_def replace_cp_id)

lemma one_line_scalar: "one_line v \<Longrightarrow> one_line (key_value True v)"
proof -
  assume v: "one_line v"
  let ?s = "py_strip (replace_cp 13 [blank] (replace_cp newline [blank] v))"
  have "replace_cp 13 [blank] (replace_cp newline [blank] v) = v"
    using one_line_no_LF [OF v] by (simp add: replace_cp_id)
  then have s: "one_line ?s" using v one_line_py_strip by simp
  have "one_line (replace_cp quote [quote, quote] ?s)"
    using s set_replace_cp [of quote "[quote, quote]" ?s] unfolding one_line_iff by (auto simp: is_linebreak_def)
  then show ?thesis by (auto simp: key_value_def mcp_yaml_scalar_def one_line_iff is_linebreak_def)
qed

lemma set_fm_key_keeps:
  assumes "\<And>l. P l \<Longrightarrow> \<not> is_key key l" "\<not> P (key @ [colon, blank] @ key_value q v)"
  shows "filter P (set_fm_key fm key v q) = filter P fm"
proof -
  define new where "new = key @ [colon, blank] @ key_value q v"
  have "filter P (map (\<lambda>l. if is_key key l then new else l) fm) = filter P fm"
    using assms unfolding new_def [symmetric] by (induction fm) auto
  with assms(2) show ?thesis unfolding set_fm_key_def Let_def new_def [symmetric] by simp
qed

lemma set_fm_key_mem: "key @ [colon, blank] @ key_value q v \<in> set (set_fm_key fm key v q)"
  by (auto simp: set_fm_key_def Let_def list_ex_iff)

lemma set_fm_key_other:
  "l \<in> set fm \<Longrightarrow> \<not> is_key key l \<Longrightarrow> l \<in> set (set_fm_key fm key v q)"
  by (force simp: set_fm_key_def Let_def)

lemma is_key_prefix: "is_key key l \<Longrightarrow> prefix (key @ [colon]) l"
  by (auto simp: is_key_def)

text \<open>The lines \<^verbatim>\<open>skill_patch\<close> may touch, by how they begin.\<close>

definition stamp_line :: "pystr \<Rightarrow> bool" where
  "stamp_line l \<longleftrightarrow> list_ex (\<lambda>k. prefix (lit k @ [colon]) l) [''content_hash'', ''edited_at'', ''edited_by'']"

lemma stamp_keys_keep:
  "filter (\<lambda>l. \<not> stamp_line l) (stamp_keys fm hash now source) = filter (\<lambda>l. \<not> stamp_line l) fm"
  unfolding stamp_keys_def
  by (subst set_fm_key_keeps, auto simp: stamp_line_def dest: is_key_prefix)+

lemma different_stamps:
  "\<not> is_key (lit ''edited_at'') (lit ''content_hash'' @ colon # v)" "\<not> is_key (lit ''edited_by'') (lit ''content_hash'' @ colon # v)"
  by (auto dest!: is_key_prefix simp: lit_simps)

lemma stamp_keys_hash:
  assumes "one_line hash"
  shows "lit ''content_hash'' @ [colon, blank] @ hash \<in> set (stamp_keys fm hash now source)"
proof -
  have "lit ''content_hash'' @ [colon, blank] @ hash \<in> set (set_fm_key fm (lit ''content_hash'') hash False)"
    using set_fm_key_mem [of "lit ''content_hash''" False hash fm] assms by (simp add: key_value_bare)
  from set_fm_key_other [OF set_fm_key_other [OF this]] show ?thesis
    using different_stamps [of "blank # hash"] by (simp add: stamp_keys_def)
qed

lemma stamp_keys_lines:
  assumes "list_all (\<lambda>l. one_line l \<and> py_strip l \<noteq> dashes) fm" "one_line hash" "one_line now" "one_line source"
  shows "list_all (\<lambda>l. one_line l \<and> py_strip l \<noteq> dashes) (stamp_keys fm hash now source)"
  unfolding stamp_keys_def using assms one_line_scalar [OF assms(4)]
  by (intro set_fm_key_lines)
     (auto simp: key_value_bare lit_simps one_line_iff is_linebreak_def is_space_def)

lemma stamp_keys_ne: "stamp_keys fm hash now source \<noteq> []"
  using set_fm_key_mem unfolding stamp_keys_def by (metis list.set(1) empty_iff)

lemma hd_splitlines: "s \<noteq> [] \<Longrightarrow> one_line (hd (splitlines s))"
  using splitlines_lines [of "hd (splitlines s)" s] by (metis hd_in_set splitlines_eq_Nil)

lemma patch_source_line:
  assumes "patch_source E args = Inr src"
  shows "one_line src \<and> src \<noteq> [] \<and> py_strip src = src"
proof -
  have d: "one_line default_source \<and> default_source \<noteq> [] \<and> py_strip default_source = default_source" by code_simp
  from assms obtain v where "src = (let first = (if py_strip v = [] then [] else py_strip (hd (splitlines (py_strip v))))
      in if first = [] then default_source else first)"
    by (auto simp: patch_source_def Let_def split: json.splits)
  with d show ?thesis using hd_splitlines [of "py_strip v"] one_line_py_strip by (auto simp: Let_def)
qed

lemma raw_lines: "list_all (\<lambda>l. one_line l \<and> py_strip l \<noteq> dashes) (fst (raw_frontmatter text))"
  by (auto simp: raw_frontmatter_def split: sum.splits dest: split_head_lines)

text \<open>Reading the text of an accepted patch gives back its head and its body.\<close>

lemma patched_head:
  assumes "patch_of E old new text p" "patch_source E args = Inr (p_source p)"
    and "one_line (mcp_hash E (p_body p))" "one_line (m_now E)"
  shows "split_head (p_text p) = Inr (stamp_keys (fst (raw_frontmatter text)) (mcp_hash E (p_body p)) (m_now E) (p_source p),
      normal_body (ended (p_body p)))"
  using assms patch_source_line [OF assms(2)] reread [OF stamp_keys_lines [OF raw_lines] stamp_keys_ne]
  by (simp add: patch_of_def)

text \<open>
  The stamp is true of the file: reading a patched file back gives a head that has the \<^verbatim>\<open>content_hash\<close>
  line with the hash of exactly the body that is read back, every line of the old head that is not one
  of the three stamps in its old order, and no new line but these. The body's line terminators must be
  LF, the clock's and the hash's texts one line.
\<close>

theorem patch_stamp_is_true:
  assumes p: "patch_text E args old new text = Inr p" and b: "lf_only (p_body p)"
    and h: "one_line (mcp_hash E (p_body p))" and n: "one_line (m_now E)" and t: "truthy old"
  shows "case raw_frontmatter (p_text p) of (fm, body) \<Rightarrow>
     lit ''content_hash: '' @ mcp_hash E body \<in> set fm
     \<and> filter (\<lambda>l. \<not> stamp_line l) fm = filter (\<lambda>l. \<not> stamp_line l) (fst (raw_frontmatter text))
     \<and> py_strip body = py_strip (p_body p)"
proof -
  let ?fm = "stamp_keys (fst (raw_frontmatter text)) (mcp_hash E (p_body p)) (m_now E) (p_source p)"
  have r: "raw_frontmatter (p_text p) = (?fm, normal_body (ended (p_body p)))"
    using patch_text_Inr [OF p t] patched_head [OF _ _ h n] by (auto simp: raw_frontmatter_def)
  have "mcp_hash E (normal_body (ended (p_body p))) = mcp_hash E (p_body p)"
    by (simp add: mcp_hash_def strip_normal b)
  moreover have "lit ''content_hash: '' = lit ''content_hash'' @ [colon, blank]" by (simp add: lit_simps)
  ultimately show ?thesis
    using stamp_keys_hash [OF h] by (simp add: r stamp_keys_keep strip_normal b)
qed

theorem patch_stamp_is_true_witness:
  "\<exists>p. patch_text sample_mcp [] (JStr (lit ''y'')) (JStr (lit ''well'')) (lit ''do y'') = Inr p
     \<and> py_strip (snd (raw_frontmatter (p_text p))) = lit ''do well''"
proof -
  define r where "r = patch_text sample_mcp [] (JStr (lit ''y'')) (JStr (lit ''well'')) (lit ''do y'')"
  have "map_sum id p_body r = Inr (lit ''do well'')" unfolding r_def by code_simp
  then obtain p where p: "r = Inr p" "p_body p = lit ''do well''" by (cases r) auto
  have "lf_only (lit ''do well'')" "one_line (mcp_hash sample_mcp (lit ''do well''))" "one_line (m_now sample_mcp)"
    "truthy (JStr (lit ''y''))" "py_strip (lit ''do well'') = lit ''do well''" by code_simp+
  with p patch_stamp_is_true [OF p(1) [unfolded r_def]] show ?thesis
    by (simp add: r_def split: prod.splits)
qed

text \<open>
  Two facts the description of the tool does not tell. A patch rewrites every other line terminator of the
  body as LF, outside the replaced text too. And of overlapping occurrences only one is counted.
\<close>

lemma patch_rewrites_terminators:
  "map_sum id p_body (patch_text sample_mcp [] (JStr (lit ''y'')) (JStr (lit ''z''))
     (lit ''---'' @ [10] @ lit ''name: n'' @ [10] @ lit ''---'' @ [10] @ lit ''a'' @ [8232] @ lit ''b y''))
   = Inr (lit ''a'' @ [10] @ lit ''b z'')"
  by code_simp

lemma overlapping_counted_once: "count_sub (lit ''aa'') (lit ''aaa'') = 1"
  by code_simp

end
