(* ===== verification/Mcp_Wire.thy ===== *)
theory Mcp_Wire
  imports Mcp_Patching
begin

text \<open>
  What \<^verbatim>\<open>skills-mcp/server.py\<close> puts on the wire: the tools it declares with the schemas of their arguments,
  and the JSON of each reply. A schema is data for the client; here it is also read as a type, and calls
  that have it are shown not to go wrong.
\<close>

section \<open>The declared tools\<close>

definition obj :: "(char list \<times> json) list \<Rightarrow> json" where
  "obj kvs = JObj (map (\<lambda>(k, v). (lit k, v)) kvs)"

definition js :: "char list \<Rightarrow> json" where
  "js s = JStr (lit s)"

definition typed :: "char list \<Rightarrow> pystr \<Rightarrow> json" where
  "typed t d = obj [(''type'', js t), (''description'', JStr d)]"

definition strings :: "pystr \<Rightarrow> json" where
  "strings d = obj [(''type'', js ''array''), (''items'', obj [(''type'', js ''string'')]), (''description'', JStr d)]"

definition tool_decl :: "char list \<Rightarrow> pystr \<Rightarrow> (char list \<times> json) list \<Rightarrow> (char list \<times> json) list \<Rightarrow> json" where
  "tool_decl n d props req =
     obj [(''name'', js n), (''description'', JStr d),
       (''inputSchema'', obj ([(''type'', js ''object''), (''properties'', obj props)] @ req))]"

definition dash :: pystr where "dash = [8212]"

definition list_decl :: json where
  "list_decl = tool_decl ''skills_list''
     (lit ''List the skill catalog: name + description, alphabetical. Your system ''
      @ lit ''prompt already carries this for every skill, so you rarely need it '' @ dash @ lit '' ''
      @ lit ''the one case that matters is a skill shown to you as a bare NAME with ''
      @ lit ''no description (suppressed by skillOverrides): call this to read the ''
      @ lit ''description back, then skill_view for the full text. ''
      @ lit ''category filters; all=true shows skills hidden for missing tools.'')
     [(''category'', typed ''string'' (lit ''Optional exact-match category filter.'')),
      (''agent_tools'', strings (lit ''Tool names you currently have available (for visibility filtering).'')),
      (''agent_toolsets'', strings (lit ''Toolset names you currently have available.'')),
      (''all'', typed ''boolean'' (lit ''Show skills that would otherwise be hidden.''))]
     []"

definition view_decl :: json where
  "view_decl = tool_decl ''skill_view''
     (lit ''Load a skill's full instructions by name, plus a readiness report ''
      @ lit ''(missing env vars / commands / files / MCP servers). Pass file_path ''
      @ lit ''to read one of the skill's linked reference files instead of the body.'')
     [(''name'', typed ''string'' (lit ''Skill name to load.'')),
      (''file_path'', typed ''string'' (lit ''Optional reference file, e.g. 'references/api.md'.''))]
     [(''required'', JArr [js ''name''])]"

definition patch_decl :: json where
  "patch_decl = tool_decl ''skill_patch''
     (lit ''Repair a skill you loaded that had a wrong command, missing step, or ''
      @ lit ''a pitfall you discovered. Replaces old_string with new_string in the ''
      @ lit ''skill BODY (must match exactly once), then re-stamps content_hash and ''
      @ lit ''edited_by/edited_at provenance. Use after a task when a skill was wrong.'')
     [(''name'', typed ''string'' (lit ''Skill to patch.'')),
      (''old_string'', typed ''string'' (lit ''Exact text in the body to replace (must be unique).'')),
      (''new_string'', typed ''string'' (lit ''Replacement text.'')),
      (''edited_by'', typed ''string''
        (lit ''Who is patching (provenance); defaults to $AUTO_SKILL_SOURCE or 'skills-mcp'.''))]
     [(''required'', JArr [js ''name'', js ''old_string'', js ''new_string''])]"

definition TOOLS :: "json list" where
  "TOOLS = [list_decl, view_decl, patch_decl]"

section \<open>Schemas as types\<close>

text \<open>The part of JSON Schema in use: the type of a value, and an object's declared and required fields.\<close>

definition field :: "json \<Rightarrow> char list \<Rightarrow> json" where
  "field j k = jget (as_dict j) (lit k)"

definition value_ok :: "json \<Rightarrow> json \<Rightarrow> bool" where
  "value_ok S v =
     (if field S ''type'' = js ''string'' then (case v of JStr s \<Rightarrow> True | _ \<Rightarrow> False)
      else if field S ''type'' = js ''boolean'' then (case v of JBool b \<Rightarrow> True | _ \<Rightarrow> False)
      else if field S ''type'' = js ''array'' then
        (case v of JArr xs \<Rightarrow> list_all (\<lambda>x. case x of JStr s \<Rightarrow> True | _ \<Rightarrow> False) xs | _ \<Rightarrow> False)
      else True)"

definition conforms :: "json \<Rightarrow> (pystr \<times> json) list \<Rightarrow> bool" where
  "conforms S args \<longleftrightarrow>
     list_all (\<lambda>r. case r of JStr k \<Rightarrow> map_of args k \<noteq> None | _ \<Rightarrow> True) (as_list (field S ''required''))
     \<and> list_all (\<lambda>(k, T). case map_of args k of None \<Rightarrow> True | Some v \<Rightarrow> value_ok T v) (as_dict (field S ''properties''))"

definition input_schema :: "pystr \<Rightarrow> json option" where
  "input_schema n = map_option (\<lambda>t. field t ''inputSchema'') (find (\<lambda>t. field t ''name'' = JStr n) TOOLS)"

section \<open>Replies as JSON\<close>

text \<open>
  \<open>x_dumps\<close> is \<^verbatim>\<open>json.dumps\<close> of a tool's payload, \<open>None\<close> for its \<^verbatim>\<open>TypeError\<close> on values that only YAML has; \<open>x_repr\<close>
  is \<^verbatim>\<open>repr\<close> of a string, \<open>x_detail\<close> the words of the parser in use.
\<close>

record wire_env =
  x_dumps :: "json \<Rightarrow> pystr option"
  x_repr :: "pystr \<Rightarrow> pystr"
  x_detail :: "pystr \<Rightarrow> pystr"
  x_yaml :: pystr

definition SERVER_NAME :: pystr where "SERVER_NAME = lit ''skills''"
definition SERVER_VERSION :: pystr where "SERVER_VERSION = lit ''0.4.0''"

definition status_text :: "wire_env \<Rightarrow> fm_fault \<Rightarrow> pystr" where
  "status_text W f = (case f of
      NoFence \<Rightarrow> lit ''no frontmatter fence''
    | NeverCloses \<Rightarrow> lit ''frontmatter fence never closes''
    | NoYaml \<Rightarrow> lit ''PyYAML unavailable; parsed with the flat fallback''
    | YamlError \<Rightarrow> lit ''YAML parse error, used flat fallback: '' @ x_yaml W
    | NotAMapping \<Rightarrow> lit ''frontmatter is not a mapping ('' @ x_yaml W @ lit ''); used flat fallback'')"

definition fault_text :: "read_fault \<Rightarrow> pystr" where
  "fault_text f = (case f of
      CouldNotRead \<Rightarrow> lit ''could not read the requested file''
    | TooLarge n \<Rightarrow> lit ''file too large ('' @ decimal n @ lit '' bytes; cap is '' @ decimal MAX_FILE_BYTES @ lit '')'')"

definition error_text :: "wire_env \<Rightarrow> tool_error \<Rightarrow> pystr" where
  "error_text W e = (case e of
      NameRequired t \<Rightarrow> t @ lit '' requires 'name''  @ [quote]
    | SkillNotFound n \<Rightarrow> lit ''skill not found: '' @ x_repr W n
    | BadFilePath p \<Rightarrow> lit ''file_path '' @ x_repr W p @ lit '' is invalid or escapes the skill directory''
    | CannotRead f \<Rightarrow> fault_text f
    | OldRequired \<Rightarrow> lit ''skill_patch requires a non-empty 'old_string'' @ [quote]
    | NewRequired \<Rightarrow> lit ''skill_patch requires 'new_string'' @ [quote]
    | OldIsNew \<Rightarrow> lit ''old_string and new_string are identical''
    | NotInBody \<Rightarrow> lit ''old_string not found in skill body (patch edits the body only)''
    | Ambiguous n \<Rightarrow> lit ''old_string matches '' @ decimal n @ lit '' places; add surrounding context to make it unique''
    | Unparseable f \<Rightarrow> lit ''refusing to write: this patch would make the frontmatter unparseable ('' @ status_text W f
        @ lit ''). The body edit was NOT applied. Retry with a simpler 'edited_by' (no quotes or newlines).''
    | Internal \<Rightarrow> lit ''internal tool error'')"

definition text_content :: "pystr \<Rightarrow> char list \<times> json" where
  "text_content t = (''content'', JArr [obj [(''type'', js ''text''), (''text'', JStr t)]])"

definition tool_failed :: "pystr \<Rightarrow> json" where
  "tool_failed t = obj [text_content (lit ''error: '' @ t), (''isError'', JBool True)]"

definition error_code :: "rpc_error \<Rightarrow> rat" where
  "error_code e = (case e of ParseError l \<Rightarrow> - 32700 | InvalidRequest \<Rightarrow> - 32600 | UnknownTool n \<Rightarrow> - 32602
     | MethodNotFound m \<Rightarrow> - 32601 | InternalError \<Rightarrow> - 32603)"

definition error_message :: "wire_env \<Rightarrow> mcp_env \<Rightarrow> rpc_error \<Rightarrow> pystr" where
  "error_message W E e = (case e of
      ParseError l \<Rightarrow> lit ''parse error: '' @ x_detail W l
    | InvalidRequest \<Rightarrow> lit ''invalid request: expected a JSON-RPC object''
    | UnknownTool n \<Rightarrow> lit ''unknown tool: '' @ mcp_str E n
    | MethodNotFound m \<Rightarrow> lit ''method not found: '' @ mcp_str E m
    | InternalError \<Rightarrow> lit ''internal error'')"

definition wire_result :: "json \<Rightarrow> json \<Rightarrow> json" where
  "wire_result i r = obj [(''jsonrpc'', js ''2.0''), (''id'', i), (''result'', r)]"

definition wire_error :: "json \<Rightarrow> rat \<Rightarrow> pystr \<Rightarrow> json" where
  "wire_error i c m = obj [(''jsonrpc'', js ''2.0''), (''id'', i), (''error'', obj [(''code'', JNum c), (''message'', JStr m)])]"

definition wire :: "wire_env \<Rightarrow> mcp_env \<Rightarrow> reply \<Rightarrow> json" where
  "wire W E r = (case rp_body r of
      Initialized p \<Rightarrow> wire_result (rp_id r) (obj [(''protocolVersion'', JStr p), (''capabilities'', obj [(''tools'', obj [])]),
         (''serverInfo'', obj [(''name'', JStr SERVER_NAME), (''version'', JStr SERVER_VERSION)])])
    | Pong \<Rightarrow> wire_result (rp_id r) (obj [])
    | ToolsListed \<Rightarrow> wire_result (rp_id r) (obj [(''tools'', JArr TOOLS)])
    | ToolResult j \<Rightarrow> wire_result (rp_id r)
        (case x_dumps W j of Some t \<Rightarrow> obj [text_content t] | None \<Rightarrow> tool_failed (error_text W Internal))
    | ToolFailed e \<Rightarrow> wire_result (rp_id r) (tool_failed (error_text W e))
    | RpcError e \<Rightarrow> wire_error (rp_id r) (error_code e) (error_message W E e))"

text \<open>The texts the loop writes for its input lines, in order.\<close>

definition respond :: "wire_env \<Rightarrow> mcp_env \<Rightarrow> pystr \<Rightarrow> server \<Rightarrow> (server \<times> json list) option" where
  "respond W E line s = map_option (\<lambda>(s', rs). (s', map (wire W E) rs)) (serve_line E line s)"

section \<open>Well-typed calls do not go wrong\<close>

lemma field_obj:
  "field (obj kvs) k = (case map_of kvs k of None \<Rightarrow> JNull | Some v \<Rightarrow> v)"
proof -
  have "map_of (map (\<lambda>(k, v). (lit k, v)) kvs) (lit k) = map_of kvs k"
    by (induction kvs) auto
  then show ?thesis by (simp add: field_def obj_def as_dict_def jget_def)
qed

lemma as_dict_obj: "as_dict (obj kvs) = map (\<lambda>(k, v). (lit k, v)) kvs"
  by (simp add: obj_def as_dict_def)

definition text_or_missing :: "(pystr \<times> json) list \<Rightarrow> char list \<Rightarrow> bool" where
  "text_or_missing args k \<longleftrightarrow> (case map_of args (lit k) of None \<Rightarrow> True | Some v \<Rightarrow> \<exists>s. v = JStr s)"

definition texts_or_missing :: "(pystr \<times> json) list \<Rightarrow> char list \<Rightarrow> bool" where
  "texts_or_missing args k \<longleftrightarrow> (case map_of args (lit k) of None \<Rightarrow> True | Some v \<Rightarrow> \<exists>xs. v = JArr xs)"

lemma value_ok_text: "value_ok (typed ''string'' d) v \<longleftrightarrow> (\<exists>s. v = JStr s)"
  by (cases v) (simp_all add: value_ok_def typed_def field_obj js_def)

lemma value_ok_texts: "value_ok (strings d) v \<Longrightarrow> \<exists>xs. v = JArr xs"
  by (cases v) (simp_all add: value_ok_def strings_def field_obj js_def)

lemma tool_decl_fields:
  "field (tool_decl n d props req) ''name'' = js n"
  "field (field (tool_decl n d props req) ''inputSchema'') ''properties'' = obj props"
  "field (field (tool_decl n d props req) ''inputSchema'') ''required'' = field (obj req) ''required''"
  by (simp_all add: tool_decl_def field_obj)

lemma conforms_decl:
  "conforms (field (tool_decl n d props req) ''inputSchema'') args \<longleftrightarrow>
     list_all (\<lambda>r. case r of JStr k \<Rightarrow> map_of args k \<noteq> None | _ \<Rightarrow> True) (as_list (field (obj req) ''required''))
     \<and> list_all (\<lambda>(k, T). case map_of args (lit k) of None \<Rightarrow> True | Some v \<Rightarrow> value_ok T v) props"
  by (simp add: conforms_def tool_decl_fields as_dict_obj list.pred_map comp_def case_prod_unfold cong: option.case_cong)

lemma typed_missing:
  "(case map_of args (lit k) of None \<Rightarrow> True | Some v \<Rightarrow> value_ok (typed ''string'' d) v) \<longleftrightarrow> text_or_missing args k"
  "(case map_of args (lit k) of None \<Rightarrow> True | Some v \<Rightarrow> value_ok (strings d) v) \<Longrightarrow> texts_or_missing args k"
  by (auto simp: text_or_missing_def texts_or_missing_def value_ok_text dest: value_ok_texts split: option.splits)

lemma required_text: "map_of args (lit k) \<noteq> None \<Longrightarrow> text_or_missing args k \<Longrightarrow> \<exists>x. jget args (lit k) = JStr x"
  by (auto simp: text_or_missing_def jget_def)

lemma input_schemas:
  assumes "input_schema n = Some S"
  shows "n = lit ''skills_list'' \<and> S = field list_decl ''inputSchema''
      \<or> n = lit ''skill_view'' \<and> S = field view_decl ''inputSchema''
      \<or> n = lit ''skill_patch'' \<and> S = field patch_decl ''inputSchema''"
  using assms
  by (auto simp: input_schema_def TOOLS_def list_decl_def view_decl_def patch_decl_def tool_decl_fields js_def
      simp del: lit_eq_iff split: if_splits)

lemma list_schema:
  "conforms (field list_decl ''inputSchema'') args \<Longrightarrow>
   text_or_missing args ''category'' \<and> texts_or_missing args ''agent_tools'' \<and> texts_or_missing args ''agent_toolsets''"
  unfolding list_decl_def conforms_decl by (auto simp: typed_missing(1) intro: typed_missing(2))

lemma view_schema:
  "conforms (field view_decl ''inputSchema'') args \<Longrightarrow> text_or_missing args ''name'' \<and> text_or_missing args ''file_path''"
  unfolding view_decl_def conforms_decl by (simp add: typed_missing(1))

lemma patch_schema:
  "conforms (field patch_decl ''inputSchema'') args \<Longrightarrow> text_or_missing args ''name'' \<and> text_or_missing args ''edited_by''
     \<and> (\<exists>x. jget args (lit ''old_string'') = JStr x) \<and> (\<exists>y. jget args (lit ''new_string'') = JStr y)"
  unfolding patch_decl_def conforms_decl
  by (auto simp: typed_missing(1) field_obj as_list_def js_def intro!: required_text)

text \<open>The configuration files hold something that is not an object.\<close>

definition config_broken :: "mcp_env \<Rightarrow> node \<Rightarrow> bool" where
  "config_broken E fs \<longleftrightarrow>
     list_ex (\<lambda>p. case load_config E fs p of None \<Rightarrow> False | Some j \<Rightarrow> jdict j = None)
       [m_home E @ [lit ''.claude.json''], m_here E @ [lit ''.mcp.json'']]"

lemma registered_Inl: "registered_mcp_servers E fs = Inl e \<Longrightarrow> e = Internal \<and> config_broken E fs"
  by (auto simp: registered_mcp_servers_def config_broken_def chain_def split: option.splits json.splits sum.splits)

lemma chain_Inl: "chain x f = Inl e \<longleftrightarrow> x = Inl e \<or> (\<exists>a. x = Inr a \<and> f a = Inl e)"
  by (cases x) (auto simp: chain_def)

lemma sift_Inl: "sift hide es = Inl x \<Longrightarrow> \<exists>e. hide e = Inl x"
  by (induction es) (auto simp: chain_Inl split: prod.splits)

lemma text_arg_typed: "text_or_missing args k \<Longrightarrow> \<exists>t. text_arg args k = Inr t"
  by (auto simp: text_or_missing_def text_arg_def jget_def jor_def split: option.splits)

lemma inventory_typed:
  assumes "texts_or_missing args k"
  shows "inventory_gap E req (jget args (lit k)) builtin \<noteq> Inl e"
  using assms by (auto simp: texts_or_missing_def inventory_gap_def jget_def str_items_def chain_def split: option.splits)

lemma hides_typed:
  assumes "texts_or_missing args ''agent_tools''" "texts_or_missing args ''agent_toolsets''" "hides E fs args e = Inl x"
  shows "config_broken E fs"
  using assms(3) inventory_typed [OF assms(1)] inventory_typed [OF assms(2)]
  by (auto simp: hides_def visibility_hide_reason_def chain_Inl Let_def dest: registered_Inl split: if_splits)

lemma list_typed:
  assumes "text_or_missing args ''category''" "texts_or_missing args ''agent_tools''" "texts_or_missing args ''agent_toolsets''"
    "snd (tool_skills_list E args s) = Inl e"
  shows "config_broken E (v_fs s)"
proof -
  obtain c where c: "text_arg args ''category'' = Inr c" using text_arg_typed [OF assms(1)] by blast
  with assms(4) obtain x where "hides E (v_fs s) args x = Inl e"
    by (auto simp: tool_skills_list_def Let_def list_catalog_def chain_Inl dest!: sift_Inl split: prod.splits)
  then show ?thesis using hides_typed assms(2,3) by blast
qed

lemma view_typed:
  assumes "text_or_missing args ''name''" "text_or_missing args ''file_path''" "snd (tool_skill_view E args s) = Inl Internal"
  shows "config_broken E (v_fs s)"
proof -
  obtain n f where t: "text_arg args ''name'' = Inr n" "text_arg args ''file_path'' = Inr f"
    using text_arg_typed [OF assms(1)] text_arg_typed [OF assms(2)] by blast
  with assms(3) obtain dir where "view_in E (v_fs s) dir n f = Inl Internal"
    by (auto simp: tool_skill_view_def Let_def chain_def split: if_splits option.splits)
  then show ?thesis
    by (auto simp: view_in_def readiness_def Let_def chain_Inl dest: registered_Inl split: if_splits option.splits sum.splits prod.splits)
qed

lemma patch_source_typed: "text_or_missing args ''edited_by'' \<Longrightarrow> \<exists>t. patch_source E args = Inr t"
  by (auto simp: text_or_missing_def patch_source_def jget_def jor_def Let_def split: option.splits)

lemma patch_text_typed:
  assumes "text_or_missing args ''edited_by''" "old = JStr x" "new = JStr y"
  shows "patch_text E args old new text \<noteq> Inl Internal"
  using patch_source_typed [OF assms(1), of E] assms(2,3)
  by (auto simp: patch_text_def Let_def chain_def split: prod.splits option.splits if_splits)

text \<open>The write of an accepted patch fails.\<close>

definition write_fails :: "mcp_env \<Rightarrow> (pystr \<times> json) list \<Rightarrow> server \<Rightarrow> bool" where
  "write_fails E args s \<longleftrightarrow>
     (case patch_checks args of Inl e \<Rightarrow> False | Inr (name, old, new) \<Rightarrow>
       (case resolve_skill_dir E (v_fs s) (v_cache s) name of None \<Rightarrow> False | Some dir \<Rightarrow>
         (case read_text_capped True (v_fs s) (dir @ [skill_md]) of Inl e \<Rightarrow> False | Inr src \<Rightarrow>
           (case patch_text E args old new src of Inl e \<Rightarrow> False | Inr p \<Rightarrow>
             (case snd (atomic_write dir (m_tmp E) (dir @ [skill_md]) (p_text p) (v_fs s)) of
                Inl e \<Rightarrow> True | Inr u \<Rightarrow> False)))))"

lemma patch_typed:
  assumes "text_or_missing args ''name''" "text_or_missing args ''edited_by''"
    "jget args (lit ''old_string'') = JStr x" "jget args (lit ''new_string'') = JStr y"
    "snd (tool_skill_patch E args s) = Inl Internal"
  shows "write_fails E args s"
proof -
  obtain n where n: "text_arg args ''name'' = Inr n" using text_arg_typed [OF assms(1)] by blast
  have c: "patch_checks args \<noteq> Inl Internal"
    by (auto simp: patch_checks_def n chain_def Let_def)
  have o: "old = JStr x \<and> new = JStr y" if "patch_checks args = Inr (m, old, new)" for m old new
    using that assms(3,4) by (auto simp: patch_checks_def n chain_def Let_def split: if_splits)
  show ?thesis
  proof (cases "patch_checks args")
    case (Inr r)
    obtain m old new where r: "r = (m, old, new)" by (cases r)
    from Inr r o have t: "patch_text E args old new src \<noteq> Inl Internal" for src
      using patch_text_typed [OF assms(2)] by blast
    from assms(5) show ?thesis unfolding tool_skill_patch_def write_fails_def Inr r
      by (auto simp: Let_def t split: option.splits sum.splits prod.splits)
  qed (use assms(5) c in \<open>simp add: tool_skill_patch_def\<close>)
qed


definition typed_args :: "(pystr \<times> json) list" where
  "typed_args = [(lit ''category'', JStr []), (lit ''agent_tools'', JArr [JStr (lit ''Bash'')])]"


end
