(* ===== verification/Mcp_Session.thy ===== *)
theory Mcp_Session
  imports Mcp_Wire
begin

text \<open>
  A run of \<^verbatim>\<open>skills-mcp/server.py\<close> from start to end: lines are served while other programs change the tree and the
  clock goes on. What the process keeps between lines is the cache of parsed entries; a client cannot tell
  it is there.
\<close>

section \<open>Steps of the server and of its environment\<close>

text \<open>What stays the same while one process runs.\<close>

definition same_process :: "mcp_env \<Rightarrow> mcp_env \<Rightarrow> bool" where
  "same_process E E' \<longleftrightarrow> m_db E' = m_db E \<and> m_yaml E' = m_yaml E \<and> m_repr E' = m_repr E
     \<and> m_platform E' = m_platform E \<and> m_roots E' = m_roots E \<and> m_parse E' = m_parse E
     \<and> m_home E' = m_home E \<and> m_here E' = m_here E \<and> m_sha E' = m_sha E"

lemma same_process_refl [simp]: "same_process E E"
  by (simp add: same_process_def)

lemma same_process_trans: "same_process E E' \<Longrightarrow> same_process E' E'' \<Longrightarrow> same_process E E''"
  by (simp add: same_process_def)

text \<open>
  A history of the file system: what the file with a path, a modification time and a size holds, now or
  at any moment of the run. This is what the cache relies on: a file that changes gets another
  modification time or another size.
\<close>

type_synonym history = "path \<times> nat \<times> nat \<Rightarrow> pystr option"

definition stamped :: "history \<Rightarrow> mcp_env \<Rightarrow> node \<Rightarrow> bool" where
  "stamped H E fs \<longleftrightarrow>
     (\<forall>p n. stat fs p = Some n \<longrightarrow> H (p, m_mtime E p, node_size n) = (case n of File t \<Rightarrow> Some t | _ \<Rightarrow> None))"

text \<open>The run: the process starts with an empty cache, serves a line, or the world around it changes.\<close>

inductive session :: "history \<Rightarrow> (pystr \<times> reply list) list \<Rightarrow> mcp_env \<Rightarrow> server \<Rightarrow> bool" for H where
  start: "stamped H E fs \<Longrightarrow> session H [] E \<lparr>v_fs = fs, v_cache = []\<rparr>"
| request: "session H io E s \<Longrightarrow> serve_line E line s = Some (s', rs) \<Longrightarrow> same_process E E' \<Longrightarrow> stamped H E' (v_fs s')
    \<Longrightarrow> session H (io @ [(line, rs)]) E' s'"
| outside: "session H io E s \<Longrightarrow> same_process E E' \<Longrightarrow> stamped H E' fs' \<Longrightarrow> session H io E' (s\<lparr>v_fs := fs'\<rparr>)"

section \<open>The cache tells the truth\<close>

definition truthful :: "history \<Rightarrow> mcp_env \<Rightarrow> cache \<Rightarrow> bool" where
  "truthful H E c \<longleftrightarrow> distinct (map fst c) \<and> length c \<le> Suc ENTRY_CACHE_MAX
     \<and> (\<forall>(k, e)\<in>set c. \<exists>t. H k = Some t \<and> utf8_len t \<le> MAX_FILE_BYTES
          \<and> parse_text E (home_root (fst k)) (fst k) t = Inr e)"

lemma truthful_Nil [simp]: "truthful H E []"
  by (simp add: truthful_def)

lemma parse_text_same:
  assumes "same_process E E'"
  shows "parse_text E' R md t = parse_text E R md t"
proof -
  have "mcp_str E' = mcp_str E" "os_tag E' = os_tag E" "m_repr E' = m_repr E" "m_yaml E' = m_yaml E" "m_db E' = m_db E"
    using assms by (simp_all add: same_process_def mcp_str_def os_tag_def)
  moreover from this have "opt_text E' = opt_text E" "platforms E' = platforms E" "skill_name E' = skill_name E"
    by (simp_all add: fun_eq_iff opt_text_def platforms_def skill_name_def)
  ultimately show ?thesis by (simp add: parse_text_def Let_def)
qed

lemma truthful_same: "same_process E E' \<Longrightarrow> truthful H E c \<Longrightarrow> truthful H E' c"
  by (simp add: truthful_def parse_text_same)

lemma truthful_coherent:
  assumes "truthful H E c" "stamped H E fs"
  shows "coherent E fs c"
proof -
  have "parse_fresh E fs (home_root md) md = Inr e"
    if mem: "(cache_key E md n, e) \<in> set c" and st: "stat fs md = Some n" for md n e
  proof -
    from mem assms(1) obtain t where t: "H (cache_key E md n) = Some t" "utf8_len t \<le> MAX_FILE_BYTES"
        "parse_text E (home_root md) md t = Inr e"
      by (fastforce simp: truthful_def cache_key_def)
    from assms(2) st have "H (cache_key E md n) = (case n of File t \<Rightarrow> Some t | _ \<Rightarrow> None)"
      by (simp add: stamped_def cache_key_def)
    with t(1) st have "stat fs md = Some (File t)" by (auto split: node.splits)
    with t show ?thesis by (simp add: parse_fresh_def read_text_capped_def open_node_def)
  qed
  then show ?thesis unfolding coherent_def list_all_iff
    by (auto simp: cache_key_def split: option.splits)
qed

lemma length_remember:
  assumes "length c \<le> Suc ENTRY_CACHE_MAX"
  shows "length (remember k e c) \<le> Suc ENTRY_CACHE_MAX"
proof -
  have "length (AList.update k e c') \<le> Suc (length c')" for c' :: cache
    by (induction c') auto
  from this [of "if length c > ENTRY_CACHE_MAX then [] else c"] show ?thesis
    by (auto simp: remember_def split: if_splits)
qed

lemma truthful_remember:
  assumes c: "truthful H E c" and s: "stamped H E fs" and st: "stat fs md = Some n"
    and p: "parse_fresh E fs (home_root md) md = Inr e"
  shows "truthful H E (remember (cache_key E md n) e c)"
proof -
  from p obtain t where r: "read_text_capped True fs md = Inr t" "parse_text E (home_root md) md t = Inr e"
    by (auto simp: parse_fresh_def split: sum.splits)
  with st have n: "n = File t" "utf8_len t \<le> MAX_FILE_BYTES"
    by (auto simp: read_text_capped_def open_node_def split: node.splits if_splits)
  with s st have "H (cache_key E md n) = Some t" by (simp add: stamped_def cache_key_def)
  moreover have "set (remember (cache_key E md n) e c) \<subseteq> insert (cache_key E md n, e) (set c)"
    using set_alist_update [of "cache_key E md n" e] unfolding remember_def by (auto split: if_splits)
  moreover have "distinct (map fst (remember (cache_key E md n) e c))"
    using c by (simp add: remember_def distinct_update truthful_def)
  ultimately show ?thesis using c r(2) n(2) length_remember [of c] unfolding truthful_def
    by (fastforce simp: cache_key_def)
qed

interpretation memo_true: memoised "\<lambda>rm. fst rm = home_root (snd rm)" "\<lambda>c. truthful H E c \<and> stamped H E fs"
    "\<lambda>rm. parse_entry E fs (fst rm) (snd rm)" "parse_spec E fs" for H E fs
proof unfold_locales
  fix rm c
  assume a: "fst rm = home_root (snd rm)" "truthful H E c \<and> stamped H E fs"
  then have "coherent E fs c" using truthful_coherent by blast
  with a show "snd (parse_entry E fs (fst rm) (snd rm) c) = parse_spec E fs rm" using memo.run_spec by blast
  from a show "truthful H E (fst (parse_entry E fs (fst rm) (snd rm) c)) \<and> stamped H E fs"
    by (auto simp: parse_entry_def truthful_remember split: option.splits sum.splits)
qed

lemma truthful_fold:
  assumes "stamped H E fs"
  shows "\<forall>rm\<in>set rms. fst rm = home_root (snd rm) \<Longrightarrow> truthful H E (ix_cache ix)
    \<Longrightarrow> truthful H E (ix_cache (foldl (index_step E fs) ix rms))"
proof (induction rms arbitrary: ix)
  case (Cons rm rms)
  obtain R md where rm: "rm = (R, md)" by (cases rm)
  have "truthful H E (fst (parse_entry E fs R md (ix_cache ix)))"
    using memo_true.run_coh [of rm H E "ix_cache ix" fs] Cons.prems assms rm by simp
  moreover have "ix_cache (index_step E fs ix rm) = fst (parse_entry E fs R md (ix_cache ix))"
    by (auto simp: index_step_def rm Let_def split: prod.splits sum.splits option.splits)
  ultimately show ?case using Cons by simp
qed simp

lemma truthful_index:
  "stamped H E fs \<Longrightarrow> truthful H E c \<Longrightarrow> truthful H E (ix_cache (build_index E fs c))"
  unfolding build_index_def by (rule truthful_fold) (use iter_ok in auto)

section \<open>A client cannot tell\<close>

definition fresh :: "server \<Rightarrow> server" where
  "fresh s = \<lparr>v_fs = v_fs s, v_cache = []\<rparr>"

definition kept_cache :: "mcp_env \<Rightarrow> server \<Rightarrow> cache \<Rightarrow> bool" where
  "kept_cache E s c \<longleftrightarrow> c = v_cache s \<or> c = ix_cache (build_index E (v_fs s) (v_cache s))"

text \<open>An operation whose result and effect on the tree do not depend on what a coherent cache holds.\<close>

definition cache_blind :: "mcp_env \<Rightarrow> (server \<Rightarrow> server \<times> 'r) \<Rightarrow> bool" where
  "cache_blind E f \<longleftrightarrow> (\<forall>s. coherent E (v_fs s) (v_cache s) \<longrightarrow>
     snd (f s) = snd (f (fresh s)) \<and> v_fs (fst (f s)) = v_fs (fst (f (fresh s))) \<and> kept_cache E s (v_cache (fst (f s))))"

lemma index_fresh:
  assumes "coherent E fs c"
  shows "ix_entries (build_index E fs c) = ix_entries (build_index E fs [])"
    "resolve_skill_dir E fs c name = resolve_skill_dir E fs [] name"
  unfolding resolve_skill_dir_def build_index_spec(1) [OF assms] build_index_spec(1) [OF coherent_Nil] by simp_all

lemma cache_blindI:
  assumes "\<And>s. (\<And>n. resolve_skill_dir E (v_fs s) (v_cache s) n = resolve_skill_dir E (v_fs s) [] n) \<Longrightarrow>
      ix_entries (build_index E (v_fs s) (v_cache s)) = ix_entries (build_index E (v_fs s) []) \<Longrightarrow>
      snd (f s) = snd (f (fresh s)) \<and> v_fs (fst (f s)) = v_fs (fst (f (fresh s))) \<and> kept_cache E s (v_cache (fst (f s)))"
  shows "cache_blind E f"
  unfolding cache_blind_def using assms index_fresh by blast

lemma list_blind: "cache_blind E (tool_skills_list E args)"
proof (rule cache_blindI)
  fix s :: server
  assume "ix_entries (build_index E (v_fs s) (v_cache s)) = ix_entries (build_index E (v_fs s) [])"
  then show "snd (tool_skills_list E args s) = snd (tool_skills_list E args (fresh s))
      \<and> v_fs (fst (tool_skills_list E args s)) = v_fs (fst (tool_skills_list E args (fresh s)))
      \<and> kept_cache E s (v_cache (fst (tool_skills_list E args s)))"
    by (cases "text_arg args ''category''") (simp_all add: tool_skills_list_def fresh_def kept_cache_def Let_def)
qed

lemma view_blind: "cache_blind E (tool_skill_view E args)"
proof (rule cache_blindI)
  fix s :: server
  assume "\<And>n. resolve_skill_dir E (v_fs s) (v_cache s) n = resolve_skill_dir E (v_fs s) [] n"
  then show "snd (tool_skill_view E args s) = snd (tool_skill_view E args (fresh s))
      \<and> v_fs (fst (tool_skill_view E args s)) = v_fs (fst (tool_skill_view E args (fresh s)))
      \<and> kept_cache E s (v_cache (fst (tool_skill_view E args s)))"
    by (simp add: tool_skill_view_def fresh_def kept_cache_def Let_def split: sum.split prod.split option.split)
qed

lemma patch_blind: "cache_blind E (tool_skill_patch E args)"
proof (rule cache_blindI)
  fix s :: server
  assume "\<And>n. resolve_skill_dir E (v_fs s) (v_cache s) n = resolve_skill_dir E (v_fs s) [] n"
  then show "snd (tool_skill_patch E args s) = snd (tool_skill_patch E args (fresh s))
      \<and> v_fs (fst (tool_skill_patch E args s)) = v_fs (fst (tool_skill_patch E args (fresh s)))
      \<and> kept_cache E s (v_cache (fst (tool_skill_patch E args s)))"
    by (simp add: tool_skill_patch_def fresh_def kept_cache_def Let_def split: sum.split prod.split option.split)
qed

text \<open>What a run makes of the answer of a blind operation is blind.\<close>

lemma blind_map:
  assumes "cache_blind E f" "\<And>s. g s = (fst (f s), h (snd (f s)))"
  shows "cache_blind E g"
  using assms by (simp add: cache_blind_def)

lemma blind_pure:
  assumes "\<And>s. f s = (s, snd (f s0))"
  shows "cache_blind E f"
proof -
  have 1: "snd (f s) = snd (f s')" "fst (f s) = s" for s s' using assms by (metis snd_conv, metis fst_conv)
  show ?thesis unfolding cache_blind_def kept_cache_def fresh_def by (auto simp: 1(2) intro: 1(1))
qed

lemma impl_blind: "tool_impl j = Some impl \<Longrightarrow> cache_blind E (impl E args)"
  by (auto simp: tool_impl_def list_blind view_blind patch_blind split: json.splits if_splits)

lemma call_blind: "cache_blind E (call_tool E i ps)"
proof (cases "\<not> hashable (jget ps (lit ''name'')) \<or> tool_impl (jget ps (lit ''name'')) = None
    \<or> (\<forall>args. jor (jget ps (lit ''arguments'')) (JObj []) \<noteq> JObj args)")
  case True
  then show ?thesis by (intro blind_pure [of _ s0]) (auto simp: call_tool_def split: option.split json.split)
next
  case False
  then obtain impl args where i: "tool_impl (jget ps (lit ''name'')) = Some impl"
    "jor (jget ps (lit ''arguments'')) (JObj []) = JObj args" "hashable (jget ps (lit ''name''))" by auto
  show ?thesis
    by (rule blind_map [OF impl_blind [OF i(1), of E args],
          where h = "\<lambda>r. Inr (Some \<lparr>rp_id = i, rp_body = (case r of Inl e \<Rightarrow> ToolFailed e | Inr j \<Rightarrow> ToolResult j)\<rparr>)"])
       (simp add: call_tool_def i split: prod.split sum.split)
qed

lemma handle_blind: "cache_blind E (handle E msg)"
proof (cases "\<exists>ps. jget msg (lit ''method'') = JStr (lit ''tools/call'') \<and> jor (jget msg (lit ''params'')) (JObj []) = JObj ps")
  case True
  then have "\<exists>ps. handle E msg = call_tool E (jget msg (lit ''id'')) ps" by (auto simp: handle_def fun_eq_iff Let_def)
  then show ?thesis using call_blind by metis
next
  case False
  have "handle E msg s = (s, snd (handle E msg s0))" for s s0
    using False by (cases "jor (jget msg (lit ''params'')) (JObj [])") (simp_all add: handle_def Let_def)
  then show ?thesis by (rule blind_pure)
qed

lemma answer_line_blind: "cache_blind E (answer_line E line)"
proof (cases "\<exists>msg. py_strip line \<noteq> [] \<and> m_parse E (py_strip line) = Some (JObj msg)")
  case True
  then obtain msg where m: "py_strip line \<noteq> []" "m_parse E (py_strip line) = Some (JObj msg)" by blast
  show ?thesis
    by (rule blind_map [OF handle_blind [of E msg], where h = "\<lambda>r. case r of
          Inl _ \<Rightarrow> [\<lparr>rp_id = jget msg (lit ''id''), rp_body = RpcError InternalError\<rparr>] | Inr r \<Rightarrow> (case r of None \<Rightarrow> [] | Some x \<Rightarrow> [x])"])
       (simp add: answer_line_def m split: prod.split sum.split)
next
  case False
  then show ?thesis by (intro blind_pure [of _ s0]) (auto simp: answer_line_def split: option.split json.split)
qed

section \<open>The whole run\<close>

lemma session_truthful: "session H io E s \<Longrightarrow> truthful H E (v_cache s) \<and> stamped H E (v_fs s)"
proof (induction rule: session.induct)
  case (request io E s line s' rs E')
  from request.IH have "coherent E (v_fs s) (v_cache s)" using truthful_coherent by blast
  with answer_line_blind [of E line] have "kept_cache E s (v_cache (fst (answer_line E line s)))"
    by (simp add: cache_blind_def)
  with request.IH request.hyps(2) have "truthful H E (v_cache s')"
    by (auto simp: kept_cache_def truthful_index serve_line_Some)
  with request.hyps(3,4) truthful_same show ?case by blast
qed (use truthful_same in auto)

text \<open>
  C8. The invariant of a run: the cache holds each key once and never more than one entry over its limit, and
  whatever has happened to the tree in the meantime, what it holds for a file as it is now is what parsing
  that file gives. So the index is always the one its specification gives for the tree as it is: the
  parsable candidates of all roots in order, of each name the first, and every candidate is either
  listed or excluded with a reason.
\<close>

theorem session_serves_truth:
  assumes "session H io E s"
  shows "distinct (map fst (v_cache s)) \<and> length (v_cache s) \<le> Suc ENTRY_CACHE_MAX
     \<and> coherent E (v_fs s) (v_cache s)
     \<and> load_catalog E (v_fs s) (v_cache s) = first_wins [] (valid_entries E (v_fs s) (iter_skill_dirs E (v_fs s)))
     \<and> length (ix_entries (build_index E (v_fs s) (v_cache s))) + length (ix_excluded (build_index E (v_fs s) (v_cache s)))
         = length (iter_skill_dirs E (v_fs s))"
proof -
  from session_truthful [OF assms] have t: "truthful H E (v_cache s)" "stamped H E (v_fs s)" by simp_all
  from truthful_coherent [OF this] build_index_spec [OF truthful_coherent [OF this]] t(1) show ?thesis
    by (simp add: truthful_def load_catalog_def)
qed

text \<open>The same run without a cache: every line is served as if the process had just started.\<close>

inductive stateless :: "history \<Rightarrow> (pystr \<times> reply list) list \<Rightarrow> mcp_env \<Rightarrow> node \<Rightarrow> bool" for H where
  start: "stamped H E fs \<Longrightarrow> stateless H [] E fs"
| request: "stateless H io E fs \<Longrightarrow> serve_line E line \<lparr>v_fs = fs, v_cache = []\<rparr> = Some (s', rs) \<Longrightarrow> same_process E E'
    \<Longrightarrow> stamped H E' (v_fs s') \<Longrightarrow> stateless H (io @ [(line, rs)]) E' (v_fs s')"
| outside: "stateless H io E fs \<Longrightarrow> same_process E E' \<Longrightarrow> stamped H E' fs' \<Longrightarrow> stateless H io E' fs'"

lemma session_blind:
  assumes "session H io E s"
  shows "snd (answer_line E line s) = snd (answer_line E line (fresh s))"
    "v_fs (fst (answer_line E line s)) = v_fs (fst (answer_line E line (fresh s)))"
  using assms session_truthful truthful_coherent answer_line_blind [of E line] unfolding cache_blind_def by blast+

lemma session_stateless: "session H io E s \<Longrightarrow> stateless H io E (v_fs s)"
proof (induction rule: session.induct)
  case (request io E s line s' rs E')
  with session_blind [OF request.hyps(1), of line]
  have "\<not> fatal (E, line)" "snd (answer_line E line (fresh s)) = rs" "v_fs (fst (answer_line E line (fresh s))) = v_fs s'"
    by (simp_all add: serve_line_Some)
  then obtain s'' where "serve_line E line \<lparr>v_fs = v_fs s, v_cache = []\<rparr> = Some (s'', rs)" "v_fs s'' = v_fs s'"
    by (cases "answer_line E line (fresh s)") (auto simp: fresh_def serve_line_Some)
  with request show ?case using stateless.request by metis
qed (auto intro: stateless.intros)

lemma stateless_session: "stateless H io E fs \<Longrightarrow> \<exists>c. session H io E \<lparr>v_fs = fs, v_cache = c\<rparr>"
proof (induction rule: stateless.induct)
  case (request io E fs line s' rs E')
  then obtain c where c: "session H io E \<lparr>v_fs = fs, v_cache = c\<rparr>" by blast
  let ?s = "\<lparr>v_fs = fs, v_cache = c\<rparr>"
  from session_blind [OF c, of line] request.hyps(2) obtain t where t: "serve_line E line ?s = Some (t, rs)" "v_fs t = v_fs s'"
    by (cases "answer_line E line ?s") (auto simp: fresh_def serve_line_Some)
  have "session H (io @ [(line, rs)]) E' t"
    using session.request [OF c t(1) request.hyps(3)] request.hyps(4) t(2) by simp
  with t(2) show ?case by (cases t) auto
next
  case (outside io E fs E' fs')
  then obtain c where "session H io E \<lparr>v_fs = fs, v_cache = c\<rparr>" by blast
  from session.outside [OF this outside.hyps(2,3)] show ?case by auto
qed (auto intro: session.start)

text \<open>
  C7. The cache is not observable: over any run of lines, and any changes other programs make to the tree between
  them, the server gives exactly the replies, and leaves exactly the trees, that it would if every line
  were served with an empty cache, both ways.
\<close>

theorem cache_is_invisible:
  "(\<exists>c. session H io E \<lparr>v_fs = fs, v_cache = c\<rparr>) \<longleftrightarrow> stateless H io E fs"
  using session_stateless stateless_session by fastforce

section \<open>A run in which the tree changes\<close>

definition session_env :: "nat \<Rightarrow> mcp_env" where
  "session_env now = sample_mcp\<lparr>m_mtime := (\<lambda>_. now), m_parse := (\<lambda>_. Some (JObj [(lit ''method'', JStr (lit ''tools/call'')),
     (lit ''id'', jnat 1), (lit ''params'', JObj [(lit ''name'', JStr (lit ''skills_list''))])]))\<rparr>"

definition renamed_lib :: node where
  "renamed_lib = Dir [(lit ''lib'', Dir [(lit ''a'', sample_skill ''six'' ''do x'')]),
     (lit ''skills'', Dir [(lit ''b'', sample_skill ''two'' ''do y'')])]"

definition two_moments :: "node \<Rightarrow> node \<Rightarrow> history" where
  "two_moments fs1 fs2 = (\<lambda>(p, m, z).
     case stat (if m = 1 then fs1 else fs2) p of
       Some (File t) \<Rightarrow> if utf8_len t = z then Some t else None
     | _ \<Rightarrow> None)"

lemma two_moments_stamped:
  "stamped (two_moments fs1 fs2) (session_env 1) fs1" "stamped (two_moments fs1 fs2) (session_env 2) fs2"
  by (auto simp: stamped_def two_moments_def session_env_def cache_key_def node_size_def split: node.split)

lemma session_started: "session (two_moments sample_lib fs) [] (session_env 1) sample_server"
  unfolding sample_server_def by (rule session.start) (rule two_moments_stamped)

theorem session_serves_truth_witness:
  "\<exists>io s. session (two_moments sample_lib renamed_lib) io (session_env 2) s \<and> length (v_cache s) = 3 \<and> v_fs s = renamed_lib
     \<and> map e_name (load_catalog (session_env 2) (v_fs s) (v_cache s)) = [lit ''six'', lit ''two'']"
proof -
  obtain s rs where r: "answer_line (session_env 1) (lit ''x'') sample_server = (s, rs)" by fastforce
  have alive: "\<not> fatal (session_env 1, lit ''x'')" by code_simp
  have c: "length (v_cache (fst (answer_line (session_env 1) (lit ''x'') sample_server))) = 3" by code_simp
  have f: "v_fs (fst (answer_line (session_env 1) (lit ''x'') sample_server)) = sample_lib" by code_simp
  from session_started have "session (two_moments sample_lib renamed_lib) ([] @ [(lit ''x'', rs)]) (session_env 1) s"
    by (rule session.request) (use f r alive two_moments_stamped in \<open>auto simp: serve_line_Some\<close>)
  from session.outside [OF this _ two_moments_stamped(2)]
  have *: "session (two_moments sample_lib renamed_lib) [(lit ''x'', rs)] (session_env 2) (s\<lparr>v_fs := renamed_lib\<rparr>)"
    by (simp add: same_process_def session_env_def)
  have "map e_name (first_wins [] (valid_entries (session_env 2) renamed_lib (iter_skill_dirs (session_env 2) renamed_lib)))
      = [lit ''six'', lit ''two'']" by code_simp
  with session_serves_truth [OF *]
  have "map e_name (load_catalog (session_env 2) renamed_lib (v_cache s)) = [lit ''six'', lit ''two'']" by simp
  with * c r show ?thesis by (intro exI [of _ "[(lit ''x'', rs)]"] exI [of _ "s\<lparr>v_fs := renamed_lib\<rparr>"]) simp
qed

text \<open>That stamps tell contents apart is needed: with the same time and size the old entry is served on.\<close>

lemma same_stamp_goes_stale:
  "map e_name (load_catalog sample_mcp renamed_lib (ix_cache (build_index sample_mcp sample_lib []))) = [lit ''one'', lit ''two'']"
  "map e_name (load_catalog sample_mcp renamed_lib []) = [lit ''six'', lit ''two'']"
  by code_simp+

section \<open>A patch is seen at once\<close>

lemma lf_only_append [simp]: "lf_only (a @ b) \<longleftrightarrow> lf_only a \<and> lf_only b"
  by (simp add: lf_only_def)

lemma lf_only_join: "lf_only (py_join [newline] ls) \<longleftrightarrow> list_all lf_only ls"
  by (induction "[newline]" ls rule: py_join.induct) (auto simp: lf_only_def)

lemma lf_only_lstrip: "lf_only s \<Longrightarrow> lf_only (lstrip_by P s)"
  by (auto simp: lf_only_def lstrip_by_def list_all_iff dest: set_dropWhileD)

text \<open>The body of a file with a head is joined by LF when it is read; only a file without one keeps other terminators.\<close>

lemma raw_body_lf:
  assumes "lf_only text \<or> \<not> isl (split_head text)"
  shows "lf_only (snd (raw_frontmatter text))"
proof (cases "split_head text")
  case (Inr r)
  then obtain fm rest where r: "fence (tl (splitlines text)) = Some (fm, rest)" "r = (fm, drop_newlines (py_join [newline] rest))"
    by (auto simp: split_head_def split: if_splits option.splits)
  then have "set rest \<subseteq> set (splitlines text)"
    using fence_Some [OF r(1)] by (cases "splitlines text") auto
  then have "list_all lf_only rest"
    using splitlines_lines by (fastforce simp: list_all_iff lf_only_def one_line_iff)
  then show ?thesis using Inr r(2) by (simp add: raw_frontmatter_def lf_only_join lf_only_lstrip)
qed (use assms in \<open>simp add: raw_frontmatter_def\<close>)

lemma resolved_readable:
  assumes "coherent E fs c" "resolve_skill_dir E fs c name = Some dir"
  shows "\<exists>text. read_text_capped True fs (dir @ [skill_md]) = Inr text"
proof -
  from assms(2) obtain e where e: "e \<in> set (ix_entries (build_index E fs c))" "dir = butlast (e_path e)"
    by (auto simp: resolve_skill_dir_def find_Some_iff intro: nth_mem)
  then obtain R md where md: "(R, md) \<in> set (iter_skill_dirs E fs)" "parse_fresh E fs R md = Inr e"
    using valid_entry assms(1) by blast
  from md(1) have "butlast md @ [skill_md] = md"
    by (auto simp: iter_skill_dirs_def iter_root_def butlast_append split: option.splits node.splits)
  with parsed_entry [OF md(2)] e(2) show ?thesis by auto
qed

text \<open>What is put in the place of a plain file is what a later open finds there.\<close>

lemma stat_tput:
  assumes "lplace fs (p @ [c]) = Some q" "tget fs q = Some (File t)" "plain_name c"
  shows "stat (tput q (File u) fs) (p @ [c]) = Some (File u)"
proof -
  from assms(1) obtain d where d: "resolve fs link_limit [] p = Some d" "q = d @ [c]" by (auto simp: lplace_def)
  have par: "dir_at fs (butlast q)" using assms(2) d(2) dir_at_prefix [of fs d "[c]"] by simp
  have "same_links fs (tput q (File u) fs)" using assms(2) by (intro same_links_tput) auto
  then have "resolve (tput q (File u) fs) link_limit [] p = Some d" using d(1) by (simp add: resolve_same_links)
  moreover have g: "tget (tput q (File u) fs) q = Some (File u)" using par by (simp add: tget_tput_self)
  ultimately have "resolve (tput q (File u) fs) link_limit [] (p @ [c]) = Some q"
    using resolve_snoc assms(3) d(2) by simp
  with g show ?thesis by (simp add: stat_def)
qed

lemma split_head_body: "split_head t = Inr (fm, b) \<Longrightarrow> fst (snd (split_frontmatter_ex R Y t)) = b"
  by (auto simp: split_frontmatter_ex_def Let_def split: option.split yaml_result.split)

text \<open>What \<^verbatim>\<open>skill_view\<close> answers for a directory whose \<^verbatim>\<open>SKILL.md\<close> can be read.\<close>

lemma view_in_readable:
  assumes "read_text_capped True fs (dir @ [skill_md]) = Inr text"
  shows "case view_in E fs dir name [] of
      Inl e \<Rightarrow> e = Internal \<and> config_broken E fs
    | Inr v \<Rightarrow> field v ''content'' = JStr (fst (snd (split_frontmatter_ex (m_repr E) (m_yaml E) text)))"
proof -
  obtain fm body st where f: "split_frontmatter_ex (m_repr E) (m_yaml E) text = (fm, body, st)" by (metis prod_cases3)
  show ?thesis
  proof (cases "readiness E fs (jget fm (lit ''requires''))")
    case (Inl e)
    then have "registered_mcp_servers E fs = Inl e" by (auto simp: readiness_def Let_def chain_Inl)
    then show ?thesis using registered_Inl Inl by (simp add: view_in_def assms f Let_def)
  qed (simp add: view_in_def assms f Let_def field_def as_dict_def jget_def)
qed

text \<open>
  C9. A repaired skill is served repaired. After an accepted \<^verbatim>\<open>skill_patch\<close>, and with any changes to the cache, the clock
  and the rest of the world that a run allows, \<^verbatim>\<open>skill_view\<close> by the same name answers with the body in which
  the one occurrence is replaced, up to surrounding blank, and the hash the patch announced is the hash of
  just the text it shows. The name must still lead to the same directory, as the tree now is, and its
  \<^verbatim>\<open>SKILL.md\<close> be no link; texts must have LF as their only line terminators unless a head is there. Only a broken
  configuration file makes the view fail.
\<close>

theorem patch_then_view:
  assumes run: "session H io E s" and d: "is_dir (v_fs s)"
    and patch: "tool_skill_patch E args s = (s1, Inr j)" "text_arg args ''name'' = Inr name" "jget args (lit ''new_string'') = JStr new"
    and at: "resolve_skill_dir E (v_fs s) [] name = Some dir"
    and plain: "lplace (v_fs s) (dir @ [skill_md]) = Some q" "tget (v_fs s) q = Some (File text)"
    and lf: "lf_only text \<or> \<not> isl (split_head text)" "lf_only new"
    and lines: "\<And>b. one_line (mcp_hash E b)" "one_line (m_now E)"
    and later: "same_process E E'" "stamped H E' (v_fs s1)" "resolve_skill_dir E' (v_fs s1) [] name = Some dir"
    and view: "text_arg vargs ''name'' = Inr name" "text_arg vargs ''file_path'' = Inr []"
  shows "case snd (tool_skill_view E' vargs s1) of
      Inl e \<Rightarrow> e = Internal \<and> config_broken E' (v_fs s1)
    | Inr v \<Rightarrow> \<exists>old a b shown. jget args (lit ''old_string'') = JStr old \<and> snd (raw_frontmatter text) = a @ old @ b
        \<and> field v ''content'' = JStr shown \<and> py_strip shown = py_strip (a @ new @ b)
        \<and> field j ''content_hash'' = JStr (mcp_hash E' shown)"
  using patch(1)
proof (cases E args s rule: patch_cases)
  case (written nm o' n' dr src p)
  have sm: "plain_name skill_md" by (simp add: plain_name_def skill_md_def)
  have tr: "truthful H E (v_cache s)" "coherent E (v_fs s) (v_cache s)" "stamped H E (v_fs s)"
    using session_truthful [OF run] truthful_coherent by blast+
  note ck = patch_checks_Inr [OF written(1)]
  from ck patch have nm: "nm = name" "n' = JStr new" by simp_all
  with written(2) at have dr: "dr = dir" using index_fresh(2) [OF tr(2)] by simp
  have st: "stat (v_fs s) (dir @ [skill_md]) = Some (File text)"
  proof -
    from plain(1) obtain D where D: "resolve (v_fs s) link_limit [] dir = Some D" "q = D @ [skill_md]" by (auto simp: lplace_def)
    with resolve_snoc [OF D(1) sm] plain(2) show ?thesis by (simp add: stat_def)
  qed
  with written(3) dr have src: "src = text" using read_capped_stat by fastforce
  from atomic_write_cases [OF st d, of "m_tmp E" "p_text p"] written(5) patch(1) dr plain(1)
  have w: "v_fs s1 = tput q (File (p_text p)) (v_fs s)" "j = patch_result E name p"
      "v_cache s1 = ix_cache (build_index E (v_fs s) (v_cache s))" by (auto simp: nm(1))
  from patch_text_Inr [OF written(4) ck(3)] nm src obtain old where
    old: "o' = JStr old" "patch_of E old new text p" "patch_source E args = Inr (p_source p)" by auto
  then obtain a b where ab: "snd (raw_frontmatter text) = a @ old @ b" "p_body p = a @ new @ b" by (auto simp: patch_of_def)
  with raw_body_lf [OF lf(1)] lf(2) have lp: "lf_only (p_body p)" by simp
  let ?shown = "normal_body (ended (p_body p))"
  have coh: "coherent E' (v_fs s1) (v_cache s1)"
    unfolding w(3) by (intro truthful_coherent [OF _ later(2)] truthful_same [OF later(1)] truthful_index tr)
  have rd: "read_text_capped True (v_fs s1) (dir @ [skill_md]) = Inr (p_text p)"
    using resolved_readable [OF coherent_Nil later(3)] stat_tput [OF plain sm] read_capped_stat w(1) by fastforce
  have "view_in E' (v_fs s1) dir name [] = snd (tool_skill_view E' vargs s1)"
    using later(3) index_fresh(2) [OF coh] view ck(2) nm by (simp add: tool_skill_view_def Let_def)
  moreover have "fst (snd (split_frontmatter_ex (m_repr E') (m_yaml E') (p_text p))) = ?shown"
    by (rule split_head_body [OF patched_head [OF old(2,3) lines]])
  moreover have "mcp_hash E' ?shown = mcp_hash E (p_body p)"
    using later(1) by (simp add: mcp_hash_def strip_normal [OF lp] same_process_def)
  moreover have "field j ''content_hash'' = JStr (mcp_hash E (p_body p))"
    by (simp add: w(2) patch_result_def field_def as_dict_def jget_def lit_eq_iff)
  ultimately have r: "case snd (tool_skill_view E' vargs s1) of Inl e \<Rightarrow> e = Internal \<and> config_broken E' (v_fs s1)
      | Inr v \<Rightarrow> field v ''content'' = JStr ?shown" "field j ''content_hash'' = JStr (mcp_hash E' ?shown)"
    using view_in_readable [OF rd, of E' name] by (simp_all split: sum.splits)
  have "py_strip ?shown = py_strip (a @ new @ b)" using strip_normal [OF lp] ab(2) by simp
  moreover have "jget args (lit ''old_string'') = JStr old" using ck(5) old(1) by simp
  ultimately show ?thesis using r ab(1) by (cases "snd (tool_skill_view E' vargs s1)") (simp, fastforce)
qed (use patch in simp)

theorem patch_then_view_witness:
  "\<exists>s1 j v shown. tool_skill_patch (session_env 1) sample_patch sample_server = (s1, Inr j)
     \<and> snd (tool_skill_view (session_env 2) [(lit ''name'', JStr (lit ''two''))] s1) = Inr v
     \<and> field v ''content'' = JStr shown \<and> field j ''content_hash'' = JStr (mcp_hash (session_env 2) shown)"
proof -
  let ?E = "session_env 1" and ?v = "[(lit ''name'', JStr (lit ''two''))]" and ?dir = "[lit ''skills'', lit ''b'']"
  have ok: "\<not> isl (snd (tool_skill_patch ?E sample_patch sample_server))" by code_simp
  then obtain s1 j where r: "tool_skill_patch ?E sample_patch sample_server = (s1, Inr j)"
    by (cases "tool_skill_patch ?E sample_patch sample_server"; cases "snd (tool_skill_patch ?E sample_patch sample_server)") auto
  then have s1: "s1 = fst (tool_skill_patch ?E sample_patch sample_server)" by simp
  have d: "is_dir (v_fs sample_server)" by code_simp
  have a: "text_arg sample_patch ''name'' = Inr (lit ''two'')" "jget sample_patch (lit ''new_string'') = JStr (lit ''well'')"
    "resolve_skill_dir ?E (v_fs sample_server) [] (lit ''two'') = Some ?dir"
    "lplace (v_fs sample_server) (?dir @ [skill_md]) = Some (?dir @ [skill_md])" by code_simp+
  obtain src where t: "tget (v_fs sample_server) (?dir @ [skill_md]) = Some (File src)" "\<not> isl (split_head src)"
  proof -
    have "case tget (v_fs sample_server) (?dir @ [skill_md]) of Some (File t) \<Rightarrow> \<not> isl (split_head t) | _ \<Rightarrow> False" by code_simp
    then show thesis by (auto split: option.splits node.splits intro: that)
  qed
  have l: "lf_only (lit ''well'')" "one_line (m_now ?E)" by code_simp+
  have h: "one_line (mcp_hash ?E b)" for b
  proof -
    have "one_line (lit ''hash'')" by code_simp
    then show ?thesis by (simp add: mcp_hash_def session_env_def sample_mcp_def)
  qed
  have n: "resolve_skill_dir (session_env 2) (v_fs s1) [] (lit ''two'') = Some ?dir"
    "text_arg ?v ''name'' = Inr (lit ''two'')" "text_arg ?v ''file_path'' = Inr []"
    "\<not> config_broken (session_env 2) (v_fs s1)" unfolding s1 by code_simp+
  have "same_process ?E (session_env 2)" by (simp add: same_process_def session_env_def)
  from patch_then_view [OF session_started d r a(1,2,3,4) t(1) _ l(1) h l(2) this two_moments_stamped(2) n(1-3)] t(2) n(4) r
  show ?thesis by (auto split: sum.splits)
qed

text \<open>
  Only reading has a cap. A patch may grow a skill beyond it, and then the skill is no longer in the
  index: it can neither be viewed nor be patched back.
\<close>

lemma outgrown_excluded:
  assumes "stat fs md = Some (File t)" "MAX_FILE_BYTES < utf8_len t"
  shows "parse_spec E fs (R, md) = Inl (ReadFailed (TooLarge (utf8_len t)))"
  using assms by (simp add: parse_spec_def parse_fresh_def read_text_capped_def open_node_def)

lemma patch_has_no_cap:
  "\<exists>p. patch_text sample_mcp [] (JStr (lit ''y'')) (JStr (replicate n 97)) (lit ''do y'') = Inr p \<and> n \<le> utf8_len (p_text p)"
proof -
  let ?y = "lit ''y''" and ?t = "lit ''do y''" and ?new = "replicate n (97 :: nat)"
  have f: "raw_frontmatter ?t = ([], ?t)" "count_sub ?y ?t = 1" "cut ?y ?t = Some (lit ''do '', [])"
    "patch_source sample_mcp [] = Inr default_source" "fm_status sample_mcp ?t = Some NoFence" by code_simp+
  have "\<exists>p. patch_text sample_mcp [] (JStr ?y) (JStr ?new) ?t = Inr p"
    using f by (auto simp: patch_text_def replace_first_def Let_def split: option.split)
  then obtain p where p: "patch_text sample_mcp [] (JStr ?y) (JStr ?new) ?t = Inr p" by blast
  have "truthy (JStr ?y)" by code_simp
  with patch_text_Inr [OF p] obtain a b where "p_body p = a @ ?new @ b"
    "p_text p = patched_text (stamp_keys (fst (raw_frontmatter ?t)) (mcp_hash sample_mcp (p_body p)) (m_now sample_mcp) (p_source p)) (p_body p)"
    by (auto simp: patch_of_def)
  moreover have "\<exists>u w. patched_text fm c = u @ c @ w" for fm c
    by (rule exI [of _ "if fm = [] then [] else dashes @ [newline] @ py_join [newline] fm @ [newline] @ dashes @ [newline]"])
       (simp add: patched_text_def Let_def)
  ultimately obtain u w where "p_text p = (u @ a) @ ?new @ (b @ w)" by (metis append_assoc)
  then have "utf8_len (p_text p) = utf8_len (u @ a) + utf8_len ?new + utf8_len (b @ w)" by (simp add: utf8_len_def)
  moreover have "utf8_len ?new = n" by (induction n) (simp_all add: utf8_len_def)
  ultimately show ?thesis using p by auto
qed

end
