(* ===== verification/Rule_Injector.thy ===== *)
theory Rule_Injector
  imports Bash_Guard Catalog_Paths
begin

text \<open>
  \<^verbatim>\<open>rules/inject_rules.py\<close>: the hook at the start of a session. It finds the session's directory, decides whether
  that is an oracle's, resolves its role and puts the two rule files together. \<open>None\<close> is "print
  nothing".
\<close>

record rules_env =
  re_dir :: path
  re_dir_text :: pystr
  re_parse :: "pystr \<Rightarrow> json option"
  re_project :: "pystr option"
  re_here :: "path option"

text \<open>
  A directory as a string is turned into a place by the process's own directory, \<open>re_here\<close>, which is missing when
  \<^verbatim>\<open>os.getcwd()\<close> raises.
\<close>

definition place_of :: "rules_env \<Rightarrow> pystr \<Rightarrow> path option" where
  "place_of R s = (if is_abs s then Some (comps s) else map_option (\<lambda>h. h @ comps s) (re_here R))"

definition session_cwd :: "rules_env \<Rightarrow> (pystr \<times> json) list \<Rightarrow> pystr option" where
  "session_cwd R p =
     (case first_string p (map lit [''cwd'', ''project_dir'', ''projectDir'']) of
        Some s \<Rightarrow> Some s
      | None \<Rightarrow>
          (case re_project R of
             Some e \<Rightarrow> if py_strip e \<noteq> [] then Some (py_strip e) else map_option path_text (re_here R)
           | None \<Rightarrow> map_option path_text (re_here R)))"

text \<open>A file opened as UTF-8; one that is not raises like one that is missing.\<close>

definition read_utf8 :: "node \<Rightarrow> path \<Rightarrow> pystr option" where
  "read_utf8 fs p = (case snd (read_text p fs) of Inl e \<Rightarrow> None | Inr t \<Rightarrow> if utf8_ok t then Some t else None)"

definition load_roles :: "rules_env \<Rightarrow> node \<Rightarrow> (pystr \<times> json) list" where
  "load_roles R fs =
     (case read_utf8 fs (re_dir R @ [lit ''roles.json'']) of
        None \<Rightarrow> []
      | Some t \<Rightarrow> (case re_parse R t of Some (JObj kvs) \<Rightarrow> kvs | _ \<Rightarrow> []))"

text \<open>
  \<^verbatim>\<open>os.path.realpath\<close> raises for a NUL and for a surrogate that does not stand for an undecodable byte (those are
  U+DC80 to U+DCFF).
\<close>

definition usable_path :: "pystr \<Rightarrow> bool" where
  "usable_path s \<longleftrightarrow> list_all (\<lambda>c. c \<noteq> 0 \<and> (surrogate c \<longrightarrow> 56448 \<le> c \<and> c \<le> 56575)) s"

definition dir_base :: "unidb \<Rightarrow> rules_env \<Rightarrow> node \<Rightarrow> pystr \<Rightarrow> pystr option" where
  "dir_base U R fs cwd =
     (if \<not> usable_path cwd then None
      else map_option (\<lambda>q. let p = realpath fs q in py_lower U (py_strip (if p = [] then [] else last p))) (place_of R cwd))"

definition oracle_name :: "unidb \<Rightarrow> rules_env \<Rightarrow> node \<Rightarrow> pystr \<Rightarrow> pystr" where
  "oracle_name U R fs cwd =
     (case dir_base U R fs cwd of
        None \<Rightarrow> []
      | Some base \<Rightarrow> if suffix oracle_suffix base then take (length base - length oracle_suffix) base else base)"

definition rules_is_oracle :: "unidb \<Rightarrow> rules_env \<Rightarrow> node \<Rightarrow> pystr \<Rightarrow> (pystr \<times> json) list \<Rightarrow> bool" where
  "rules_is_oracle U R fs cwd roles \<longleftrightarrow>
     (case dir_base U R fs cwd of
        None \<Rightarrow> False
      | Some base \<Rightarrow>
          suffix oracle_suffix base
          \<or> (let name = oracle_name U R fs cwd
             in name \<noteq> [] \<and> \<not> prefix (lit ''_'') name \<and> map_of roles name \<noteq> None))"

definition role_text :: "json \<Rightarrow> pystr option" where
  "role_text j = (case j of JStr s \<Rightarrow> if py_strip s \<noteq> [] then Some s else None | _ \<Rightarrow> None)"

definition resolve_role :: "unidb \<Rightarrow> pystr \<Rightarrow> (pystr \<times> json) list \<Rightarrow> pystr" where
  "resolve_role U name roles =
     (let own = (if \<not> prefix (lit ''_'') name then role_text (jget roles name) else None);
          chosen = (case own of Some s \<Rightarrow> s
                    | None \<Rightarrow> (case role_text (jget roles (lit ''_default'')) of Some s \<Rightarrow> s | None \<Rightarrow> lit ''worker''));
          r = py_lower U (py_strip chosen)
      in if py_isalnum U (replace_cp 45 [] r) then r else lit ''worker'')"

definition read_rule :: "rules_env \<Rightarrow> node \<Rightarrow> pystr \<Rightarrow> pystr" where
  "read_rule R fs filename =
     (case read_utf8 fs (re_dir R @ [filename]) of
        None \<Rightarrow> lit ''[rules] MISSING '' @ filename
      | Some t \<Rightarrow> if py_strip t \<noteq> [] then py_strip t else lit ''[rules] MISSING '' @ filename @ lit '' (empty)'')"

definition role_file :: "pystr \<Rightarrow> pystr" where
  "role_file role = lit ''role-'' @ role @ lit ''.md''"

text \<open>The receipt's separators are middle dots, U+00B7. \<open>Inl ()\<close> is the exception of \<^verbatim>\<open>encode\<close>.\<close>

definition build_context :: "unidb \<Rightarrow> rules_env \<Rightarrow> node \<Rightarrow> pystr \<Rightarrow> unit + pystr option" where
  "build_context U R fs cwd =
     (let roles = load_roles R fs
      in if \<not> rules_is_oracle U R fs cwd roles then Inr None
         else let name = oracle_name U R fs cwd;
                  role = resolve_role U name roles;
                  body = read_rule R fs (lit ''universal.md'') @ [10, 10] @ read_rule R fs (role_file role);
                  receipt = lit ''[rules] '' @ name @ [32, 183] @ lit '' universal + role-'' @ role @ [32, 183, 32]
                    @ decimal (utf8_len body) @ lit '' bytes '' @ [183, 32] @ re_dir_text R
              in if \<not> utf8_ok body then Inl () else Inr (Some (body @ [10, 10] @ receipt)))"

text \<open>The part of \<^verbatim>\<open>main\<close> inside its \<^verbatim>\<open>try\<close>.\<close>

definition inject_context :: "unidb \<Rightarrow> rules_env \<Rightarrow> node \<Rightarrow> (pystr \<times> json) list \<Rightarrow> unit + pystr option" where
  "inject_context U R fs p = (case session_cwd R p of None \<Rightarrow> Inl () | Some cwd \<Rightarrow> build_context U R fs cwd)"

section \<open>Properties\<close>

definition role_cp :: "unidb \<Rightarrow> nat \<Rightarrow> bool" where
  "role_cp U c \<longleftrightarrow> c = 45 \<or> alnum_cp U c"

lemma resolve_role_chars: "resolve_role U name roles \<noteq> [] \<and> list_all (role_cp U) (resolve_role U name roles)"
proof -
  have w: "list_all (role_cp U) (lit ''worker'')"
    by (simp add: lit_simps role_cp_def alnum_cp_def is_lower_def)
  have "r \<noteq> [] \<and> list_all (role_cp U) r" if "py_isalnum U (replace_cp 45 [] r)" for r
  proof -
    have "replace_cp 45 [] r = filter (\<lambda>c. c \<noteq> 45) r" by (induction r) (auto simp: replace_cp_Cons)
    with that show ?thesis by (auto simp: py_isalnum_def role_cp_def list_all_iff filter_empty_conv)
  qed
  with w show ?thesis by (simp add: resolve_role_def Let_def)
qed

lemma role_cp_safe: "role_cp U c \<Longrightarrow> c \<noteq> slash \<and> c \<noteq> 46 \<and> c \<noteq> 0 \<and> c \<noteq> 92"
  by (auto simp: role_cp_def alnum_cp_def is_lower_def is_upper_def is_digit_def split: if_splits)

text \<open>
  The role file cannot be outside the rules directory: whatever \<^verbatim>\<open>roles.json\<close> says, the role is a non-empty
  word of letters, digits and dashes, and its file name joins to the rules directory as one component.
\<close>

theorem role_file_stays_inside:
  "resolve_role U name roles \<noteq> [] \<and> list_all (role_cp U) (resolve_role U name roles)
   \<and> comps (d @ slash # role_file (resolve_role U name roles)) = comps d @ [role_file (resolve_role U name roles)]"
proof -
  note r = resolve_role_chars [of U name roles]
  then have "slash \<notin> set (role_file (resolve_role U name roles))"
    using role_cp_safe by (fastforce simp: role_file_def lit_simps list_all_iff)
  then have "comps (role_file (resolve_role U name roles)) = [role_file (resolve_role U name roles)]"
    by (simp add: comps_plain role_file_def lit_simps)
  with r show ?thesis by (simp add: comps_append_slash)
qed

text \<open>What a reader finds of a rule file in the injected text: its stripped content, or a line that names it as missing.\<close>

definition rule_shown :: "rules_env \<Rightarrow> node \<Rightarrow> pystr \<Rightarrow> pystr \<Rightarrow> bool" where
  "rule_shown R fs f t \<longleftrightarrow>
     (case stat fs (re_dir R @ [f]) of
        Some (File s) \<Rightarrow>
          if utf8_ok (univ_nl s) \<and> py_strip (univ_nl s) \<noteq> [] then contains (py_strip (univ_nl s)) t
          else contains (lit ''[rules] MISSING '' @ f) t
      | _ \<Rightarrow> contains (lit ''[rules] MISSING '' @ f) t)"

lemma read_rule_shown: "contains (read_rule R fs f) t \<Longrightarrow> rule_shown R fs f t"
  using contains_shorter [of "lit ''[rules] MISSING '' @ f" "lit '' (empty)'' " t]
  by (auto simp: rule_shown_def read_rule_def read_utf8_def read_text_def split: option.splits node.splits if_splits)

text \<open>Nothing the rules directory holds makes the context raise.\<close>

lemma role_utf8: "utf8_ok (resolve_role U name roles)"
proof -
  have "role_cp U c \<Longrightarrow> \<not> surrogate c" for c
    by (auto simp: role_cp_def alnum_cp_def surrogate_def split: if_splits)
  with resolve_role_chars [of U name roles] show ?thesis by (auto simp: utf8_ok_def list_all_iff)
qed

lemma read_rule_utf8: "utf8_ok f \<Longrightarrow> utf8_ok (read_rule R fs f)"
proof -
  have "utf8_ok t \<Longrightarrow> utf8_ok (py_strip t)" for t
    using set_strip_by [of is_space t] by (auto simp: utf8_ok_def list_all_iff py_strip_def)
  then show "utf8_ok f \<Longrightarrow> utf8_ok (read_rule R fs f)"
    by (auto simp: read_rule_def read_utf8_def split: option.splits if_splits sum.splits)
qed

lemma decimal_utf8: "utf8_ok (decimal n)"
  by (induction n rule: decimal.induct) (subst decimal.simps, auto simp: utf8_ok_def)

lemma build_context_oracle:
  assumes "rules_is_oracle U R fs cwd (load_roles R fs)"
  defines "role \<equiv> resolve_role U (oracle_name U R fs cwd) (load_roles R fs)"
  shows "\<exists>t. build_context U R fs cwd = Inr (Some t) \<and> rule_shown R fs (lit ''universal.md'') t \<and> rule_shown R fs (role_file role) t
     \<and> (utf8_ok t \<longleftrightarrow> utf8_ok (oracle_name U R fs cwd) \<and> utf8_ok (re_dir_text R))"
proof -
  let ?a = "read_rule R fs (lit ''universal.md'')" and ?b = "read_rule R fs (role_file role)"
  have u: "utf8_ok ?a" "utf8_ok ?b" "utf8_ok role"
    using role_utf8 by (simp_all add: read_rule_utf8 role_file_def role_def)
  note d = decimal_utf8
  obtain rest where t: "build_context U R fs cwd = Inr (Some (?a @ [10, 10] @ ?b @ rest))"
      "utf8_ok rest \<longleftrightarrow> utf8_ok (oracle_name U R fs cwd) \<and> utf8_ok (re_dir_text R)"
    using assms(1) u d by (simp add: build_context_def Let_def role_def)
  have "contains ?a (?a @ [10, 10] @ ?b @ rest)" "contains ?b (?a @ [10, 10] @ ?b @ rest)"
    unfolding contains_iff_sublist sublist_def by (blast intro: append_assoc [symmetric], metis append.assoc)
  with t u show ?thesis by (simp add: read_rule_shown)
qed

lemma rules_is_oracle_iff:
  "rules_is_oracle U R fs cwd roles \<longleftrightarrow>
     (\<exists>base. dir_base U R fs cwd = Some base
        \<and> (suffix (lit ''-oracle'') base \<or> (base \<noteq> [] \<and> hd base \<noteq> 95 \<and> base \<in> fst ` set roles)))"
proof -
  have "prefix (lit ''_'') base \<longleftrightarrow> base \<noteq> [] \<and> hd base = 95" for base by (cases base) (auto simp: lit_simps)
  then show ?thesis
    by (auto simp: rules_is_oracle_def oracle_name_def oracle_suffix_def Let_def map_of_eq_None_iff split: option.splits)
qed

lemma oracle_name_utf8: "dir_base U R fs cwd = Some base \<Longrightarrow> utf8_ok (oracle_name U R fs cwd) \<longleftrightarrow> utf8_ok base"
proof -
  have "utf8_ok (take (length base - length oracle_suffix) base) \<longleftrightarrow> utf8_ok base" if "suffix oracle_suffix base"
  proof -
    from that obtain a where "base = a @ oracle_suffix" by (auto simp: suffix_def)
    then show ?thesis by (simp add: oracle_suffix_def)
  qed
  then show "dir_base U R fs cwd = Some base \<Longrightarrow> utf8_ok (oracle_name U R fs cwd) \<longleftrightarrow> utf8_ok base"
    by (simp add: oracle_name_def)
qed

text \<open>
  C37. Silence for others, both tiers for oracles. The name that counts is the last component of the session's directory
  after all links are resolved, stripped and in lower case. Where it ends in \<^verbatim>\<open>-oracle\<close>, or is a key of the roles that
  does not begin with an underscore, the text carries the universal rules and the rules of a role; the role
  is the one given to the oracle (its name without the suffix), when that is a word of letters, digits and dashes, and always
  such a word. A rule file that is absent, unreadable or blank is named as missing, so the rules never get fewer in
  silence. For any other name, and for a directory \<^verbatim>\<open>realpath\<close> cannot take (a NUL, a bad surrogate, a
  relative one when there is no working directory), nothing is emitted; and nothing raises.
\<close>

theorem injects_for_oracles_only:
  "case (if usable_path cwd then map_option (realpath fs) (place_of R cwd) else None) of
     None \<Rightarrow> build_context U R fs cwd = Inr None
   | Some p \<Rightarrow>
      (let base = py_lower U (py_strip (if p = [] then [] else last p)); roles = load_roles R fs;
           named = suffix (lit ''-oracle'') base; name = (if named then take (length base - 7) base else base)
       in if named \<or> (base \<noteq> [] \<and> hd base \<noteq> 95 \<and> base \<in> fst ` set roles)
          then \<exists>t role. build_context U R fs cwd = Inr (Some t)
             \<and> rule_shown R fs (lit ''universal.md'') t \<and> rule_shown R fs (role_file role) t
             \<and> role \<noteq> [] \<and> list_all (role_cp U) role
             \<and> (case jget roles name of
                   JStr s \<Rightarrow> if \<not> prefix (lit ''_'') name \<and> py_strip s \<noteq> [] \<and> py_isalnum U (replace_cp 45 [] (py_lower U (py_strip s)))
                             then role = py_lower U (py_strip s) else True
                 | _ \<Rightarrow> True)
          else build_context U R fs cwd = Inr None)"
proof (cases "dir_base U R fs cwd")
  case None
  then have "(if usable_path cwd then map_option (realpath fs) (place_of R cwd) else None) = None"
    by (simp add: dir_base_def split: if_splits)
  moreover have "build_context U R fs cwd = Inr None" using None by (simp add: build_context_def rules_is_oracle_def)
  ultimately show ?thesis by simp
next
  case (Some base)
  then obtain p where p: "(if usable_path cwd then map_option (realpath fs) (place_of R cwd) else None) = Some p"
      "base = py_lower U (py_strip (if p = [] then [] else last p))"
    by (auto simp: dir_base_def Let_def split: if_splits)
  let ?roles = "load_roles R fs" and ?named = "suffix (lit ''-oracle'') base"
  let ?name = "if ?named then take (length base - 7) base else base"
  have "length oracle_suffix = 7" by (simp add: oracle_suffix_def lit_simps)
  then have name: "oracle_name U R fs cwd = ?name" by (simp add: oracle_name_def Some) (simp add: oracle_suffix_def)
  have o: "rules_is_oracle U R fs cwd ?roles \<longleftrightarrow> ?named \<or> (base \<noteq> [] \<and> hd base \<noteq> 95 \<and> base \<in> fst ` set ?roles)"
    by (simp add: rules_is_oracle_iff Some)
  let ?role = "resolve_role U ?name ?roles"
  have own: "case jget ?roles ?name of
       JStr s \<Rightarrow> if \<not> prefix (lit ''_'') ?name \<and> py_strip s \<noteq> [] \<and> py_isalnum U (replace_cp 45 [] (py_lower U (py_strip s)))
          then ?role = py_lower U (py_strip s) else True
     | _ \<Rightarrow> True"
    by (simp add: resolve_role_def role_text_def split: json.split)
  show ?thesis
  proof (cases "rules_is_oracle U R fs cwd ?roles")
    case True
    from build_context_oracle [OF True] obtain t where t: "build_context U R fs cwd = Inr (Some t)"
        "rule_shown R fs (lit ''universal.md'') t" "rule_shown R fs (role_file ?role) t"
      unfolding name by blast
    have "\<exists>t role. build_context U R fs cwd = Inr (Some t)
        \<and> rule_shown R fs (lit ''universal.md'') t \<and> rule_shown R fs (role_file role) t \<and> role \<noteq> [] \<and> list_all (role_cp U) role
        \<and> (case jget ?roles ?name of
             JStr s \<Rightarrow> if \<not> prefix (lit ''_'') ?name \<and> py_strip s \<noteq> [] \<and> py_isalnum U (replace_cp 45 [] (py_lower U (py_strip s)))
               then role = py_lower U (py_strip s) else True
           | _ \<Rightarrow> True)"
      using t own resolve_role_chars [of U ?name ?roles] by blast
    with True o show ?thesis unfolding p(1) option.case Let_def p(2) [symmetric] by (simp only: if_True)
  next
    case False
    then have "build_context U R fs cwd = Inr None" by (simp add: build_context_def)
    with False o show ?thesis unfolding p(1) option.case Let_def p(2) [symmetric] by (simp only: if_False)
  qed
qed

end
