(* ===== verification/Inventory_Hook.thy ===== *)
theory Inventory_Hook
  imports Mcp_Tools
begin

text \<open>
  \<^verbatim>\<open>skills-mcp/inventory-hook.py\<close>: the hook that adds the agent's tools to a call of \<^verbatim>\<open>skills_list\<close>. \<open>Inl ()\<close> is an
  exception that ends the hook with an error, \<open>Inr None\<close> a call that goes on unchanged.
\<close>

record hook_env =
  h_parse :: "pystr \<Rightarrow> json option"
  h_home :: path
  h_here :: path
  h_key :: "json \<Rightarrow> pystr"

definition hook_builtin_tools :: "pystr list" where
  "hook_builtin_tools = map lit [''Bash'', ''Read'', ''Edit'', ''Write'', ''Glob'', ''Grep'', ''LS'', ''List'',
     ''WebFetch'', ''WebSearch'', ''Task'', ''Agent'', ''TodoWrite'', ''NotebookEdit'',
     ''Skill'', ''MultiEdit'', ''ExitPlanMode'']"

text \<open>
  A path that is a number would be a file descriptor; it is taken as no regular file. Names are collected until something is not as expected; what was collected by then stays. \<open>keys\<close> is
  iterating \<^verbatim>\<open>x or {}\<close>, which works for dictionaries, and for lists and strings as their items.
\<close>

definition keys :: "json \<Rightarrow> json list option" where
  "keys v =
     (if \<not> truthy v then Some []
      else case v of
             JObj kvs \<Rightarrow> Some (map (JStr \<circ> fst) kvs)
           | JArr xs \<Rightarrow> Some xs
           | JStr s \<Rightarrow> Some (map (\<lambda>c. JStr [c]) s)
           | _ \<Rightarrow> None)"

fun project_names :: "(pystr \<times> json) list \<Rightarrow> json list" where
  "project_names [] = []"
| "project_names ((p, JObj cfg) # rest) =
     (case keys (jget cfg (lit ''mcpServers'')) of None \<Rightarrow> [] | Some ks \<Rightarrow> ks @ project_names rest)"
| "project_names ((p, _) # rest) = project_names rest"

definition registered_mcp_tools :: "hook_env \<Rightarrow> node \<Rightarrow> json list" where
  "registered_mcp_tools H fs =
     (case snd (read_text (h_home H @ [lit ''.claude.json'']) fs) of
        Inl e \<Rightarrow> []
      | Inr t \<Rightarrow>
          (case h_parse H t of
             Some (JObj conf) \<Rightarrow>
               (case keys (jget conf (lit ''mcpServers'')) of
                  None \<Rightarrow> []
                | Some ks \<Rightarrow> ks @ (case jor (jget conf (lit ''projects'')) (JObj []) of JObj ps \<Rightarrow> project_names ps | _ \<Rightarrow> []))
           | _ \<Rightarrow> []))"

definition tool_tokens :: "pystr \<Rightarrow> pystr list" where
  "tool_tokens line =
     (if contains (lit ''deferred tools'') line \<or> contains (lit ''mcp__'') line
      then filter (prefix (lit ''mcp__'')) (runs (\<lambda>c. \<not> is_space c) (replace_cp 44 [blank] (replace_cp dquote [blank] line)))
      else [])"

definition deferred_tools :: "hook_env \<Rightarrow> node \<Rightarrow> json \<Rightarrow> unit + pystr list" where
  "deferred_tools H fs p =
     (if \<not> truthy p then Inr []
      else case p of
             JStr s \<Rightarrow>
               (case stat fs (if is_abs s then comps s else h_here H @ comps s) of
                  Some (File t) \<Rightarrow>
                    Inr (sort (remdups (concat (map tool_tokens (split_max [newline] (length t) (univ_nl t))))))
                | _ \<Rightarrow> Inr [])
           | JArr xs \<Rightarrow> Inl ()
           | JObj kvs \<Rightarrow> Inl ()
           | _ \<Rightarrow> Inr [])"

fun stable_unique :: "json list \<Rightarrow> json list \<Rightarrow> json list" where
  "stable_unique seen [] = []"
| "stable_unique seen (t # ts) =
     (if t \<in> set seen then stable_unique seen ts else t # stable_unique (t # seen) ts)"

definition get_or_null :: "json \<Rightarrow> pdict \<Rightarrow> json" where
  "get_or_null k d = (case get_key k d of None \<Rightarrow> JNull | Some v \<Rightarrow> v)"

definition hook_main :: "hook_env \<Rightarrow> node \<Rightarrow> json option \<Rightarrow> unit + pdict option" where
  "hook_main H fs payload =
     (case payload of
        None \<Rightarrow> Inr None
      | Some (JObj p) \<Rightarrow>
          (case (case map_of p (lit ''tool_name'') of None \<Rightarrow> JStr [] | Some v \<Rightarrow> v) of
             JStr name \<Rightarrow>
               if \<not> suffix (lit ''skills_list'') name then Inr None
               else (case py_dict (jor (jget p (lit ''tool_input'')) (JObj [])) of
                       None \<Rightarrow> Inl ()
                     | Some input \<Rightarrow>
                         if truthy (get_or_null (JStr (lit ''agent_tools'')) input) then Inr None
                         else (case deferred_tools H fs (jget p (lit ''transcript_path'')) of
                                 Inl u \<Rightarrow> Inl u
                               | Inr ds \<Rightarrow>
                                   (let inventory = map JStr hook_builtin_tools @ registered_mcp_tools H fs @ map JStr ds
                                    in if list_all hashable inventory
                                       then Inr (Some (put_key (JStr (lit ''agent_tools'')) (JArr (stable_unique [] inventory)) input))
                                       else Inl ())))
           | _ \<Rightarrow> Inl ())
      | _ \<Rightarrow> Inl ())"

section \<open>Laws\<close>

lemma stable_unique_set: "set (stable_unique seen ts) = set ts - set seen"
  by (induction seen ts rule: stable_unique.induct) auto

lemma stable_unique_distinct: "distinct (stable_unique seen ts)"
  by (induction seen ts rule: stable_unique.induct) (auto simp: stable_unique_set)

lemma stable_unique_subseq: "subseq (stable_unique seen ts) ts"
  by (induction seen ts rule: stable_unique.induct) auto

text \<open>The mirrored list is the server's.\<close>

lemma hook_mirrors_server: "hook_builtin_tools = BUILTIN_TOOLS"
  by (simp add: hook_builtin_tools_def BUILTIN_TOOLS_def)

text \<open>
  A rewritten call differs in \<^verbatim>\<open>agent_tools\<close> only, and only when the model gave none; the inventory has no
  repetition and holds every built-in tool.
\<close>

lemma hook_adds_inventory:
  assumes "hook_main H fs payload = Inr (Some out)"
  shows "\<exists>p input inv. payload = Some (JObj p) \<and> py_dict (jor (jget p (lit ''tool_input'')) (JObj [])) = Some input
     \<and> \<not> truthy (get_or_null (JStr (lit ''agent_tools'')) input)
     \<and> (\<forall>k. get_key k out = (if k = JStr (lit ''agent_tools'') then Some (JArr inv) else get_key k input))
     \<and> distinct inv \<and> JStr ` set hook_builtin_tools \<subseteq> set inv"
proof -
  from assms obtain p input ds where p: "payload = Some (JObj p)" "py_dict (jor (jget p (lit ''tool_input'')) (JObj [])) = Some input"
      "\<not> truthy (get_or_null (JStr (lit ''agent_tools'')) input)"
      "out = put_key (JStr (lit ''agent_tools'')) (JArr (stable_unique [] (map JStr hook_builtin_tools @ registered_mcp_tools H fs @ map JStr ds))) input"
    by (auto simp: hook_main_def Let_def split: option.splits json.splits if_splits sum.splits)
  then show ?thesis by (auto simp: get_put stable_unique_set stable_unique_distinct)
qed

end
