(* ===== verification/Tool_Mains.thy ===== *)
theory Tool_Mains
  imports Collect_Properties Sync_Properties Rule_Injector Inventory_Hook Mcp_Wire
begin

text \<open>
  The tools and hooks as processes: what they read from standard input, the JSON they print and their exit code. A
  Python program that ends with an exception prints its traceback elsewhere and exits with 1.
\<close>

type_synonym process = "json option \<times> nat"

definition crashed :: process where "crashed = (None, 1)"

definition says :: "json \<Rightarrow> process" where "says j = (Some j, 0)"

definition names_json :: "pystr list \<Rightarrow> json" where
  "names_json ns = JArr (map JStr ns)"

section \<open>The collector's report\<close>

text \<open>\<open>shown\<close> writes a place the way the paths given on the command line make it.\<close>

definition seg_text :: "seg_reason \<Rightarrow> pystr" where
  "seg_text w = (case w of
      EmptyOrDot \<Rightarrow> lit ''empty or a dot segment''
    | HasSeparator \<Rightarrow> lit ''contains a path separator (join would leave the root)''
    | BadShape \<Rightarrow> lit ''not [A-Za-z0-9._-], 1-64 chars'')"

definition refusal_json :: "(path \<Rightarrow> pystr) \<Rightarrow> pystr \<times> refusal \<Rightarrow> json" where
  "refusal_json shown r =
     (let (name, why) = r; record = (\<lambda>reason extra. obj ([(''name'', JStr name), (''reason'', JStr reason)] @ extra))
      in case why of
           BadSegment w cat dir \<Rightarrow> record (seg_text w) [(''category'', JStr cat), (''dir'', JStr (shown dir))]
         | BadTarget w target \<Rightarrow>
             record (lit ''created_by makes an unusable folder name: '' @ seg_text w) [(''target'', JStr target)]
         | OutsideRoot dest \<Rightarrow> record (lit ''destination resolves outside skills/'') [(''dest'', JStr (shown dest))])"

definition commit_error_text :: "commit_error \<Rightarrow> pystr" where
  "commit_error_text e = (case e of
      AddFailed t \<Rightarrow> lit ''add_failed: '' @ t
    | CommitFailed t \<Rightarrow> lit ''commit_failed: '' @ t
    | HeadNotMoved \<Rightarrow> lit ''commit_did_not_move_head'')"

definition renamed_json :: "(pystr \<times> pystr) list \<Rightarrow> json" where
  "renamed_json rs = JArr (map (\<lambda>(a, b). obj [(''from'', JStr a), (''to'', JStr b)]) rs)"

definition collect_out :: "(path \<Rightarrow> pystr) \<Rightarrow> bool \<Rightarrow> cstate \<Rightarrow> published \<Rightarrow> json" where
  "collect_out shown online st p =
     obj ([(''committed'', names_json (c_committed st)), (''updated'', names_json (c_updated st)),
           (''skipped'', names_json (c_skipped st)), (''renamed'', renamed_json (c_renamed st)),
           (''commit'', case p_commit p of None \<Rightarrow> JNull | Some sha \<Rightarrow> JStr sha),
           (''pushed'', case p_pushed p of None \<Rightarrow> JNull | Some b \<Rightarrow> JBool b),
           (''mode'', if online then js ''online'' else js ''local'')]
        @ (case p_error p of None \<Rightarrow> [] | Some e \<Rightarrow> [(''error'', JStr (commit_error_text e))])
        @ (if c_rejected st = [] then [] else [(''rejected'', JArr (map (refusal_json shown) (c_rejected st)))]))"

definition collect_main ::
    "(path \<Rightarrow> pystr) \<Rightarrow> 'g git \<Rightarrow> pystr \<Rightarrow> bool \<Rightarrow> bool \<Rightarrow> path \<Rightarrow> path \<Rightarrow> node \<Rightarrow> 'g \<Rightarrow> node \<times> 'g \<times> process" where
  "collect_main shown G committer online push repo src fs g =
     (case collect repo src fs of
        (fs', Inl e) \<Rightarrow> (fs', g, crashed)
      | (fs', Inr st) \<Rightarrow>
          (case publish G committer online push st g of (g', p) \<Rightarrow> (fs', g', says (collect_out shown online st p))))"

section \<open>The sync's report\<close>

definition sync_refusal_json :: "(path \<Rightarrow> pystr) \<Rightarrow> pystr \<times> path \<times> sync_refusal \<Rightarrow> json" where
  "sync_refusal_json shown r =
     (let (name, src, why) = r
      in obj [(''name'', JStr name), (''dir'', JStr (shown src)),
              (''reason'', JStr (case why of Unsafe w \<Rightarrow> seg_text w
                                 | OutsideDest \<Rightarrow> lit ''destination resolves outside --dest''))])"

definition sync_out :: "(path \<Rightarrow> pystr) \<Rightarrow> path \<Rightarrow> sync_state \<Rightarrow> pystr list \<Rightarrow> json" where
  "sync_out shown dest st archived =
     obj ([(''synced'', names_json (s_synced st)), (''archived'', names_json archived), (''dest'', JStr (shown dest))]
        @ (if s_rejected st = [] then [] else [(''rejected'', JArr (map (sync_refusal_json shown) (s_rejected st)))]))"

definition sync_main :: "(path \<Rightarrow> pystr) \<Rightarrow> path \<Rightarrow> path \<Rightarrow> node \<Rightarrow> node \<times> process" where
  "sync_main shown repo dest fs =
     (case sync repo dest fs of
        (fs', Inl e) \<Rightarrow> (fs', crashed)
      | (fs', Inr (st, archived)) \<Rightarrow> (fs', says (sync_out shown dest st archived)))"

section \<open>The hooks\<close>

text \<open>
  Standard input is its text, or \<open>None\<close> when it cannot be read. A hook's output is one object under
  \<^verbatim>\<open>hookSpecificOutput\<close>.
\<close>

definition hook_output :: "(char list \<times> json) list \<Rightarrow> json" where
  "hook_output kvs = obj [(''hookSpecificOutput'', obj kvs)]"

definition stdin_json :: "(pystr \<Rightarrow> json option) \<Rightarrow> pystr option \<Rightarrow> json" where
  "stdin_json parse stdin =
     (case stdin of
        None \<Rightarrow> JObj []
      | Some raw \<Rightarrow> if py_strip raw = [] then JObj [] else (case parse raw of None \<Rightarrow> JObj [] | Some j \<Rightarrow> j))"

definition read_stdin_json :: "(pystr \<Rightarrow> json option) \<Rightarrow> pystr option \<Rightarrow> json" where
  "read_stdin_json parse stdin =
     (case stdin of
        None \<Rightarrow> JObj []
      | Some raw \<Rightarrow>
          if raw = [] \<or> py_strip raw = [] then JObj []
          else (case parse raw of Some (JObj kvs) \<Rightarrow> JObj kvs | _ \<Rightarrow> JObj []))"

text \<open>The two reasons of a denial, in Thai, around the matched text.\<close>

definition shot_before :: pystr where
  "shot_before =
    lit ''chromium '' @ [3610, 3609, 3648, 3588, 3619, 3639, 3656, 3629, 3591, 3609, 3637, 3657, 3648, 3611, 3655,
    3609] @ lit '' snap '' @ [3595, 3638, 3656, 3591, 3617, 3637] @ lit '' /tmp '' @ [3626, 3656, 3623, 3609, 3605,
    3633, 3623, 3586, 3629, 3591, 3605, 3633, 3623, 3648, 3629, 3591] @ lit '' '' @ [8658] @ lit '' `--screenshot=''"

definition shot_after :: pystr where
  "shot_after =
    lit ''` '' @ [3592, 3632, 3652, 3617, 3656, 3648, 3586, 3637, 3618, 3609, 3652, 3615, 3621, 3660, 3629, 3632,
    3652, 3619, 3648, 3621, 3618] @ lit '' ('' @ [3652, 3604, 3657, 3649, 3588, 3656]
    @ lit '' `Failed to write file '' @ [8230] @ lit '' (2)` '' @ [3649, 3621, 3657, 3623, 3648, 3604, 3636, 3609,
    3605, 3656, 3629, 3648, 3627, 3617, 3639, 3629, 3609, 3626, 3635, 3648, 3619, 3655, 3592] @ lit '') '' @ [183]
    @ lit '' '' @ [3648, 3586, 3637, 3618, 3609, 3621, 3591, 3651, 3609, 3650, 3611, 3619, 3648, 3592, 3585, 3605,
    3660, 3649, 3607, 3609] @ lit '' ('' @ [3650, 3615, 3621, 3648, 3604, 3629, 3619, 3660, 3595, 3656, 3629, 3609,
    3607, 3637, 3656, 3595, 3657, 3629, 3609, 3629, 3618, 3641, 3656, 3586, 3657, 3634, 3591, 3651, 3609, 3648, 3594,
    3656, 3609] @ lit '' `<proj>/.orches-shots/` '' @ [3651, 3594, 3657, 3652, 3604, 3657] @ lit '' '' @ [3649, 3605,
    3656] @ lit '' `~/.something` '' @ [3594, 3633, 3657, 3609, 3610, 3609, 3626, 3640, 3604, 3650, 3604, 3609]
    @ lit '' Permission denied) '' @ [183] @ lit '' '' @ [3607, 3634, 3591, 3607, 3637, 3656, 3604, 3637, 3585, 3623,
    3656, 3634] @ lit '': '' @ [3648, 3619, 3637, 3618, 3585] @ lit '' verb `render-check` '' @ [3586, 3629, 3591]
    @ lit '' engine '' @ [3595, 3638, 3656, 3591, 3592, 3633, 3604, 3585, 3634, 3619, 3648, 3619, 3639, 3656, 3629,
    3591, 3609, 3637, 3657, 3651, 3627, 3657, 3649, 3621, 3657, 3623, 3649, 3621, 3632] @ lit '' assert '' @ [3623,
    3656, 3634, 3652, 3615, 3621, 3660, 3648, 3585, 3636, 3604, 3592, 3619, 3636, 3591]"

definition pkill_before :: pystr where
  "pkill_before =
    lit ''`pkill -f ''"

definition pkill_after :: pystr where
  "pkill_after =
    lit ''` '' @ [3592, 3632] @ lit '' match **'' @ [3648, 3594, 3621, 3621, 3660, 3607, 3637, 3656, 3619, 3633,
    3609, 3588, 3635, 3626, 3633, 3656, 3591, 3609, 3637, 3657, 3648, 3629, 3591] @ lit ''** '' @ [3604, 3657, 3623,
    3618] @ lit '' (command line '' @ [3586, 3629, 3591, 3617, 3633, 3609, 3617, 3637, 3626, 3605, 3619, 3636, 3591,
    3609, 3633, 3657, 3609, 3629, 3618, 3641, 3656] @ lit '') '' @ [8658] @ lit '' '' @ [3590, 3656, 3634, 3588,
    3635, 3626, 3633, 3656, 3591, 3605, 3633, 3623, 3648, 3629, 3591] @ lit '' ('' @ [3648, 3588, 3618, 3652, 3604,
    3657] @ lit '' exit 144 '' @ [3592, 3619, 3636, 3591] @ lit '') '' @ [3649, 3621, 3657, 3623, 3648, 3595, 3636,
    3619, 3660, 3615, 3648, 3623, 3629, 3619, 3660, 3629, 3634, 3592, 3618, 3633, 3591, 3619, 3629, 3604] @ lit '' ''
    @ [183] @ lit '' '' @ [3649, 3585, 3657] @ lit '': '' @ [3651, 3626, 3656, 3623, 3591, 3648, 3621, 3655, 3610,
    3651, 3627, 3657] @ lit '' pattern match '' @ [3605, 3633, 3623, 3648, 3629, 3591, 3652, 3617, 3656, 3652, 3604,
    3657] @ lit '' '' @ [3648, 3594, 3656, 3609] @ lit '' `[n]ode src/index.js` '' @ [183] @ lit '' '' @ [3606, 3657,
    3634, 3648, 3611, 3655, 3609] @ lit '' preview '' @ [3607, 3637, 3656, 3648, 3611, 3636, 3604, 3604, 3657, 3623,
    3618] @ lit '' `.orches-preview.sh` '' @ [3651, 3627, 3657, 3619, 3633, 3609, 3626, 3588, 3619, 3636, 3611, 3605,
    3660, 3609, 3633, 3657, 3609, 3595, 3657, 3635] @ lit '' '' @ [3617, 3633, 3609, 3611, 3636, 3604, 3651, 3627,
    3657, 3607, 3633, 3657, 3591] @ lit '' process group''"

definition denial_text :: "denial \<Rightarrow> pystr" where
  "denial_text d = (case d of
      ScreenshotInTmp x \<Rightarrow> shot_before @ x @ shot_after
    | PkillMatchesSelf x \<Rightarrow> pkill_before @ x @ pkill_after)"

definition denial_json :: "denial \<Rightarrow> json" where
  "denial_json d = hook_output [(''hookEventName'', js ''PreToolUse''), (''permissionDecision'', js ''deny''),
     (''permissionDecisionReason'', JStr (denial_text d))]"

text \<open>
  Standard output is UTF-8 with strict errors: a text with a surrogate in it raises, which \<open>Inl ()\<close> stands for, and no
  whole object is printed. An exception that nothing catches ends the process with 1; \<open>attempt\<close> is the handler.
\<close>

fun json_utf8 :: "json \<Rightarrow> bool" where
  "json_utf8 (JStr s) = utf8_ok s"
| "json_utf8 (JArr xs) = list_all json_utf8 xs"
| "json_utf8 (JObj kvs) = list_all (\<lambda>(k, v). utf8_ok k \<and> json_utf8 v) kvs"
| "json_utf8 _ = True"

definition print_json :: "json \<Rightarrow> unit + process" where
  "print_json j = (if json_utf8 j then Inr (says j) else Inl ())"

definition silent :: process where "silent = (None, 0)"

definition attempt :: "process \<Rightarrow> unit + process \<Rightarrow> process" where
  "attempt handler body = (case body of Inl u \<Rightarrow> handler | Inr p \<Rightarrow> p)"

definition session_start_json :: "pystr \<Rightarrow> json" where
  "session_start_json t = hook_output [(''hookEventName'', js ''SessionStart''), (''additionalContext'', JStr t)]"

definition guard_process :: "unidb \<Rightarrow> (pystr \<Rightarrow> json option) \<Rightarrow> pystr option \<Rightarrow> pystr option \<Rightarrow> process" where
  "guard_process U parse here stdin =
     attempt silent
       (case guard_main U here (stdin_json parse stdin) of
          Inl u \<Rightarrow> Inl u
        | Inr None \<Rightarrow> Inr silent
        | Inr (Some d) \<Rightarrow> print_json (denial_json d))"

definition inject_process :: "unidb \<Rightarrow> rules_env \<Rightarrow> node \<Rightarrow> pystr option \<Rightarrow> process" where
  "inject_process U R fs stdin =
     attempt crashed
       (case inject_context U R fs (as_dict (read_stdin_json (re_parse R) stdin)) of
          Inl u \<Rightarrow> Inr silent
        | Inr None \<Rightarrow> Inr silent
        | Inr (Some t) \<Rightarrow> print_json (session_start_json t))"

definition inventory_process :: "hook_env \<Rightarrow> node \<Rightarrow> pystr option \<Rightarrow> process" where
  "inventory_process H fs stdin =
     (case hook_main H fs (Option.bind stdin (h_parse H)) of
        Inl u \<Rightarrow> crashed
      | Inr None \<Rightarrow> (None, 0)
      | Inr (Some input) \<Rightarrow>
          says (hook_output [(''hookEventName'', js ''PreToolUse''),
            (''permissionDecisionReason'', js ''skills-mcp: injected agent tool inventory''), (''updatedInput'', dict_json (h_key H) input)]))"

section \<open>Reading the reports\<close>

definition texts :: "json \<Rightarrow> char list \<Rightarrow> pystr set" where
  "texts j k = {t. JStr t \<in> set (as_list (field j k))}"

definition texts_in :: "json \<Rightarrow> char list \<Rightarrow> char list \<Rightarrow> pystr set" where
  "texts_in j k f = {t. \<exists>r\<in>set (as_list (field j k)). field r f = JStr t}"

text \<open>The skills a collector's report names, wherever it does.\<close>

definition reported :: "json \<Rightarrow> pystr set" where
  "reported j = texts j ''committed'' \<union> texts j ''skipped'' \<union> texts j ''updated''
     \<union> texts_in j ''renamed'' ''from'' \<union> texts_in j ''rejected'' ''name''"

lemma collect_out_fields:
  "field (collect_out shown online st p) ''committed'' = names_json (c_committed st)"
  "field (collect_out shown online st p) ''updated'' = names_json (c_updated st)"
  "field (collect_out shown online st p) ''skipped'' = names_json (c_skipped st)"
  "field (collect_out shown online st p) ''renamed'' = renamed_json (c_renamed st)"
  "field (collect_out shown online st p) ''commit'' = (case p_commit p of None \<Rightarrow> JNull | Some sha \<Rightarrow> JStr sha)"
  "field (collect_out shown online st p) ''pushed'' = (case p_pushed p of None \<Rightarrow> JNull | Some b \<Rightarrow> JBool b)"
  "field (collect_out shown online st p) ''error'' = (case p_error p of None \<Rightarrow> JNull | Some e \<Rightarrow> JStr (commit_error_text e))"
  "field (collect_out shown online st p) ''rejected'' =
     (if c_rejected st = [] then JNull else JArr (map (refusal_json shown) (c_rejected st)))"
  by (simp_all add: collect_out_def field_obj split: option.split)

lemma texts_names: "field j k = names_json ns \<Longrightarrow> texts j k = set ns"
  by (auto simp: texts_def names_json_def as_list_def)

lemma refusal_name: "field (refusal_json shown r) ''name'' = JStr (fst r)"
  by (cases r) (simp add: refusal_json_def field_obj split: refusal.split)

lemma reported_collect: "reported (collect_out shown online st p) = mentioned st"
proof -
  let ?j = "collect_out shown online st p"
  have "texts_in ?j ''renamed'' ''from'' = fst ` set (c_renamed st)"
    by (force simp: texts_in_def collect_out_fields renamed_json_def as_list_def field_obj)
  moreover have "texts_in ?j ''rejected'' ''name'' = fst ` set (c_rejected st)"
    by (auto simp: texts_in_def collect_out_fields as_list_def refusal_name)
  ultimately show ?thesis
    by (simp add: reported_def mentioned_def texts_names [OF collect_out_fields(1)] texts_names [OF collect_out_fields(2)]
        texts_names [OF collect_out_fields(3)] Un_ac)
qed

section \<open>Properties\<close>

text \<open>
  C18. The collector's printed report accounts for everything and claims nothing untrue. When the process prints
  one it exits with 0, and: every auto-skill of the source is named in it; a commit id is printed only if \<^verbatim>\<open>git add\<close> and
  \<^verbatim>\<open>git commit\<close> returned 0 and \<^verbatim>\<open>HEAD\<close> is that id and was not before; \<^verbatim>\<open>pushed: true\<close> only if
  a push was asked for and returned 0; and with an error neither is printed.
\<close>

theorem collect_report_honest:
  fixes G :: "'g git"
  assumes "collect_main shown G committer online push repo src fs g = (fs', g', (Some j, code))"
    and "makedirs True (repo @ [lit ''skills'']) fs = (fs1, Inr ())"
  shows "code = 0
    \<and> list_all (\<lambda>it. case it of Inl e \<Rightarrow> True | Inr (name, p, fm) \<Rightarrow>
         map_of fm (lit ''installer'') = Some INSTALLER \<longrightarrow> name \<in> reported j) (skill_dirs fs1 src)
    \<and> (\<exists>st. collect repo src fs = (fs', Inr st)
        \<and> (let added = git_add G g; made = git_commit G (commit_message st) committer (fst added)
           in (case field j ''commit'' of JStr sha \<Rightarrow> fst (snd added) = 0 \<and> fst (snd made) = 0
                  \<and> head_of (git_rev G (fst made)) = Some sha \<and> head_of (git_rev G g) \<noteq> Some sha | _ \<Rightarrow> True)
            \<and> (if field j ''pushed'' = JBool True
               then push \<and> fst (snd made) = 0 \<and> field j ''error'' = JNull
                 \<and> fst (snd (git_push G (if online then lit ''HEAD:auto-skill/batch'' else lit ''HEAD'') (fst made))) = 0
               else True)
            \<and> (if field j ''error'' = JNull then True else field j ''commit'' = JNull \<and> field j ''pushed'' \<noteq> JBool True)))"
proof -
  from assms(1) obtain st p where r: "collect repo src fs = (fs', Inr st)" "publish G committer online push st g = (g', p)"
      "j = collect_out shown online st p" "code = 0"
    by (auto simp: collect_main_def crashed_def says_def split: prod.splits sum.splits)
  have "list_all (\<lambda>it. case it of Inl e \<Rightarrow> True | Inr (name, p, fm) \<Rightarrow>
         map_of fm (lit ''installer'') = Some INSTALLER \<longrightarrow> name \<in> reported j) (skill_dirs fs1 src)"
    using collect_accounts_for_all [OF r(1) assms(2)] unfolding r(3) reported_collect
    by (auto simp: list_all_iff split: sum.split)
  moreover note publish_honest [OF r(2)]
  ultimately show ?thesis using r(1,4) unfolding r(3) collect_out_fields Let_def
    by (cases "p_commit p"; cases "p_pushed p"; cases "p_error p") auto
qed

theorem collect_report_honest_witness:
  "case collect_main path_text sample_git (lit ''bot'') False True [lit ''repo''] [lit ''src''] sample_catalog 6 of
     (fs', g', (Some j, code)) \<Rightarrow> code = 0 \<and> lit ''x'' \<in> reported j \<and> field j ''commit'' = JStr (lit ''7'')
       \<and> field j ''pushed'' = JBool True \<and> head_of (git_rev sample_git 7) = Some (lit ''7'')
   | _ \<Rightarrow> False"
proof -
  let ?run = "collect_main path_text sample_git (lit ''bot'') False True [lit ''repo''] [lit ''src''] sample_catalog 6"
  have "case ?run of (fs', g', (Some j, code)) \<Rightarrow> field j ''commit'' = JStr (lit ''7'') \<and> field j ''pushed'' = JBool True
     | _ \<Rightarrow> False" by code_simp
  then obtain fs' g' j code where r: "?run = (fs', g', (Some j, code))" "field j ''commit'' = JStr (lit ''7'')"
      "field j ''pushed'' = JBool True"
    by (auto split: prod.splits option.splits)
  have m: "makedirs True ([lit ''repo''] @ [lit ''skills'']) sample_catalog = (sample_catalog, Inr ())" by code_simp
  have i: "list_ex (\<lambda>x. case x of Inl e \<Rightarrow> False | Inr (n, p, fm) \<Rightarrow> n = lit ''x'' \<and> map_of fm (lit ''installer'') = Some INSTALLER)
      (skill_dirs sample_catalog [lit ''src''])" by code_simp
  then obtain it where it: "it \<in> set (skill_dirs sample_catalog [lit ''src''])"
      "case it of Inl e \<Rightarrow> False | Inr (n, p, fm) \<Rightarrow> n = lit ''x'' \<and> map_of fm (lit ''installer'') = Some INSTALLER"
    unfolding list_ex_iff by blast
  note c = collect_report_honest [OF r(1) m]
  have "case it of Inl e \<Rightarrow> True | Inr (n, p, fm) \<Rightarrow> map_of fm (lit ''installer'') = Some INSTALLER \<longrightarrow> n \<in> reported j"
    using conjunct1 [OF conjunct2 [OF c]] it(1) unfolding list_all_iff by blast
  with it(2) have "lit ''x'' \<in> reported j" by (cases it) auto
  moreover have "head_of (git_rev sample_git 7) = Some (lit ''7'')" by code_simp
  ultimately show ?thesis using conjunct1 [OF c] r(2,3) unfolding r(1) by simp
qed

text \<open>The sync's report likewise names every skill of the catalog, as synced or as rejected.\<close>

definition sync_named :: "sync_state \<Rightarrow> pystr set" where
  "sync_named st = set (s_synced st) \<union> fst ` set (s_rejected st)"

lemma sync_one_named: "sync_one dest item st fs = (fs', Inr st') \<Longrightarrow> sync_named st' = insert (fst item) (sync_named st)"
  by (cases item) (auto simp: sync_one_def sync_named_def Let_def bindio_def retio_def split: option.splits prod.splits sum.splits if_splits)

lemma sync_all_named:
  "sync_all dest its st fs = (fs', Inr st') \<Longrightarrow>
     sync_named st \<subseteq> sync_named st' \<and> list_all (\<lambda>it. case it of Inl e \<Rightarrow> False | Inr item \<Rightarrow> fst item \<in> sync_named st') its"
proof (induction dest its st fs arbitrary: fs' st' rule: sync_all.induct)
  case (3 dest item its st fs)
  then obtain fs1 st1 where s: "sync_one dest item st fs = (fs1, Inr st1)" "sync_all dest its st1 fs1 = (fs', Inr st')"
    by (auto simp: bindio_def split: prod.splits sum.splits)
  from sync_one_named [OF s(1)] "3.IH" [OF s(2)] show ?case by auto
qed simp_all

lemma sync_report_accounts:
  assumes "sync_main shown repo dest fs = (fs', (Some j, code))" "makedirs True dest fs = (fs1, Inr ())"
  shows "code = 0 \<and> list_all (\<lambda>it. case it of Inl e \<Rightarrow> False
     | Inr (name, p, fm) \<Rightarrow> name \<in> texts j ''synced'' \<union> texts_in j ''rejected'' ''name'')
     (sync_skill_dirs fs1 (repo @ [lit ''skills'']))"
proof -
  from assms(1) obtain st ar where r: "sync repo dest fs = (fs', Inr (st, ar))" "j = sync_out shown dest st ar" "code = 0"
    by (auto simp: sync_main_def crashed_def says_def split: prod.splits sum.splits)
  from r(1) assms(2) obtain fs2 st0 where s: "sync_all dest (sync_skill_dirs fs1 (repo @ [lit ''skills''])) st0 fs1 = (fs2, Inr st)"
    by (auto simp: sync_def archive_rest_def bindio_def retio_def split: prod.splits sum.splits option.splits)
  have "field (sync_refusal_json shown x) ''name'' = JStr (fst x)" for x
    by (cases x) (simp add: sync_refusal_json_def field_obj)
  then have "texts_in j ''rejected'' ''name'' = fst ` set (s_rejected st)"
    by (auto simp: texts_in_def r(2) sync_out_def field_obj as_list_def)
  moreover have "texts j ''synced'' = set (s_synced st)"
    by (rule texts_names) (simp add: r(2) sync_out_def field_obj)
  ultimately have n: "sync_named st = texts j ''synced'' \<union> texts_in j ''rejected'' ''name''"
    by (simp add: sync_named_def)
  from conjunct2 [OF sync_all_named [OF s]] show ?thesis unfolding n r(3)
    by (auto elim!: list.pred_mono_strong split: sum.splits)
qed

lemma json_utf8_hook:
  "json_utf8 (denial_json d) = utf8_ok (denial_text d)"
  "json_utf8 (session_start_json t) = utf8_ok t"
  by (simp_all add: denial_json_def session_start_json_def hook_output_def obj_def js_def)

text \<open>
  When a denial is due: the payload is an object, the last component of its normalised directory ends in
  \<^verbatim>\<open>-oracle\<close>, and the verdict rejects the command of its tool input. Whose directory gets rules: the last component of the
  real directory ends in \<^verbatim>\<open>-oracle\<close>, or is a role that does not begin with an underscore.
\<close>

definition denial_due :: "unidb \<Rightarrow> (pystr \<Rightarrow> json option) \<Rightarrow> pystr option \<Rightarrow> pystr option \<Rightarrow> denial \<Rightarrow> bool" where
  "denial_due U parse here stdin d \<longleftrightarrow>
     (\<exists>raw p cwd t cmd. stdin = Some raw \<and> py_strip raw \<noteq> [] \<and> parse raw = Some (JObj p)
        \<and> guard_cwd here p = Some cwd \<and> suffix (lit ''-oracle'') (norm_base cwd)
        \<and> jget p (lit ''tool_input'') = JObj t \<and> jget t (lit ''command'') = JStr cmd \<and> cmd \<noteq> [] \<and> verdict U cmd = Some d)"

definition rules_due :: "rules_env \<Rightarrow> node \<Rightarrow> pystr \<Rightarrow> bool" where
  "rules_due R fs base \<longleftrightarrow>
     suffix (lit ''-oracle'') base \<or> (base \<noteq> [] \<and> hd base \<noteq> 95 \<and> base \<in> fst ` set (load_roles R fs))"

lemma stdin_json_item:
  "stdin_json parse stdin = JObj p \<and> jget p k = JObj t \<longleftrightarrow>
     (\<exists>raw. stdin = Some raw \<and> py_strip raw \<noteq> [] \<and> parse raw = Some (JObj p)) \<and> jget p k = JObj t"
  by (cases "p = []") (auto simp: stdin_json_def jget_def split: option.splits if_splits)

lemma guard_denies_due: "guard_main U here (stdin_json parse stdin) = Inr (Some d) \<longleftrightarrow> denial_due U parse here stdin d"
proof -
  have "guard_main U here (stdin_json parse stdin) = Inr (Some d) \<longleftrightarrow>
     (\<exists>p t. (stdin_json parse stdin = JObj p \<and> jget p (lit ''tool_input'') = JObj t)
        \<and> (\<exists>cwd cmd. guard_cwd here p = Some cwd \<and> suffix (lit ''-oracle'') (norm_base cwd)
             \<and> jget t (lit ''command'') = JStr cmd \<and> cmd \<noteq> [] \<and> verdict U cmd = Some d))"
    unfolding guard_denies_iff by blast
  then show ?thesis unfolding stdin_json_item denial_due_def by blast
qed

lemma guard_prints:
  "snd (guard_process U parse here stdin) = 0"
  "fst (guard_process U parse here stdin) = Some j \<longleftrightarrow>
     (\<exists>d. denial_due U parse here stdin d \<and> utf8_ok (denial_text d) \<and> j = denial_json d)"
  unfolding guard_denies_due [symmetric]
  by (auto simp: guard_process_def attempt_def print_json_def silent_def says_def json_utf8_hook split: sum.splits option.splits)

lemma inject_prints:
  "case Option.bind (session_cwd R (as_dict (read_stdin_json (re_parse R) stdin))) (dir_base U R fs) of
     None \<Rightarrow> inject_process U R fs stdin = (None, 0)
   | Some base \<Rightarrow>
       if \<not> rules_due R fs base then inject_process U R fs stdin = (None, 0)
       else if utf8_ok base \<and> utf8_ok (re_dir_text R)
       then \<exists>t. inject_process U R fs stdin = (Some (session_start_json t), 0) \<and> rule_shown R fs (lit ''universal.md'') t
       else inject_process U R fs stdin = (None, 1)"
proof (cases "session_cwd R (as_dict (read_stdin_json (re_parse R) stdin))")
  case None
  then show ?thesis by (simp add: inject_process_def inject_context_def attempt_def silent_def)
next
  case (Some cwd)
  note due = rules_is_oracle_iff [of U R fs cwd "load_roles R fs", folded rules_due_def]
  show ?thesis
  proof (cases "rules_is_oracle U R fs cwd (load_roles R fs)")
    case True
    from build_context_oracle [OF True] obtain t where t: "build_context U R fs cwd = Inr (Some t)"
        "rule_shown R fs (lit ''universal.md'') t"
        "utf8_ok t \<longleftrightarrow> utf8_ok (oracle_name U R fs cwd) \<and> utf8_ok (re_dir_text R)" by blast
    from True obtain base where b: "dir_base U R fs cwd = Some base" "rules_due R fs base" unfolding due by blast
    have p: "inject_process U R fs stdin = (if utf8_ok t then (Some (session_start_json t), 0) else (None, 1))"
      by (simp add: inject_process_def inject_context_def Some t(1) attempt_def print_json_def json_utf8_hook says_def crashed_def)
    show ?thesis using b(2) t(2,3) by (auto simp: Some b(1) p oracle_name_utf8 [OF b(1)])
  next
    case False
    then have "inject_process U R fs stdin = (None, 0)"
      by (simp add: inject_process_def inject_context_def Some build_context_def attempt_def silent_def)
    with False show ?thesis by (cases "dir_base U R fs cwd") (simp_all add: Some due)
  qed
qed

text \<open>
  C32. When the hooks fail open, and when one does not. The shell guard exits with 0 whatever standard input holds, and
  prints exactly when a denial is due (and its reason, which quotes the command, can be written as UTF-8). The rule injector takes
  the directory from the payload, or for want of one from its environment. It prints exactly for an oracle, with the
  universal rules in the text, and exits with 0; except that for an oracle it exits with 1 and prints no
  whole object when the directory's last component or the path of the rules has a surrogate in it.
\<close>

theorem hooks_fail_open:
  "snd (guard_process U parse here stdin) = 0
   \<and> (\<forall>j. fst (guard_process U parse here stdin) = Some j \<longleftrightarrow>
        (\<exists>d. denial_due U parse here stdin d \<and> utf8_ok (denial_text d) \<and> j = denial_json d))
   \<and> (case Option.bind (session_cwd R (as_dict (read_stdin_json (re_parse R) stdin))) (dir_base U R fs) of
        None \<Rightarrow> inject_process U R fs stdin = (None, 0)
      | Some base \<Rightarrow>
          if \<not> rules_due R fs base then inject_process U R fs stdin = (None, 0)
          else if utf8_ok base \<and> utf8_ok (re_dir_text R)
          then \<exists>t. inject_process U R fs stdin = (Some (session_start_json t), 0) \<and> rule_shown R fs (lit ''universal.md'') t
          else inject_process U R fs stdin = (None, 1))"
  by (intro conjI allI guard_prints inject_prints)

section \<open>A hook that does not fail open\<close>

text \<open>The inventory hook ends with an exception for a payload that is JSON but no object.\<close>

lemma inventory_crashes:
  assumes "h_parse H raw = Some (JArr xs)"
  shows "inventory_process H fs (Some raw) = crashed"
  using assms by (simp add: inventory_process_def hook_main_def)

end
