(* ===== verification/Writer_Properties.thy ===== *)
theory Writer_Properties
  imports Writer_Store
begin

text \<open>
  The properties of \<^verbatim>\<open>auto-skill/scripts/auto_skill.py\<close>, each a few steps over the lemmas of
  \<open>Skill_Writer\<close> and \<open>Writer_Store\<close>, with sample runs of the model that meet their hypotheses.
\<close>

section \<open>Sample runs\<close>

definition sample_env :: env where
  "sample_env = \<lparr>env_home = [lit ''home''], env_dir = None, env_source = [], env_session = lit ''s1'',
     env_now = lit ''2026-01-01'', env_sha = (\<lambda>b. [104, 97 + length b mod 26]),
     env_threshold = Some 0, env_round = id\<rparr>"

definition sample_args :: args where
  "sample_args = \<lparr>a_name = lit ''My Skill'', a_desc = lit ''Use when testing'', a_body = lit ''Do it'',
     a_body_file = None, a_dir = Some [lit ''sk''], a_global = False, a_stage = False, a_force = False,
     a_trigger = lit ''manual'', a_source = lit ''me'', a_category = []\<rparr>"

definition sample_tree :: node where
  "sample_tree = Dir [(lit ''sk'', Dir [])]"

definition sample_after :: node where
  "sample_after = fst (cmd_create latin_db sample_env sample_args sample_tree)"

lemma sample_valid: "inputs_valid latin_db sample_env sample_args"
  by code_simp

lemma sample_env_ok: "env_ok sample_env"
proof -
  have "stamp_ok (env_sha sample_env b)" for b
  proof (rule kebab_stamp)
    have "length b mod 26 \<le> 25" by presburger
    then show "kebab_form (env_sha sample_env b)"
      by (simp add: sample_env_def kebab_form_def kebab_cp_def is_lodi_def is_lower_def contains_iff_sublist sublist_Cons_right)
  qed
  moreover have "stamp_ok (env_now sample_env)" "stamp_ok (take 8 (env_session sample_env))" by code_simp+
  ultimately show ?thesis by (simp add: env_ok_def)
qed

lemma sample_texts: "texts_ok sample_env sample_args"
  by code_simp

lemma sample_run:
  "(case cmd_create latin_db sample_env sample_args sample_tree of
      (fs, Inr r) \<Rightarrow> r_status r = Created | _ \<Rightarrow> False)"
  by code_simp

lemma sample_created:
  "\<exists>r. cmd_create latin_db sample_env sample_args sample_tree = (sample_after, Inr r) \<and> r_status r = Created"
  using sample_run by (auto simp: sample_after_def split: prod.splits sum.splits)

section \<open>The janitor's reader on a rendered file\<close>

lemma janitor_unquote_plain: "v = [] \<or> hd v \<notin> {quote, dquote} \<Longrightarrow> janitor_unquote v = v"
  by (auto simp: janitor_unquote_def)

lemma janitor_unquote_scalar:
  assumes "text_ok t" "quote \<notin> set t"
  shows "janitor_unquote (py_strip (yaml_scalar (Some t))) = t"
proof -
  have "flat_text (Some t) = t" using assms(1) by (simp add: text_ok_def flat_text_id)
  with assms(2) have "yaml_scalar (Some t) = [quote] @ t @ [quote]" by (simp add: yaml_scalar_def replace_cp_id)
  moreover have "py_strip ([quote] @ t @ [quote]) = [quote] @ t @ [quote]" by (rule quoted_strip)
  ultimately show ?thesis by (simp add: janitor_unquote_def)
qed

lemma kebab_no_quote: "kebab_form s \<Longrightarrow> quote \<notin> set s"
  by (rule kebab_formD(5))

lemma rendered_janitor:
  assumes "inputs_valid U E a" "env_ok E" "texts_ok E a" "quote \<notin> set (used_desc a @ used_source E a)"
  shows "janitor_frontmatter (univ_nl (rendered_for U E a body)) = fst (read_frontmatter (univ_nl (rendered_for U E a body)))"
proof -
  note t = texts_fields [OF assms(1,3)]
  let ?b = "body_text (used_name U a) (used_desc a) body"
  let ?f = "head_fields E (used_name U a) (used_desc a) (used_trigger U a) (used_source E a) (used_category U a) ?b"
  have clean: "list_all (\<lambda>kv. line_ok kv \<and> no_dashes kv) ?f" using assms(2) t by (intro head_fields_clean)
  then have l: "list_all line_ok ?f" by (simp add: list_all_iff)
  have kb: "kebab_form (used_trigger U a)" using assms(1) by (auto simp: inputs_valid_def intro: valid_trigger_kebab)
  have "univ_nl (rendered_for U E a body) = fm_block ?f (univ_nl (py_rstrip ?b @ [newline]))"
    unfolding rendered_for_def render_block Let_def by (rule univ_nl_block [OF l])
  then have "janitor_frontmatter (univ_nl (rendered_for U E a body))
      = map (\<lambda>(k, r). (k, janitor_unquote (py_strip r))) ?f"
    using janitor.read_block [OF l] by (simp add: head_fields_keys head_keys_distinct)
  also have "\<dots> = head_values E (used_name U a) (used_desc a) (used_trigger U a) (used_source E a) (used_category U a) ?b"
    using assms(2,4) t kebab_stamp [OF installer_kebab] kebab_no_quote [OF kb] kebab_no_quote [OF used_category_kebab [of U a]]
    by (simp add: head_fields_def head_values_def head_keys_def janitor_unquote_scalar env_ok_def stamp_ok_def bare_ok_def
        janitor_unquote_plain body_hash_def)
  finally show ?thesis by (simp add: rendered_read [OF assms(1-3)])
qed

section \<open>Lemmas on the commands\<close>

lemma created_shown:
  assumes "cmd_create U E a fs = (fs', Inr r)" "r_status r = Created" "\<not> a_force a"
    and "env_ok E" "texts_ok E a"
  shows "cmd_validate (skill_dir U E a @ [skill_md]) fs' = (True, [])
     \<and> (case cmd_list E (Some (target_dir E a)) False fs' of Inl e \<Rightarrow> True | Inr es \<Rightarrow> listed_as U E a \<in> set es)"
proof -
  from created_stat [OF assms(1-3)] obtain body where b: "inputs_valid U E a" "\<not> a_stage a"
      "isdir fs' (skill_dir U E a)"
      "stat fs' (skill_dir U E a @ [skill_md]) = Some (File (rendered_for U E a body))" by blast
  have "stat fs' (target_dir E a @ [used_name U a, skill_md]) = Some (File (rendered_for U E a body))"
    using b(2,4) by (simp add: skill_dir_def)
  note entry = rendered_listed [OF b(1) assms(4,5) this]
  from created_listing [OF b(3,1,2)] obtain es where d: "isdir fs' (target_dir E a)"
      "listing fs' (target_dir E a) = Some es" "used_name U a \<in> set es" by blast
  have "listed_as U E a \<in> set ls" if "collect_entries (list_entry fs' (target_dir E a)) es = Inr ls" for ls
    using collect_entries_mem [OF that d(3)] entry by auto
  then have "case cmd_list E (Some (target_dir E a)) False fs' of Inl e \<Rightarrow> True | Inr es \<Rightarrow> listed_as U E a \<in> set es"
    using d by (simp add: cmd_list_def split: sum.splits)
  moreover have "cmd_validate (skill_dir U E a @ [skill_md]) fs' = (True, [])"
    by (simp add: cmd_validate_def read_text_File [OF b(4)] rendered_valid [OF b(1) assms(4,5)])
  ultimately show ?thesis by blast
qed

lemma force_overwrites:
  assumes "stat fs p = Some (File t)"
  shows "stat (fst (open_write p u fs)) p = Some (File u)" "snd (open_write p u fs) = Inr ()"
proof -
  from assms obtain q where q: "resolve fs link_limit [] p = Some q" "tget fs q = Some (File t)"
    by (auto simp: stat_def split: option.splits)
  then have w: "open_write p u fs = (tput q (File u) fs, Inr ())" by (simp add: open_write_def write_with_def)
  have "q = [] \<or> dir_at fs (butlast q)"
    using q(2) by (cases q rule: rev_cases) (auto dest: dir_at_prefix)
  then have g: "tget (tput q (File u) fs) q = Some (File u)" by (rule tget_tput_self)
  have "same_links fs (tput q (File u) fs)" using same_links_write_with [of fs "\<lambda>_. u" p] w by (simp add: open_write_def)
  then have "resolve (tput q (File u) fs) link_limit [] p = Some q" using q(1) by (simp add: resolve_same_links)
  with g show "stat (fst (open_write p u fs)) p = Some (File u)" by (simp add: w stat_def)
  show "snd (open_write p u fs) = Inr ()" by (simp add: w)
qed

text \<open>Every run of \<open>m\<close> that returns reports one of the states \<open>S\<close>.\<close>

definition reports :: "status set \<Rightarrow> report io \<Rightarrow> bool" where
  "reports S m \<longleftrightarrow> (\<forall>fs r. snd (m fs) = Inr r \<longrightarrow> r_status r \<in> S)"

lemma reports_bind: "(\<And>x. reports S (f x)) \<Longrightarrow> reports S (bindio m f)"
  by (auto simp: reports_def bindio_def split: prod.splits sum.splits)

lemma reports_ret: "r_status r \<in> S \<Longrightarrow> reports S (retio r)"
  by (simp add: reports_def retio_def)

lemma accepted_status:
  assumes "inputs_valid U E a" "given_body a fs = Inr body"
  shows "case snd (cmd_create U E a fs) of Inl e \<Rightarrow> True
         | Inr r \<Rightarrow> r_status r \<in> {Created, Staged, ExistsIdentical, RefusedConflict}"
proof -
  let ?S = "{Created, Staged, ExistsIdentical, RefusedConflict}"
  have fin: "reports ?S (finish_io U E a (finish_report U E a rs s))" for rs s
    by (auto simp: finish_io_def finish_report_def intro!: reports_bind reports_ret)
  have rec: "reports ?S (reconcile (a_force a) n d t h (finish_io U E a (finish_report U E a rs s)))" for n d t h rs s
    unfolding reconcile_def by (auto intro!: reports_bind reports_ret fin simp: plain_report_def)
  have "reports ?S (store_at (a_force a) n d t h (finish_io U E a (finish_report U E a rs s)))" for n d t h rs s
    unfolding store_at_def excl_or_bind by (auto intro!: reports_bind fin rec)
  then show ?thesis unfolding cmd_create_valid [OF assms] write_skill_store reports_def by (auto split: sum.split)
qed

section \<open>Names and descriptions\<close>

text \<open>
  C35. Canonical names: \<^verbatim>\<open>_kebab\<close> gives a string of lower-case letters, digits and single inner dashes, is idempotent (for
  any Unicode table), and \<^verbatim>\<open>NAME_RE\<close> accepts its result exactly when that has 2 to 49 characters, so
  length is the only reason \<^verbatim>\<open>create\<close> has to refuse a name.
\<close>

theorem kebab_canonical:
  "kebab_form (kebab U s) \<and> kebab V (kebab U s) = kebab U s
   \<and> (re_match no_word NAME_RE (kebab U s) \<noteq> None \<longleftrightarrow> length (kebab U s) \<in> {2..49})"
  unfolding NAME_RE_def shape_iff [OF kebab_kebab_form]
  by (auto simp: kebab_kebab_form kebab_fix)

text \<open>
  \<^verbatim>\<open>_fit_desc\<close> never raises: a description whose collapsed form fits is given back collapsed, a
  longer one is cut to a prefix of it and an ellipsis, at most 200 characters in all, and the report
  carries the length it had. Either way the result is one line without surrounding space.
\<close>

theorem fit_desc_fits:
  "one_line (fst (fit_desc s)) \<and> py_strip (fst (fit_desc s)) = fst (fit_desc s)
   \<and> length (fst (fit_desc s)) \<le> MAX_DESC
   \<and> (case snd (fit_desc s) of
        None \<Rightarrow> fst (fit_desc s) = collapsed s
      | Some n \<Rightarrow> n = length (collapsed s) \<and> MAX_DESC < n
          \<and> (\<exists>p. fst (fit_desc s) = p @ [ellipsis] \<and> prefix p (collapsed s)))"
proof (cases s rule: fit_desc_cases)
  case short
  then show ?thesis using fit_desc_one_line [of s] fit_desc_trimmed [of s] by simp
next
  case (clipped cut)
  then show ?thesis using fit_desc_one_line [of s] fit_desc_trimmed [of s] by auto
qed

section \<open>What is rendered is read back\<close>

text \<open>
  C20. Round trip of a rendered file: read in text mode, the head gives back the nine fields with their
  values, and the rest is the body. The texts must have no three dashes in a row and the creator no
  line break; clock, session id and hash are plain words.
\<close>

theorem render_roundtrip:
  assumes "inputs_valid U E a" "env_ok E" "texts_ok E a"
  shows "read_frontmatter (univ_nl (rendered_for U E a body)) =
     (zip head_keys [used_name U a, used_desc a, INSTALLER, env_now E, take 8 (env_session E),
        used_trigger U a, used_source E a, used_category U a, hash_for U E a body],
      lstrip_by (\<lambda>c. c = newline) (univ_nl (py_rstrip (body_text (used_name U a) (used_desc a) body) @ [newline])))"
  unfolding rendered_read [OF assms] head_values_def hash_for_def by (rule refl)

theorem render_roundtrip_witness:
  "map_of (fst (read_frontmatter (univ_nl (rendered_for latin_db sample_env sample_args [])))) (lit ''name'')
     = Some (lit ''my-skill'')"
  unfolding render_roundtrip [OF sample_valid sample_env_ok sample_texts] by code_simp

text \<open>
  The janitor's own reader of the head agrees with the writer's on every rendered file whose
  description and creator have no single quote (the writer doubles quotes, the janitor does not undo it).
\<close>

theorem janitor_agrees:
  assumes "inputs_valid U E a" "env_ok E" "texts_ok E a" "quote \<notin> set (used_desc a @ used_source E a)"
  shows "janitor_frontmatter (univ_nl (rendered_for U E a body)) = fst (read_frontmatter (univ_nl (rendered_for U E a body)))"
  using rendered_janitor [OF assms] by simp

theorem janitor_agrees_witness:
  "janitor_frontmatter (univ_nl (rendered_for latin_db sample_env sample_args (lit ''Do it''))) =
     fst (read_frontmatter (univ_nl (rendered_for latin_db sample_env sample_args (lit ''Do it''))))"
  by (rule janitor_agrees [OF sample_valid sample_env_ok sample_texts]) code_simp

section \<open>What create does to the tree\<close>

text \<open>
  C2. No silent overwrite: whatever the inputs, the links in the tree and the outcome, without \<^verbatim>\<open>--force\<close>
  every file that existed before \<^verbatim>\<open>create\<close> exists afterwards at the same place with its content; the
  one file that may have grown, and only at its end, is the staging queue.
\<close>

theorem create_keeps_files:
  assumes "\<not> a_force a" "tget fs q = Some (File t)"
  shows "\<exists>u. tget (fst (cmd_create U E a fs)) q = Some (File (t @ u))
     \<and> (u = [] \<or> (a_stage a \<and> resolve fs link_limit [] (queue_path E a) = Some q))"
  using assms by (rule create_appends_only)

theorem create_keeps_files_witness:
  "\<exists>u. tget (fst (cmd_create latin_db sample_env (sample_args\<lparr>a_stage := True\<rparr>) (Dir [(lit ''f'', File (lit ''x''))]))) [lit ''f'']
     = Some (File (lit ''x'' @ u))"
  using create_keeps_files [of "sample_args\<lparr>a_stage := True\<rparr>" "Dir [(lit ''f'', File (lit ''x''))]" "[lit ''f'']" "lit ''x''"
      latin_db sample_env] by (auto simp: sample_args_def)

text \<open>
  C24. On a free name in an existing, link-free skills directory \<^verbatim>\<open>create\<close> succeeds and the tree it leaves
  is exactly the old one with a new directory holding one \<^verbatim>\<open>SKILL.md\<close>, the rendered text; the report
  says created, lists every repaired input and the near-duplicates found before the write.
\<close>

theorem create_on_free_name:
  assumes "inputs_valid U E a" "given_body a fs = Inr body" "\<not> a_stage a"
    and "dir_at fs (target_dir E a)" "plain_path (target_dir E a)" "tget fs (skill_dir U E a) = None"
  shows "cmd_create U E a fs =
     (tput (skill_dir U E a @ [skill_md]) (File (rendered_for U E a body)) (tput (skill_dir U E a) (Dir []) fs),
      Inr \<lparr>r_status = Created, r_name = used_name U a, r_path = Some (skill_dir U E a @ [skill_md]),
           r_repairs = repairs_of U a,
           r_dups = near_duplicates U E fs (target_dir E a) (used_name U a) (used_desc a)\<rparr>)"
  unfolding create_fresh [OF assms] finish_report_def using assms(3) by simp

theorem create_on_free_name_witness:
  "tget (fst (cmd_create latin_db sample_env sample_args sample_tree)) [lit ''sk'', lit ''my-skill'', skill_md]
     = Some (File (rendered_for latin_db sample_env sample_args (lit ''Do it'')))"
proof -
  have p: "given_body sample_args sample_tree = Inr (lit ''Do it'')" "\<not> a_stage sample_args"
    "dir_at sample_tree (target_dir sample_env sample_args)" "plain_path (target_dir sample_env sample_args)"
    "tget sample_tree (skill_dir latin_db sample_env sample_args) = None" by code_simp+
  show ?thesis unfolding create_on_free_name [OF sample_valid p] by code_simp
qed

text \<open>
  C22. Idempotence: after a skill was created, creating it again from the same inputs (at another time,
  in another session) changes nothing and reports it as identical.
\<close>

theorem create_twice:
  assumes "cmd_create U E a fs = (fs', Inr r)" "r_status r = Created" "\<not> a_force a"
    and "env_ok E" "texts_ok E a" "same_setting E E'"
  shows "cmd_create U E' a fs' =
     (fs', Inr (plain_report ExistsIdentical (used_name U a) (Some (skill_dir U E a @ [skill_md]))))"
  using create_again [OF assms] .

theorem create_twice_witness:
  "fst (cmd_create latin_db (sample_env\<lparr>env_now := lit ''2027''\<rparr>) sample_args sample_after) = sample_after"
proof -
  obtain r where r: "cmd_create latin_db sample_env sample_args sample_tree = (sample_after, Inr r)"
      "r_status r = Created" using sample_created by blast
  have "\<not> a_force sample_args" "same_setting sample_env (sample_env\<lparr>env_now := lit ''2027''\<rparr>)"
    by (simp_all add: sample_args_def same_setting_def)
  from create_twice [OF r this(1) sample_env_ok sample_texts this(2)] show ?thesis by simp
qed

text \<open>
  C25. A created skill passes \<^verbatim>\<open>validate\<close>, and \<^verbatim>\<open>list\<close> on that directory, when it can read every entry,
  shows it with the repaired name, fitted description, trigger, category, creator, time and path.
\<close>

theorem created_is_valid_and_listed:
  assumes "cmd_create U E a fs = (fs', Inr r)" "r_status r = Created" "\<not> a_force a"
    and "env_ok E" "texts_ok E a"
  shows "cmd_validate (skill_dir U E a @ [skill_md]) fs' = (True, [])
     \<and> (case cmd_list E (Some (target_dir E a)) False fs' of Inl e \<Rightarrow> True | Inr es \<Rightarrow> listed_as U E a \<in> set es)"
  using created_shown [OF assms] by simp

theorem created_is_valid_and_listed_witness:
  "cmd_validate [lit ''sk'', lit ''my-skill'', skill_md] sample_after = (True, [])"
proof -
  obtain r where r: "cmd_create latin_db sample_env sample_args sample_tree = (sample_after, Inr r)"
      "r_status r = Created" using sample_created by blast
  have "\<not> a_force sample_args" by (simp add: sample_args_def)
  from created_is_valid_and_listed [OF r this sample_env_ok sample_texts]
  have "cmd_validate (skill_dir latin_db sample_env sample_args @ [skill_md]) sample_after = (True, [])" by simp
  moreover have "skill_dir latin_db sample_env sample_args @ [skill_md] = [lit ''sk'', lit ''my-skill'', skill_md]" by code_simp
  ultimately show ?thesis by simp
qed

text \<open>Appending to the queue leaves the line at its end, and other files as they were.\<close>

lemma append_ends:
  assumes "open_append p u fs = (fs', Inr ())"
  shows "\<exists>old. stat fs' p = Some (File (old @ u))"
proof -
  from assms obtain q where q: "resolve fs link_limit [] p = Some q"
      "(\<exists>t. tget fs q = Some (File t) \<and> fs' = tput q (File (t @ u)) fs)
       \<or> (tget fs q = None \<and> dir_at fs (butlast q) \<and> fs' = tput q (File u) fs)"
    by (auto simp: open_append_def write_with_def split: option.splits node.splits if_splits)
  have "same_links fs fs'" using same_links_open_append [of fs p u] assms by simp
  then have r: "resolve fs' link_limit [] p = Some q" using q(1) by (simp add: resolve_same_links)
  have "q = [] \<or> dir_at fs (butlast q)" if "tget fs q = Some (File t)" for t
    using that by (cases q rule: rev_cases) (auto dest: dir_at_prefix)
  then have "\<exists>old. tget fs' q = Some (File (old @ u))"
    using q(2) tget_tput_self [of q fs] by (metis append_Nil)
  with r show ?thesis by (auto simp: stat_def)
qed

lemma append_file:
  assumes "stat fs p = Some (File t)"
  shows "\<exists>fs'. open_append p u fs = (fs', Inr ()) \<and> stat fs' p = Some (File (t @ u))"
proof -
  from assms obtain q where q: "resolve fs link_limit [] p = Some q" "tget fs q = Some (File t)"
    by (auto simp: stat_def split: option.splits)
  then have "open_append p u fs = open_write p (t @ u) fs" by (simp add: open_append_def open_write_def write_with_def)
  then show ?thesis using force_overwrites [OF assms, of "t @ u"] by (metis prod.collapse)
qed

text \<open>A file read through another place than the queue's is as before.\<close>

lemma append_elsewhere:
  assumes "stat fs p = Some (File t)" "resolve fs link_limit [] q \<noteq> resolve fs link_limit [] p"
  shows "stat (fst (open_append q u fs)) p = Some (File t)"
proof -
  from assms(1) obtain r where r: "resolve fs link_limit [] p = Some r" "tget fs r = Some (File t)"
    by (auto simp: stat_def split: option.splits)
  have "appends {x. resolve fs link_limit [] q = Some x} fs (fst (open_append q u fs))"
    by (rule appends_open_append) simp
  from appendsD(1) [OF this r(2)] assms(2) r(1) have "tget (fst (open_append q u fs)) r = Some (File t)" by auto
  moreover have "resolve (fst (open_append q u fs)) link_limit [] p = Some r"
    using r(1) same_links_open_append [of fs q u] by (simp add: resolve_same_links)
  ultimately show ?thesis by (simp add: stat_def)
qed

text \<open>Overwriting a file keeps every other regular file one.\<close>

lemma overwrite_keeps_files:
  assumes "stat fs p = Some (File t)" "isfile fs q"
  shows "isfile (fst (open_write p u fs)) q"
proof -
  from assms(1) obtain x where x: "resolve fs link_limit [] p = Some x" "tget fs x = Some (File t)"
    by (auto simp: stat_def split: option.splits)
  from assms(2) obtain y w where y: "resolve fs link_limit [] q = Some y" "tget fs y = Some (File w)"
    by (auto simp: isfile_def stat_def split: option.splits elim!: is_file.elims)
  have w: "fst (open_write p u fs) = tput x (File u) fs" using x by (simp add: open_write_def write_with_def)
  have r: "resolve (fst (open_write p u fs)) link_limit [] z = resolve fs link_limit [] z" for z
    using same_links_write_with [of fs "\<lambda>_. u" p] by (simp add: open_write_def resolve_same_links)
  have "\<exists>v. tget (fst (open_write p u fs)) y = Some (File v)"
  proof (cases "x = y")
    case True
    then show ?thesis using force_overwrites(1) [OF assms(1), of u] x(1) by (simp add: stat_def r)
  next
    case False
    then have "\<not> prefix x y" "\<not> prefix y x" using x(2) y(2) by (auto simp: prefix_def tget_append split: if_splits)
    then show ?thesis using y(2) by (simp add: w tget_tput_other)
  qed
  then show ?thesis using y(1) by (auto simp: isfile_def stat_def r)
qed

text \<open>
  C23. The name is taken: when the file exists, nothing is written unless its head lacks the hash of the
  new body and \<^verbatim>\<open>--force\<close> is given; the same hash is reported as identical (even under \<^verbatim>\<open>--force\<close>) and another
  one is refused with exit code 2. Under \<^verbatim>\<open>--force\<close> a file with another hash holds the new text afterwards, staged or not
  (followed by the queue's line where the queue is the same file by way of links); then the report says created or staged, with
  the repairs, and the exit code is 0. The one way to fail from there is \<^verbatim>\<open>--stage\<close> with a queue that is no regular
  file; otherwise the queue ends with the skill's line.
\<close>

theorem create_on_taken_name:
  assumes "inputs_valid U E a" "given_body a fs = Inr body" "isdir fs (skill_dir U E a)"
    and "stat fs (skill_dir U E a @ [skill_md]) = Some (File t)"
  shows "(let dest = skill_dir U E a @ [skill_md];
              known = map_of (fst (read_frontmatter (univ_nl t))) (lit ''content_hash'') = Some (hash_for U E a body);
              report = plain_report (if known then ExistsIdentical else RefusedConflict) (used_name U a) (Some dest);
              line = queue_line E (used_name U a) (used_trigger U a) (used_desc a);
              same = (resolve fs link_limit [] (queue_path E a) = resolve fs link_limit [] dest)
          in if known \<or> \<not> a_force a
             then cmd_create U E a fs = (fs, Inr report) \<and> exit_code (r_status report) = (if known then 0 else 2)
             else case cmd_create U E a fs of (fs', out) \<Rightarrow>
                    stat fs' dest = Some (File (rendered_for U E a body @ (if a_stage a \<and> same then line else [])))
                    \<and> (case out of
                          Inl e \<Rightarrow> a_stage a \<and> \<not> isfile fs (queue_path E a)
                        | Inr r \<Rightarrow>
                            r_status r = (if a_stage a then Staged else Created) \<and> exit_code (r_status r) = 0
                            \<and> r_name r = used_name U a \<and> r_path r = Some dest \<and> r_repairs r = repairs_of U a
                            \<and> (if a_stage a then \<exists>old. stat fs' (queue_path E a) = Some (File (old @ line)) else True)))"
proof -
  let ?dest = "skill_dir U E a @ [skill_md]" and ?new = "rendered_for U E a body" and ?q = "queue_path E a"
  let ?line = "queue_line E (used_name U a) (used_trigger U a) (used_desc a)"
  obtain fs2 where w: "open_write ?dest ?new fs = (fs2, Inr ())" "stat fs2 ?dest = Some (File ?new)"
    using force_overwrites [OF assms(4), of ?new] by (metis prod.collapse)
  have "same_links fs fs2" using same_links_write_with [of fs "\<lambda>_. ?new" ?dest] w(1) by (simp add: open_write_def)
  then have same: "resolve fs2 link_limit [] p = resolve fs link_limit [] p" for p by (rule resolve_same_links)
  obtain fs3 out where ap: "open_append ?q ?line fs2 = (fs3, out)" by (cases "open_append ?q ?line fs2")
  have kept: "isfile fs ?q \<Longrightarrow> out = Inr ()"
    using overwrite_keeps_files [OF assms(4), of ?q ?new] append_file [of fs2 ?q _ ?line] ap w(1)
    by (auto simp: isfile_def split: option.splits elim!: is_file.elims)
  have "stat fs3 ?dest = Some (File (?new @ (if resolve fs link_limit [] ?q = resolve fs link_limit [] ?dest then ?line else [])))"
  proof (cases "resolve fs link_limit [] ?q = resolve fs link_limit [] ?dest")
    case True
    then have q: "stat f ?q = stat f ?dest" if "same_links fs f" for f
      using that by (simp add: stat_def resolve_same_links)
    have "same_links fs fs3"
      using same_links_open_append [of fs2 ?q ?line] ap \<open>same_links fs fs2\<close> by (metis fst_conv same_links_trans)
    with q append_file [of fs2 ?q ?new ?line] w(2) ap \<open>same_links fs fs2\<close> True show ?thesis by auto
  next
    case False
    with append_elsewhere [OF w(2), of ?q ?line] same ap show ?thesis by simp
  qed
  moreover have "out = Inr () \<Longrightarrow> \<exists>old. stat fs3 ?q = Some (File (old @ ?line))"
    using append_ends ap by simp
  ultimately show ?thesis
    unfolding create_present [OF assms] Let_def using w ap kept
    by (cases out) (auto simp: exit_code_def plain_report_def finish_io_def finish_report_def bindio_def retio_def)
qed

theorem create_on_taken_name_witness:
  "cmd_create latin_db sample_env (sample_args\<lparr>a_body := lit ''Do that''\<rparr>) sample_after
     = (sample_after, Inr (plain_report RefusedConflict (lit ''my-skill'') (Some [lit ''sk'', lit ''my-skill'', skill_md])))"
proof -
  let ?a = "sample_args\<lparr>a_body := lit ''Do that''\<rparr>"
  let ?t = "rendered_for latin_db sample_env sample_args (lit ''Do it'')"
  have p: "inputs_valid latin_db sample_env ?a" "given_body ?a sample_after = Inr (lit ''Do that'')"
    "isdir sample_after (skill_dir latin_db sample_env ?a)"
    "stat sample_after (skill_dir latin_db sample_env ?a @ [skill_md]) = Some (File ?t)" by code_simp+
  have q: "map_of (fst (read_frontmatter (univ_nl ?t))) (lit ''content_hash'') \<noteq> Some (hash_for latin_db sample_env ?a (lit ''Do that''))"
    "\<not> a_force ?a" "used_name latin_db ?a = lit ''my-skill''"
    "skill_dir latin_db sample_env ?a @ [skill_md] = [lit ''sk'', lit ''my-skill'', skill_md]" by code_simp+
  from create_on_taken_name [OF p] q show ?thesis by (simp add: Let_def)
qed

text \<open>
  C34. Bad inputs are refused before anything is written: the outcome is an \<^verbatim>\<open>invalid\<close> report with the tree
  untouched when a repaired input is still unusable or the body file cannot be read, and in no other case.
\<close>

theorem create_refuses_invalid:
  "if inputs_valid U E a \<and> (\<exists>body. given_body a fs = Inr body)
   then (case snd (cmd_create U E a fs) of Inl e \<Rightarrow> True
         | Inr r \<Rightarrow> r_status r \<in> {Created, Staged, ExistsIdentical, RefusedConflict})
   else (\<exists>why. cmd_create U E a fs = (fs, Inr (plain_report (Invalid why) (used_name U a) None)))"
  using cmd_create_invalid [of U E a fs] accepted_status [of U E a fs] by auto

section \<open>The near-duplicate report\<close>

text \<open>A hit: another visible entry with a readable \<^verbatim>\<open>SKILL.md\<close> that shares enough words.\<close>

definition is_dup :: "unidb \<Rightarrow> env \<Rightarrow> node \<Rightarrow> path \<Rightarrow> rat \<Rightarrow> pystr list \<Rightarrow> pystr \<Rightarrow> pystr \<times> rat \<Rightarrow> bool" where
  "is_dup U E fs dir th mine name h \<longleftrightarrow>
     fst h \<noteq> name \<and> \<not> prefix (lit ''.'') (fst h)
     \<and> (case snd (read_text (dir @ [fst h, skill_md]) fs) of
          Inl e \<Rightarrow> False
        | Inr text \<Rightarrow>
            (let theirs = dup_tokens U (replace_cp 45 [32] (fst h) @ [32] @ listed_desc (take 2500 text))
             in th \<le> overlap mine theirs \<and> snd h = env_round E (overlap mine theirs)))"

lemma dup_hit_is_dup: "h \<in> set (dup_hit U E fs dir th mine name other) \<Longrightarrow> is_dup U E fs dir th mine name h"
  by (cases "snd (read_text (dir @ [other, skill_md]) fs)") (auto simp: dup_hit_def is_dup_def Let_def split: if_splits)

lemma best_three: "sorted (map (\<lambda>h. - snd h) (take 3 (sort_key (\<lambda>h. - snd h) hs)))" for hs :: "(pystr \<times> rat) list"
  by (simp add: take_map [symmetric] sorted_wrt_take)

text \<open>
  The near-duplicate report names at most three skills, best first; each is another visible entry of
  the directory with a readable \<^verbatim>\<open>SKILL.md\<close> whose name and description share at least the threshold's part of the
  smaller word set. A threshold of zero or less turns it off.
\<close>

theorem near_duplicates_sound:
  "length (near_duplicates U E fs dir name desc) \<le> 3
   \<and> sorted (map (\<lambda>h. - snd h) (near_duplicates U E fs dir name desc))
   \<and> (let th = (case env_threshold E of None \<Rightarrow> DUP_THRESHOLD | Some t \<Rightarrow> t);
          mine = dup_tokens U (replace_cp 45 [32] name @ [32] @ desc)
      in if th \<le> 0 then near_duplicates U E fs dir name desc = []
         else list_all (is_dup U E fs dir th mine name) (near_duplicates U E fs dir name desc))"
  unfolding near_duplicates_def Let_def
  by (auto simp: best_three list_all_iff split: option.splits dest!: in_set_takeD dup_hit_is_dup)

section \<open>Two inputs the head cannot carry\<close>

text \<open>
  Three dashes inside the description end the head for \<^verbatim>\<open>_read_frontmatter\<close>, which splits at any three
  dashes and not at a line of them: the hash is lost and the identical skill is refused as different.
\<close>

definition dashes_args :: args where
  "dashes_args = sample_args\<lparr>a_desc := lit ''Use a---b''\<rparr>"

definition outcome_is :: "status \<Rightarrow> node \<times> (oserror + report) \<Rightarrow> bool" where
  "outcome_is s res = (case snd res of Inl e \<Rightarrow> False | Inr r \<Rightarrow> r_status r = s)"

lemma dashes_lose_the_hash:
  "outcome_is Created (cmd_create latin_db sample_env dashes_args sample_tree)
   \<and> outcome_is RefusedConflict
       (cmd_create latin_db sample_env dashes_args (fst (cmd_create latin_db sample_env dashes_args sample_tree)))"
  by code_simp

text \<open>
  \<^verbatim>\<open>_yaml_scalar\<close> flattens LF and CR only: a U+2028 in the creator is a line break for the readers, and what
  follows it is a field of its own that replaces the name.
\<close>

definition injecting_args :: args where
  "injecting_args = sample_args\<lparr>a_source := lit ''x'' @ [8232] @ lit ''name: other''\<rparr>"

lemma creator_injects_field:
  "map_of (fst (read_frontmatter (univ_nl (rendered_for latin_db sample_env injecting_args (lit ''Do it''))))) (lit ''name'')
     = Some (lit ''other'' @ [quote])"
  by code_simp

end
