(* ===== verification/Writer_Output.thy ===== *)
theory Writer_Output
  imports Tool_Mains Writer_Properties
begin

text \<open>
  What \<^verbatim>\<open>auto-skill/scripts/auto_skill.py\<close> prints: one JSON line per command, with its messages, and the exit
  code. The text of an exception of the system, \<^verbatim>\<open>repr\<close> and the digits of a float are parameters, as is how a path
  is written.
\<close>

record writer_out =
  w_shown :: "path \<Rightarrow> pystr"
  w_repr :: "pystr \<Rightarrow> pystr"
  w_error :: "oserror \<Rightarrow> pystr"
  w_num :: "rat \<Rightarrow> pystr"

section \<open>create\<close>

definition reason_text :: "writer_out \<Rightarrow> unidb \<Rightarrow> args \<Rightarrow> reason \<Rightarrow> pystr" where
  "reason_text W U a r = (case r of
      BadName given \<Rightarrow> lit ''name must be kebab-case ^[a-z0-9][a-z0-9-]{1,48}$ (normalized '' @ w_repr W given
        @ lit '' to '' @ w_repr W (used_name U a) @ lit '', still invalid)''
    | NoDescription \<Rightarrow> lit ''description is required''
    | BadTrigger t \<Rightarrow> lit ''trigger must be one of ['' @ py_join (lit '', '') (map (w_repr W) (sort VALID_TRIGGERS))
        @ lit ''] (normalized '' @ w_repr W (py_strip (a_trigger a)) @ lit '' to '' @ w_repr W t @ lit '')''
    | NoSource \<Rightarrow> lit ''creator id required '' @ dash @ lit '' pass --source <oracle-id> or set AUTO_SKILL_SOURCE''
    | BadCategory \<Rightarrow> lit ''category must be a single kebab segment ^[a-z0-9][a-z0-9-]{0,32}$''
    | BodyUnreadable e \<Rightarrow> w_error W e)"

definition status_name :: "status \<Rightarrow> json" where
  "status_name s = (case s of Invalid r \<Rightarrow> js ''invalid'' | Staged \<Rightarrow> js ''staged'' | Created \<Rightarrow> js ''created''
     | ExistsIdentical \<Rightarrow> js ''exists-identical'' | RefusedConflict \<Rightarrow> js ''refused-conflict'')"

definition status_message :: "writer_out \<Rightarrow> unidb \<Rightarrow> args \<Rightarrow> status \<Rightarrow> pystr" where
  "status_message W U a s = (case s of
      Invalid r \<Rightarrow> reason_text W U a r
    | Staged \<Rightarrow> lit ''staged for review; approve to go live''
    | Created \<Rightarrow> lit ''skill written; live immediately''
    | ExistsIdentical \<Rightarrow> if a_stage a then lit ''identical skill already staged; nothing to do''
        else lit ''identical skill already present; nothing to do''
    | RefusedConflict \<Rightarrow> if a_stage a
        then lit ''a different skill with this name is already staged; use --force or choose another name (no silent overwrite)''
        else lit ''a different skill with this name exists; use --force or choose another name (no silent overwrite)'')"

definition repair_json :: "repair \<Rightarrow> json" where
  "repair_json r = (case r of
      Renamed given used \<Rightarrow> obj [(''given'', JStr given), (''used'', JStr used)]
    | Clipped n used \<Rightarrow> obj [(''given_chars'', jnat n), (''max'', jnat MAX_DESC), (''used'', JStr used)])"

text \<open>\<^verbatim>\<open>_note\<close>: what was repaired and what the skill overlaps with, in fields of their own and in the message.\<close>

definition note_message :: "writer_out \<Rightarrow> report \<Rightarrow> pystr" where
  "note_message W r =
     (if r_repairs r = [] then [] else lit ''; repaired input: '' @ py_join (lit '', '') (sort (map fst (r_repairs r))))
     @ (if r_dups r = [] then []
        else lit ''; overlaps existing '' @ py_join (lit '', '') (map (\<lambda>(n, x). n @ lit '' ('' @ w_num W x @ lit '')'') (r_dups r))
          @ lit '' '' @ dash @ lit '' consider editing that one instead'')"

definition note_fields :: "report \<Rightarrow> (char list \<times> json) list" where
  "note_fields r =
     (if r_repairs r = [] then [] else [(''repaired'', JObj (map (\<lambda>(k, x). (k, repair_json x)) (r_repairs r)))])
     @ (if r_dups r = [] then []
        else [(''near_duplicates'', JArr (map (\<lambda>(n, x). obj [(''name'', JStr n), (''overlap'', JNum x)]) (r_dups r)))])"

definition create_json :: "writer_out \<Rightarrow> unidb \<Rightarrow> args \<Rightarrow> report \<Rightarrow> json" where
  "create_json W U a r =
     obj ([(''status'', status_name (r_status r)), (''name'', JStr (r_name r))]
        @ (case r_status r of Invalid (BadName given) \<Rightarrow> [(''given_name'', JStr given)] | _ \<Rightarrow> [])
        @ (case r_path r of None \<Rightarrow> [] | Some p \<Rightarrow> [(''path'', JStr (w_shown W p))])
        @ (if r_status r = Created then [(''trigger'', JStr (used_trigger U a))] else [])
        @ [(''message'', JStr (status_message W U a (r_status r) @ note_message W r))] @ note_fields r)"

definition create_process :: "writer_out \<Rightarrow> unidb \<Rightarrow> env \<Rightarrow> args \<Rightarrow> node \<Rightarrow> node \<times> process" where
  "create_process W U E a fs =
     (case cmd_create U E a fs of
        (fs', Inl e) \<Rightarrow> (fs', crashed)
      | (fs', Inr r) \<Rightarrow> (fs', (Some (create_json W U a r), exit_code (r_status r))))"

section \<open>validate and list\<close>

definition validation_text :: "writer_out \<Rightarrow> validation_error \<Rightarrow> pystr" where
  "validation_text W e = (case e of
      NoFrontmatter \<Rightarrow> lit ''no YAML frontmatter block''
    | MissingName \<Rightarrow> lit ''frontmatter missing 'name'' @ [quote]
    | BadNameField n \<Rightarrow> lit ''name '' @ [quote] @ n @ [quote] @ lit '' is not valid kebab-case''
    | MissingDescription \<Rightarrow> lit ''frontmatter missing 'description'' @ [quote]
    | EmptyBody \<Rightarrow> lit ''empty skill body''
    | Unreadable e \<Rightarrow> w_error W e)"

definition validate_process :: "writer_out \<Rightarrow> path \<Rightarrow> node \<Rightarrow> process" where
  "validate_process W p fs =
     (let (valid, errs) = cmd_validate p fs
      in (Some (obj [(''valid'', JBool valid), (''path'', JStr (w_shown W p)),
            (''errors'', JArr (map (JStr \<circ> validation_text W) errs))]), if valid then 0 else 2))"

definition listed_json :: "writer_out \<Rightarrow> listed \<Rightarrow> json" where
  "listed_json W l = obj [(''name'', JStr (l_name l)), (''description'', JStr (l_desc l)), (''created_at'', JStr (l_created_at l)),
     (''trigger'', JStr (l_trigger l)), (''category'', JStr (l_category l)), (''created_by'', JStr (l_created_by l)),
     (''path'', JStr (w_shown W (l_path l)))]"

definition list_process :: "writer_out \<Rightarrow> env \<Rightarrow> path option \<Rightarrow> bool \<Rightarrow> node \<Rightarrow> process" where
  "list_process W E dir use_global fs =
     (case cmd_list E dir use_global fs of Inl e \<Rightarrow> crashed | Inr ls \<Rightarrow> says (JArr (map (listed_json W) ls)))"

section \<open>The exit code\<close>

lemma create_json_path: "r_path r = Some p \<Longrightarrow> field (create_json W U a r) ''path'' = JStr (w_shown W p)"
  by (cases "r_status r") (auto simp: create_json_def field_obj split: reason.split)

lemma read_text_stat: "read_text p fs = (fs', Inr t) \<Longrightarrow> fs' = fs \<and> (\<exists>u. stat fs p = Some (File u) \<and> t = univ_nl u)"
  by (auto simp: read_text_def split: option.splits node.splits)

text \<open>A run of the common tail that reports anything but a refusal leaves a file with the wanted hash.\<close>

lemma store_at_present:
  assumes run: "store_at force n (d @ [c]) t h (retio r0) fs = (fs', Inr r)" "r_status r \<noteq> RefusedConflict"
    and "plain_name c" "map_of (fst (read_frontmatter (univ_nl t))) (lit ''content_hash'') = Some h"
    and "r_path r0 = Some (d @ [c, skill_md])" "r_status r0 = Created"
  shows "r_path r = Some (d @ [c, skill_md]) \<and> r_status r \<in> {Created, ExistsIdentical}
    \<and> (\<exists>u. stat fs' (d @ [c, skill_md]) = Some (File u)
        \<and> map_of (fst (read_frontmatter (univ_nl u))) (lit ''content_hash'') = Some h)"
proof -
  let ?p = "d @ [c, skill_md]"
  from run(1) obtain fs1 where ex: "excl_or ?p t (retio r0) (reconcile force n ?p t h (retio r0)) fs1 = (fs', Inr r)"
    by (auto simp: store_at_def bindio_def split: prod.splits sum.splits)
  then consider (won) "open_excl ?p t fs1 = (fs', Inr ())" "r = r0"
    | (lost) fs2 where "reconcile force n ?p t h (retio r0) fs2 = (fs', Inr r)"
    by (auto simp: excl_or_def retio_def split: prod.splits sum.splits oserror.splits)
  then show ?thesis
  proof cases
    case won
    have "stat fs' ((d @ [c]) @ [skill_md]) = Some (File t)"
      using won(1) create_at_stat [of "d @ [c]" skill_md "File t" fs1 fs'] by (simp add: open_excl_def)
    with won(2) assms(4-6) show ?thesis by simp
  next
    case lost
    then obtain u where u: "stat fs2 ?p = Some (File u)"
        "(if map_of (fst (read_frontmatter (univ_nl u))) (lit ''content_hash'') = Some h
          then retio (plain_report ExistsIdentical n (Some ?p))
          else if \<not> force then retio (plain_report RefusedConflict n (Some ?p))
          else bindio (open_write ?p t) (\<lambda>_. retio r0)) fs2 = (fs', Inr r)"
      by (auto simp: reconcile_def bindio_def [of "read_text ?p"] dest!: read_text_stat split: prod.splits sum.splits)
    with run(2) force_overwrites [OF u(1), of t] assms(4-6) show ?thesis
      by (cases "open_write ?p t fs2") (auto simp: retio_def bindio_def plain_report_def split: if_splits)
  qed
qed

lemma refused_grows:
  assumes "cmd_create U E a fs = (fs', Inr r)" "r_status r = RefusedConflict" "\<not> a_stage a"
  shows "grows fs fs'"
proof -
  have "\<not> a_force a"
  proof (cases U E a fs rule: cmd_create_cases)
    case (invalid x)
    with assms show ?thesis by (auto simp: plain_report_def)
  next
    case (accepted body)
    with assms show ?thesis
      by (auto simp: write_skill_store store_at_def excl_or_def reconcile_def finish_io_def finish_report_def plain_report_def
          bindio_def retio_def split: prod.splits sum.splits oserror.splits if_splits)
  qed
  then show ?thesis using create_live_grows [of a fs U E] assms(1,3) by simp
qed

text \<open>
  C10. The exit code of \<^verbatim>\<open>create\<close> without \<^verbatim>\<open>--stage\<close> can be relied on, with and without \<^verbatim>\<open>--force\<close>, as long as the
  texts the head carries have no three dashes in a row (\<open>texts_ok\<close>, \<open>env_ok\<close>). If it is 0, the file the report names holds a
  skill whose head carries the hash of the content asked for. If it is 2, nothing that was there has changed: every file,
  link and directory is still there as it was. There is no third case when a report is printed.
\<close>

theorem create_exit_truth:
  assumes "create_process W U E a fs = (fs', (Some j, code))" "\<not> a_stage a" "env_ok E" "texts_ok E a"
  shows "if code = 0
     then \<exists>body u. given_body a fs = Inr body
        \<and> field j ''path'' = JStr (w_shown W (skill_dir U E a @ [skill_md]))
        \<and> stat fs' (skill_dir U E a @ [skill_md]) = Some (File u)
        \<and> map_of (fst (read_frontmatter (univ_nl u))) (lit ''content_hash'') = Some (hash_for U E a body)
     else code = 2 \<and> grows fs fs'"
proof -
  from assms(1) obtain r where r: "cmd_create U E a fs = (fs', Inr r)" "j = create_json W U a r" "code = exit_code (r_status r)"
    by (auto simp: create_process_def crashed_def split: prod.splits sum.splits)
  show ?thesis
  proof (cases U E a fs rule: cmd_create_cases)
    case (invalid x)
    with r show ?thesis by (auto simp: plain_report_def exit_code_def)
  next
    case (accepted body)
    have dir: "skill_dir U E a = target_dir E a @ [used_name U a]" using assms(2) by (simp add: skill_dir_def)
    let ?r0 = "finish_report U E a (repairs_of U a) fs"
    have run: "store_at (a_force a) (used_name U a) (target_dir E a @ [used_name U a]) (rendered_for U E a body)
        (hash_for U E a body) (retio ?r0) fs = (fs', Inr r)"
      using accepted(3) r(1) assms(2) by (simp add: write_skill_store finish_io_def dir)
    have h: "map_of (fst (read_frontmatter (univ_nl (rendered_for U E a body)))) (lit ''content_hash'') = Some (hash_for U E a body)"
      unfolding rendered_read [OF accepted(1) assms(3,4)] by (simp add: head_values_hash hash_for_def)
    show ?thesis
    proof (cases "r_status r = RefusedConflict")
      case True
      then show ?thesis using r(3) refused_grows [OF r(1) True assms(2)] by (simp add: exit_code_def)
    next
      case False
      have "r_path ?r0 = Some (target_dir E a @ [used_name U a, skill_md])" "r_status ?r0 = Created"
        using assms(2) by (simp_all add: finish_report_def dir)
      from store_at_present [OF run False inputs_valid_plain [OF accepted(1)] h this]
      obtain u where "r_path r = Some (skill_dir U E a @ [skill_md])" "exit_code (r_status r) = 0"
          "stat fs' (skill_dir U E a @ [skill_md]) = Some (File u)"
          "map_of (fst (read_frontmatter (univ_nl u))) (lit ''content_hash'') = Some (hash_for U E a body)"
        by (auto simp: dir exit_code_def)
      with accepted(2) r(2,3) show ?thesis by (simp add: create_json_path)
    qed
  qed
qed

definition sample_out :: writer_out where
  "sample_out = \<lparr>w_shown = path_text, w_repr = (\<lambda>s. [quote] @ s @ [quote]), w_error = (\<lambda>e. []), w_num = (\<lambda>x. [])\<rparr>"

theorem create_exit_truth_witness:
  "case create_process sample_out latin_db sample_env sample_args sample_tree of
     (fs', (Some j, code)) \<Rightarrow> code = 0 \<and> field j ''path'' = JStr (lit ''/sk/my-skill/SKILL.md'')
       \<and> (\<exists>u. stat fs' [lit ''sk'', lit ''my-skill'', skill_md] = Some (File u)
            \<and> map_of (fst (read_frontmatter (univ_nl u))) (lit ''content_hash'') = Some (hash_for latin_db sample_env sample_args (lit ''Do it'')))
   | _ \<Rightarrow> False"
proof -
  have "case create_process sample_out latin_db sample_env sample_args sample_tree of
     (fs', (Some j, code)) \<Rightarrow> code = 0 | _ \<Rightarrow> False" by code_simp
  then obtain fs' j where r: "create_process sample_out latin_db sample_env sample_args sample_tree = (fs', (Some j, 0))"
    by (auto split: prod.splits option.splits)
  have p: "skill_dir latin_db sample_env sample_args @ [skill_md] = [lit ''sk'', lit ''my-skill'', skill_md]"
    "given_body sample_args sample_tree = Inr (lit ''Do it'')" "\<not> a_stage sample_args"
    "w_shown sample_out [lit ''sk'', lit ''my-skill'', skill_md] = lit ''/sk/my-skill/SKILL.md''" by code_simp+
  from create_exit_truth [OF r p(3) sample_env_ok sample_texts] show ?thesis unfolding r by (auto simp: p)
qed

end
