(* ===== verification/Writer_Race.thy ===== *)
theory Writer_Race
  imports Writer_Store
begin

text \<open>
  Several \<^verbatim>\<open>auto_skill.py create\<close> runs for one name at the same time, without \<^verbatim>\<open>--force\<close>. The interleaving is
  at the level of the system calls on the one \<^verbatim>\<open>SKILL.md\<close>: the exclusive open, the write (a small text is
  one write, at the close), and the read of whoever lost the open.
\<close>

section \<open>The race\<close>

record worker =
  k_text :: pystr
  k_hash :: pystr

datatype stage = Begin | Holding | Contesting | Ended status

record race =
  r_file :: "pystr option"
  r_stages :: "stage list"

definition head_hash :: "pystr \<Rightarrow> pystr option" where
  "head_hash t = map_of (fst (read_frontmatter (univ_nl t))) (lit ''content_hash'')"

definition race_verdict :: "pystr \<Rightarrow> pystr \<Rightarrow> status" where
  "race_verdict h t = (if head_hash t = Some h then ExistsIdentical else RefusedConflict)"

definition advance :: "race \<Rightarrow> nat \<Rightarrow> stage \<Rightarrow> race" where
  "advance s i st = s\<lparr>r_stages := (r_stages s)[i := st]\<rparr>"

inductive race_step :: "worker list \<Rightarrow> race \<Rightarrow> race \<Rightarrow> bool" for ws where
  open_first: "i < length (r_stages s) \<Longrightarrow> r_stages s ! i = Begin \<Longrightarrow> r_file s = None \<Longrightarrow>
     race_step ws s (advance (s\<lparr>r_file := Some []\<rparr>) i Holding)"
| open_taken: "i < length (r_stages s) \<Longrightarrow> r_stages s ! i = Begin \<Longrightarrow> r_file s = Some t \<Longrightarrow>
     race_step ws s (advance s i Contesting)"
| fill: "i < length (r_stages s) \<Longrightarrow> r_stages s ! i = Holding \<Longrightarrow>
     race_step ws s (advance (s\<lparr>r_file := Some (k_text (ws ! i))\<rparr>) i (Ended Created))"
| judge: "i < length (r_stages s) \<Longrightarrow> r_stages s ! i = Contesting \<Longrightarrow> r_file s = Some t \<Longrightarrow>
     race_step ws s (advance s i (Ended (race_verdict (k_hash (ws ! i)) t)))"

definition race_start :: "worker list \<Rightarrow> race" where
  "race_start ws = \<lparr>r_file = None, r_stages = replicate (length ws) Begin\<rparr>"

inductive race_reach :: "worker list \<Rightarrow> race \<Rightarrow> bool" for ws where
  reach_start: "race_reach ws (race_start ws)"
| reach_step: "race_reach ws s \<Longrightarrow> race_step ws s s' \<Longrightarrow> race_reach ws s'"

text \<open>Inversion, one case for each system call.\<close>

lemma race_stepE [consumes 1, case_names open_first open_taken fill judge]:
  assumes "race_step ws s s'"
  obtains i where "i < length (r_stages s)" "r_stages s ! i = Begin" "r_file s = None"
      "s' = advance (s\<lparr>r_file := Some []\<rparr>) i Holding"
    | i t where "i < length (r_stages s)" "r_stages s ! i = Begin" "r_file s = Some t" "s' = advance s i Contesting"
    | i where "i < length (r_stages s)" "r_stages s ! i = Holding"
      "s' = advance (s\<lparr>r_file := Some (k_text (ws ! i))\<rparr>) i (Ended Created)"
    | i t where "i < length (r_stages s)" "r_stages s ! i = Contesting" "r_file s = Some t"
      "s' = advance s i (Ended (race_verdict (k_hash (ws ! i)) t))"
  using assms by (cases rule: race_step.cases) blast+

text \<open>The last call of a loser is what the sequential program does when the file is there.\<close>

lemma reconcile_verdict:
  "stat fs dest = Some (File t) \<Longrightarrow>
   reconcile False name dest rendered h done fs = (fs, Inr (plain_report (race_verdict h t) name (Some dest)))"
  by (simp add: reconcile_def bindio_def retio_def read_text_File race_verdict_def head_hash_def)

section \<open>Invariant\<close>

definition owns :: "stage \<Rightarrow> bool" where
  "owns st \<longleftrightarrow> st = Holding \<or> st = Ended Created"

definition lost :: "stage \<Rightarrow> bool" where
  "lost st \<longleftrightarrow> st \<in> {Begin, Contesting, Ended ExistsIdentical, Ended RefusedConflict}"

text \<open>Before the first open nobody has moved; afterwards one worker owns the file, which is empty until that
  worker has written its own text, and everybody else has lost or not begun.\<close>

definition race_inv :: "worker list \<Rightarrow> race \<Rightarrow> bool" where
  "race_inv ws s \<longleftrightarrow> length (r_stages s) = length ws \<and>
     ((r_file s = None \<and> (\<forall>j < length ws. r_stages s ! j = Begin))
      \<or> (\<exists>i < length ws. owns (r_stages s ! i)
          \<and> r_file s = Some (if r_stages s ! i = Holding then [] else k_text (ws ! i))
          \<and> (\<forall>j < length ws. j \<noteq> i \<longrightarrow> lost (r_stages s ! j))))"

lemma owns_not_lost: "owns st \<Longrightarrow> \<not> lost st"
  by (auto simp: owns_def lost_def)

lemma race_inv_step:
  assumes inv: "race_inv ws s" and st: "race_step ws s s'"
  shows "race_inv ws s'"
proof -
  have len: "length (r_stages s) = length ws" using inv by (simp add: race_inv_def)
  from st show ?thesis
  proof (cases rule: race_stepE)
    case (open_first i)
    with inv have "\<forall>j < length ws. r_stages s ! j = Begin" by (auto simp: race_inv_def)
    with open_first len show ?thesis
      by (auto simp: race_inv_def advance_def owns_def lost_def nth_list_update intro!: exI [of _ i])
  next
    case (open_taken i t)
    with inv obtain w where w: "w < length ws" "owns (r_stages s ! w)"
        "r_file s = Some (if r_stages s ! w = Holding then [] else k_text (ws ! w))"
        "\<forall>j < length ws. j \<noteq> w \<longrightarrow> lost (r_stages s ! j)" by (auto simp: race_inv_def)
    with open_taken have "i \<noteq> w" by (auto simp: owns_def)
    with w open_taken len show ?thesis
      by (auto simp: race_inv_def advance_def lost_def nth_list_update intro!: exI [of _ w])
  next
    case (fill i)
    with inv len have "owns (r_stages s ! i)" "i < length ws" by (auto simp: owns_def)
    with inv obtain w where w: "w < length ws" "\<forall>j < length ws. j \<noteq> w \<longrightarrow> lost (r_stages s ! j)"
      using fill by (auto simp: race_inv_def)
    with \<open>owns (r_stages s ! i)\<close> \<open>i < length ws\<close> have "i = w" using owns_not_lost by blast
    with w fill len show ?thesis
      by (auto simp: race_inv_def advance_def owns_def nth_list_update intro!: exI [of _ w])
  next
    case (judge i t)
    with inv obtain w where w: "w < length ws" "owns (r_stages s ! w)"
        "r_file s = Some (if r_stages s ! w = Holding then [] else k_text (ws ! w))"
        "\<forall>j < length ws. j \<noteq> w \<longrightarrow> lost (r_stages s ! j)" by (auto simp: race_inv_def)
    with judge have "i \<noteq> w" by (auto simp: owns_def)
    with w judge len show ?thesis
      by (auto simp: race_inv_def advance_def lost_def race_verdict_def nth_list_update intro!: exI [of _ w])
  qed
qed

lemma race_reach_inv: "race_reach ws s \<Longrightarrow> race_inv ws s"
proof (induction rule: race_reach.induct)
  case reach_start
  show ?case by (simp add: race_inv_def race_start_def)
next
  case (reach_step s s')
  then show ?case using race_inv_step by blast
qed

section \<open>Properties\<close>

definition ended :: "stage \<Rightarrow> bool" where
  "ended st \<longleftrightarrow> (case st of Ended _ \<Rightarrow> True | _ \<Rightarrow> False)"

text \<open>
  C5. First writer wins: when all of the concurrent runs have ended, in whatever interleaving, exactly one has
  created the skill, the file holds that one's text whole, and every other run was told that the skill
  exists or that it is refused. No run's success is ever lost.
\<close>

theorem race_single_winner:
  assumes "race_reach ws s" "list_all ended (r_stages s)" "ws \<noteq> []"
  shows "\<exists>i < length ws. r_stages s ! i = Ended Created \<and> r_file s = Some (k_text (ws ! i))
     \<and> (\<forall>j < length ws. j \<noteq> i \<longrightarrow> r_stages s ! j \<in> {Ended ExistsIdentical, Ended RefusedConflict})"
proof -
  have inv: "race_inv ws s" using assms(1) by (rule race_reach_inv)
  then have len: "length (r_stages s) = length ws" by (simp add: race_inv_def)
  have e: "ended (r_stages s ! j)" if "j < length ws" for j
    using assms(2) that len by (auto simp: list_all_length)
  have "r_file s \<noteq> None"
  proof
    assume "r_file s = None"
    with inv assms(3) have "r_stages s ! 0 = Begin" by (auto simp: race_inv_def)
    with e [of 0] assms(3) show False by (simp add: ended_def)
  qed
  with inv obtain i where i: "i < length ws" "owns (r_stages s ! i)"
      "r_file s = Some (if r_stages s ! i = Holding then [] else k_text (ws ! i))"
      "\<forall>j < length ws. j \<noteq> i \<longrightarrow> lost (r_stages s ! j)" by (auto simp: race_inv_def)
  from e [OF i(1)] i(2) have c: "r_stages s ! i = Ended Created" by (auto simp: owns_def ended_def)
  have "r_stages s ! j \<in> {Ended ExistsIdentical, Ended RefusedConflict}" if "j < length ws" "j \<noteq> i" for j
    using i(4) e [OF that(1)] that by (auto simp: lost_def ended_def)
  with i c show ?thesis by auto
qed

definition sample_workers :: "worker list" where
  "sample_workers = [\<lparr>k_text = lit ''a'', k_hash = lit ''h''\<rparr>, \<lparr>k_text = lit ''a'', k_hash = lit ''h''\<rparr>]"

text \<open>Two runs with the same content; the second looks between the first one's open and its write.\<close>

lemma sample_interleaving:
  "race_reach sample_workers \<lparr>r_file = Some (lit ''a''), r_stages = [Ended Created, Ended RefusedConflict]\<rparr>"
proof -
  let ?ws = sample_workers
  have 0: "race_reach ?ws \<lparr>r_file = None, r_stages = [Begin, Begin]\<rparr>"
    using race_reach.reach_start [of ?ws] by (simp add: race_start_def sample_workers_def)
  have 1: "race_reach ?ws \<lparr>r_file = Some [], r_stages = [Holding, Begin]\<rparr>"
    using race_reach.reach_step [OF 0 race_step.open_first [of 0]] by (simp add: advance_def)
  have 2: "race_reach ?ws \<lparr>r_file = Some [], r_stages = [Holding, Contesting]\<rparr>"
    using race_reach.reach_step [OF 1 race_step.open_taken [of 1]] by (simp add: advance_def)
  have "race_verdict (k_hash (?ws ! 1)) [] = RefusedConflict"
    by (simp add: race_verdict_def head_hash_def read_frontmatter_def)
  then have 3: "race_reach ?ws \<lparr>r_file = Some [], r_stages = [Holding, Ended RefusedConflict]\<rparr>"
    using race_reach.reach_step [OF 2 race_step.judge [of 1]] by (simp add: advance_def)
  have "k_text (?ws ! 0) = lit ''a''" by (simp add: sample_workers_def)
  then show ?thesis
    using race_reach.reach_step [OF 3 race_step.fill [of 0]] by (simp add: advance_def)
qed

theorem race_single_winner_witness:
  "\<exists>i < 2. [Ended Created, Ended RefusedConflict] ! i = Ended Created \<and> k_text (sample_workers ! i) = lit ''a''"
proof -
  have "list_all ended (r_stages \<lparr>r_file = Some (lit ''a''), r_stages = [Ended Created, Ended RefusedConflict]\<rparr>)" "sample_workers \<noteq> []"
    by (simp_all add: ended_def sample_workers_def)
  from race_single_winner [OF sample_interleaving this] have "\<exists>i < length sample_workers.
      [Ended Created, Ended RefusedConflict] ! i = Ended Created \<and> k_text (sample_workers ! i) = lit ''a''" by auto
  then show ?thesis by (simp add: sample_workers_def numeral_2_eq_2)
qed

text \<open>
  C33. The race always ends: from every reachable state in which a run has not ended some run can move, and
  every move brings the end nearer, so at most two moves per run are made.
\<close>

fun stage_rank :: "stage \<Rightarrow> nat" where
  "stage_rank Begin = 2"
| "stage_rank Holding = 1"
| "stage_rank Contesting = 1"
| "stage_rank (Ended _) = 0"

definition race_left :: "race \<Rightarrow> nat" where
  "race_left s = sum_list (map stage_rank (r_stages s))"

lemma sum_list_update_less:
  "i < length xs \<Longrightarrow> f y < f (xs ! i) \<Longrightarrow> sum_list (map f (xs[i := y])) < (sum_list (map f xs) :: nat)"
proof (induction xs arbitrary: i)
  case (Cons x xs)
  then show ?case by (cases i) auto
qed simp

theorem race_always_ends:
  assumes reach: "race_reach ws s"
  shows "(list_ex (\<lambda>st. \<not> ended st) (r_stages s) \<longrightarrow> (\<exists>s'. race_step ws s s'))
     \<and> (\<forall>s'. race_step ws s s' \<longrightarrow> race_left s' < race_left s) \<and> race_left s \<le> 2 * length ws"
proof (intro conjI impI allI)
  have inv: "race_inv ws s" using reach by (rule race_reach_inv)
  assume "list_ex (\<lambda>st. \<not> ended st) (r_stages s)"
  then obtain i where i: "i < length (r_stages s)" "\<not> ended (r_stages s ! i)" by (auto simp: list_ex_length)
  show "\<exists>s'. race_step ws s s'"
  proof (cases "r_stages s ! i")
    case Begin
    with i(1) show ?thesis by (cases "r_file s") (blast intro: race_step.intros)+
  next
    case Holding
    with i(1) show ?thesis by (blast intro: race_step.intros)
  next
    case Contesting
    with inv i(1) obtain t where "r_file s = Some t" by (auto simp: race_inv_def)
    with i(1) Contesting show ?thesis by (blast intro: race_step.intros)
  next
    case (Ended r)
    with i(2) show ?thesis by (simp add: ended_def)
  qed
next
  fix s'
  assume "race_step ws s s'"
  then show "race_left s' < race_left s"
    by (cases rule: race_stepE) (simp_all add: race_left_def advance_def sum_list_update_less)
next
  have inv: "race_inv ws s" using reach by (rule race_reach_inv)
  have "stage_rank x \<le> 2" for x by (cases x) auto
  then have "sum_list (map stage_rank xs) \<le> 2 * length xs" for xs
    by (induction xs) (auto intro: add_mono order_trans)
  with inv show "race_left s \<le> 2 * length ws" unfolding race_left_def race_inv_def by metis
qed

theorem race_always_ends_witness: "\<exists>s'. race_step sample_workers (race_start sample_workers) s'"
proof -
  have "list_ex (\<lambda>st. \<not> ended st) (r_stages (race_start sample_workers))"
    by (simp add: race_start_def sample_workers_def ended_def)
  with race_always_ends [OF race_reach.reach_start] show ?thesis by blast
qed

end
