(* ===== verification/Skill_Lifecycle.thy ===== *)
theory Skill_Lifecycle
  imports Mcp_Patching Sync_Properties
begin

text \<open>
  The life of a skill across the programs: written by \<^verbatim>\<open>auto_skill.py\<close>, found and stored by \<^verbatim>\<open>collect_commit.py\<close>,
  copied out by \<^verbatim>\<open>sync_skills.py\<close>, listed and shown by \<^verbatim>\<open>skills-mcp/server.py\<close>. The lemmas here connect the
  four models; the properties that span them are stated in \<open>Spec2Isabelle\<close>.
\<close>


section \<open>The server's reader on a rendered head\<close>

lemma splitlines_join:
  "list_all (\<lambda>l. one_line l \<and> l \<noteq> []) ls \<Longrightarrow> splitlines (py_join [newline] ls) = ls"
  by (induction "[newline]" ls rule: py_join.induct) (auto simp: splitlines_one splitlines_LF)

lemma split_head_block:
  assumes "list_all line_ok kvs"
  shows "split_head (fm_block kvs rest) = Inr (map fm_line kvs, normal_body rest)"
proof -
  have l: "list_all one_line (dashes # map fm_line kvs @ [dashes])"
    using assms line_one by (auto simp: list_all_iff)
  have "fm_block kvs rest = concat (map (\<lambda>l. l @ [newline]) (dashes # map fm_line kvs @ [dashes])) @ rest"
    by (simp add: fm_block_def comp_def)
  with splitlines_block [OF l, of rest]
  have "splitlines (fm_block kvs rest) = dashes # map fm_line kvs @ dashes # splitlines rest" by simp
  moreover have "list_all (\<lambda>l. py_strip l \<noteq> dashes) (map fm_line kvs)"
    using assms line_hd(4) by (auto simp: list_all_iff)
  ultimately show ?thesis
    by (simp add: split_head_def fence_at normal_body_def fm_block_def)
qed

definition head_block :: "pystr \<Rightarrow> pystr" where
  "head_block t = (case split_head t of Inl e \<Rightarrow> [] | Inr (ls, body) \<Rightarrow> py_join [newline] ls)"

lemma flat_fields_block:
  assumes "list_all line_ok kvs" "distinct (map fst kvs)"
  shows "flat_fields (head_block (fm_block kvs rest)) = map (\<lambda>(k, r). (k, unquote (py_strip r))) kvs"
proof -
  have "flat_step = fm_step" by (intro ext) (rule flat_step_same)
  moreover have "list_all (\<lambda>l. one_line l \<and> l \<noteq> []) (map fm_line kvs)"
    using assms(1) line_one line_hd(2) by (fastforce simp: list_all_iff)
  ultimately show ?thesis
    using foldl_fm_step [OF assms(1), of "[]"] map_update_fresh [OF assms(2), of "[]" "\<lambda>r. unquote (py_strip r)"]
    by (simp add: head_block_def split_head_block [OF assms(1)] flat_fields_def splitlines_join)
qed

interpretation server: frontmatter_reader "\<lambda>t. flat_fields (head_block t)" line_ok "\<lambda>r. unquote (py_strip r)"
  by unfold_locales (rule flat_fields_block)

text \<open>
  PyYAML, where it is installed, agrees with the flat reader on a file: it reads every field as the string
  that stands there. (It does not on bare words such as \<open>yes\<close> or \<open>010\<close>, which are no strings in YAML.)
\<close>

definition yaml_agrees :: "mcp_env \<Rightarrow> pystr \<Rightarrow> bool" where
  "yaml_agrees M t \<longleftrightarrow>
     (case m_yaml M of None \<Rightarrow> True
      | Some y \<Rightarrow> (case y (head_block t) of
            YMapping kvs \<Rightarrow> str_keys (m_repr M) kvs = map (\<lambda>(k, v). (k, JStr v)) (flat_fields (head_block t))
          | _ \<Rightarrow> False))"

lemma split_frontmatter_block:
  assumes "list_all line_ok kvs" "distinct (map fst kvs)" "yaml_agrees M (fm_block kvs rest)"
  shows "fst (split_frontmatter_ex (m_repr M) (m_yaml M) (fm_block kvs rest)) = map (\<lambda>(k, r). (k, JStr (unquote (py_strip r)))) kvs"
    "fst (snd (split_frontmatter_ex (m_repr M) (m_yaml M) (fm_block kvs rest))) = normal_body rest"
proof -
  have f: "flat_fields (py_join [newline] (map fm_line kvs)) = map (\<lambda>(k, r). (k, unquote (py_strip r))) kvs"
    using flat_fields_block [OF assms(1,2), of rest] by (simp add: head_block_def split_head_block [OF assms(1)])
  have b: "head_block (fm_block kvs rest) = py_join [newline] (map fm_line kvs)"
    by (simp add: head_block_def split_head_block [OF assms(1)])
  show "fst (split_frontmatter_ex (m_repr M) (m_yaml M) (fm_block kvs rest)) = map (\<lambda>(k, r). (k, JStr (unquote (py_strip r)))) kvs"
    using assms(3) unfolding yaml_agrees_def b f
    by (auto simp: split_frontmatter_ex_def split_head_block [OF assms(1)] f Let_def comp_def case_prod_unfold
        split: option.splits yaml_result.splits)
  show "fst (snd (split_frontmatter_ex (m_repr M) (m_yaml M) (fm_block kvs rest))) = normal_body rest"
    by (auto simp: split_frontmatter_ex_def split_head_block [OF assms(1)] Let_def split: option.splits yaml_result.splits)
qed

section \<open>A rendered skill in the catalog\<close>

definition head_of_args :: "unidb \<Rightarrow> env \<Rightarrow> args \<Rightarrow> pystr \<Rightarrow> pydict" where
  "head_of_args U E a body =
     head_fields E (used_name U a) (used_desc a) (used_trigger U a) (used_source E a) (used_category U a)
       (body_text (used_name U a) (used_desc a) body)"

lemma rendered_as_block:
  "rendered_for U E a body =
     fm_block (head_of_args U E a body) (py_rstrip (body_text (used_name U a) (used_desc a) body) @ [newline])"
  by (simp add: rendered_for_def render_block Let_def head_of_args_def)

lemma rendered_head:
  assumes "inputs_valid U E a" "env_ok E" "texts_ok E a"
  shows "list_all line_ok (head_of_args U E a body)" "distinct (map fst (head_of_args U E a body))"
    "map (\<lambda>(k, r). (k, unquote (py_strip r))) (head_of_args U E a body) =
       head_values E (used_name U a) (used_desc a) (used_trigger U a) (used_source E a) (used_category U a)
         (body_text (used_name U a) (used_desc a) body)"
proof -
  note t = texts_fields [OF assms(1,3)]
  have "list_all (\<lambda>kv. line_ok kv \<and> no_dashes kv) (head_of_args U E a body)"
    unfolding head_of_args_def using assms(2) t by (intro head_fields_clean)
  then show "list_all line_ok (head_of_args U E a body)" by (simp add: list_all_iff)
  show "distinct (map fst (head_of_args U E a body))"
    by (simp add: head_of_args_def head_fields_keys head_keys_distinct)
  show "map (\<lambda>(k, r). (k, unquote (py_strip r))) (head_of_args U E a body) =
       head_values E (used_name U a) (used_desc a) (used_trigger U a) (used_source E a) (used_category U a)
         (body_text (used_name U a) (used_desc a) body)"
    unfolding head_of_args_def by (rule head_fields_values [OF assms(2) t])
qed

lemma rendered_split:
  assumes "inputs_valid U E a" "env_ok E" "texts_ok E a" "yaml_agrees M (rendered_for U E a body)"
  shows "fst (split_frontmatter_ex (m_repr M) (m_yaml M) (rendered_for U E a body)) =
       map (\<lambda>(k, v). (k, JStr v)) (head_values E (used_name U a) (used_desc a) (used_trigger U a) (used_source E a)
         (used_category U a) (body_text (used_name U a) (used_desc a) body))"
    "fst (snd (split_frontmatter_ex (m_repr M) (m_yaml M) (rendered_for U E a body))) =
       normal_body (py_rstrip (body_text (used_name U a) (used_desc a) body) @ [newline])"
  using split_frontmatter_block [OF rendered_head(1,2) [OF assms(1-3)], of M] assms(4)
  unfolding rendered_as_block rendered_head(3) [OF assms(1-3), symmetric] by (auto simp: comp_def case_prod_unfold)

definition served_as :: "unidb \<Rightarrow> env \<Rightarrow> args \<Rightarrow> path \<Rightarrow> pystr \<Rightarrow> entry" where
  "served_as U E a R x =
     \<lparr>e_name = used_name U a, e_desc = Some (used_desc a),
      e_category = (if used_category U a = [] then None else Some (used_category U a)),
      e_trigger = (if used_trigger U a = [] then None else Some (used_trigger U a)), e_requires = [], e_dir = x, e_root = R, e_path = R @ [x, skill_md]\<rparr>"

lemma rendered_parsed:
  assumes "inputs_valid U E a" "env_ok E" "texts_ok E a" "yaml_agrees M (rendered_for U E a body)"
  shows "parse_text M R (R @ [x, skill_md]) (rendered_for U E a body) = Inr (served_as U E a R x)"
proof -
  note t = texts_fields [OF assms(1,3)]
  have n: "py_strip (used_name U a) = used_name U a" "used_name U a \<noteq> []"
    using assms(1) used_name_kebab [of U a] name_valid_iff [of U a] by (auto simp: inputs_valid_def kebab_formD)
  have d: "used_desc a \<noteq> []" using assms(1) by (simp add: inputs_valid_def)
  show ?thesis
    using n d t(2,3,5) rendered_split(1) [OF assms]
    by (simp add: parse_text_def Let_def skill_name_def opt_text_def platforms_def as_list_def as_dict_def jget_def jor_def
        mcp_str_def head_values_def head_keys_def served_as_def text_ok_def butlast_append)
qed

lemma child_entry:
  assumes "stat fs (R @ [x, skill_md]) = Some (File t)" "plain_name x"
  shows "isdir fs (R @ [x])" "\<exists>cs. stat fs R = Some (Dir cs) \<and> x \<in> fst ` set cs"
    "\<exists>q. lplace fs (R @ [x, skill_md]) = Some q \<and> tget fs q \<noteq> None"
proof -
  obtain d where d: "resolve fs link_limit [] (R @ [x]) = Some d" "dir_at fs d" "tget fs (d @ [skill_md]) \<noteq> None"
    using child_exists [of fs "R @ [x]" skill_md] assms(1) by auto
  then show 1: "isdir fs (R @ [x])" by (auto simp: isdir_def stat_def elim: dir_atE)
  then have "stat fs (R @ [x]) \<noteq> None" by (auto simp: isdir_def split: option.splits)
  from stat_parent [OF this assms(2)] show "\<exists>cs. stat fs R = Some (Dir cs) \<and> x \<in> fst ` set cs" by force
  show "\<exists>q. lplace fs (R @ [x, skill_md]) = Some q \<and> tget fs q \<noteq> None"
    using d by (simp add: lplace_def butlast_append)
qed

lemma rendered_iterated:
  assumes "stat fs (R @ [x, skill_md]) = Some (File t)" "plain_name x" "\<not> prefix (lit ''.'') x" "R \<in> set (m_roots M)"
  shows "(R, R @ [x, skill_md]) \<in> set (iter_skill_dirs M fs)"
proof -
  obtain cs where cs: "stat fs R = Some (Dir cs)" "x \<in> fst ` set cs" using child_entry(2) [OF assms(1,2)] by blast
  have "globbed fs R x" using child_entry [OF assms(1,2)] assms(3) by (auto simp: globbed_def)
  with cs have "R @ [x, skill_md] \<in> set (iter_root fs R)" by (auto simp: iter_root_def image_iff)
  with assms(4) show ?thesis by (auto simp: iter_skill_dirs_def)
qed

text \<open>No other place of the catalog gives the name.\<close>

definition unshadowed :: "mcp_env \<Rightarrow> node \<Rightarrow> pystr \<Rightarrow> path \<Rightarrow> bool" where
  "unshadowed M fs name md \<longleftrightarrow>
     list_all (\<lambda>rm. snd rm = md \<or> (case parse_spec M fs rm of Inl x \<Rightarrow> True | Inr e \<Rightarrow> e_name e \<noteq> name)) (iter_skill_dirs M fs)"

lemma first_wins_keeps:
  "e \<in> set es \<Longrightarrow> e_name e \<notin> set seen \<Longrightarrow> (\<And>e'. e' \<in> set es \<Longrightarrow> e_name e' = e_name e \<Longrightarrow> e' = e) \<Longrightarrow>
   e \<in> set (first_wins seen es)"
proof (induction seen es rule: first_wins.induct)
  case (2 seen e' es)
  show ?case
  proof (cases "e_name e' = e_name e")
    case True
    with 2(5) have "e' = e" by simp
    with 2(4) show ?thesis by simp
  next
    case False
    with 2 show ?thesis by auto
  qed
qed simp

lemma rendered_listed_by_server:
  assumes "stat fs (R @ [x, skill_md]) = Some (File (rendered_for U E a body))" "plain_name x" "\<not> prefix (lit ''.'') x"
    and "R \<in> set (m_roots M)" "utf8_len (rendered_for U E a body) \<le> MAX_FILE_BYTES"
    and "inputs_valid U E a" "env_ok E" "texts_ok E a" "yaml_agrees M (rendered_for U E a body)"
    and "coherent M fs c" "unshadowed M fs (used_name U a) (R @ [x, skill_md])"
  shows "served_as U E a R x \<in> set (load_catalog M fs c)"
proof -
  let ?md = "R @ [x, skill_md]" and ?e = "served_as U E a R x"
  have it: "(R, ?md) \<in> set (iter_skill_dirs M fs)" using assms(1-4) by (rule rendered_iterated)
  have ps: "parse_spec M fs (R, ?md) = Inr ?e"
    using assms(1,5) rendered_parsed [OF assms(6-9)]
    by (simp add: parse_spec_def parse_fresh_def read_text_capped_def open_node_def)
  have mem: "?e \<in> set (valid_entries M fs (iter_skill_dirs M fs))"
    using it ps by (force simp: valid_entries_def)
  have nm: "e_name ?e = used_name U a" by (simp add: served_as_def)
  have uniq: "e' = ?e" if e': "e' \<in> set (valid_entries M fs (iter_skill_dirs M fs))" "e_name e' = e_name ?e" for e'
  proof -
    from e'(1) obtain rm where rm: "rm \<in> set (iter_skill_dirs M fs)" "parse_spec M fs rm = Inr e'"
      by (auto simp: valid_entries_def split: sum.splits)
    with assms(11) e'(2) nm have "snd rm = ?md" by (fastforce simp: unshadowed_def list_all_iff)
    with iter_ok [OF rm(1)] iter_ok [OF it] have "rm = (R, ?md)" by (metis fst_conv snd_conv prod.collapse)
    with rm(2) ps show ?thesis by simp
  qed
  have "?e \<in> set (first_wins [] (valid_entries M fs (iter_skill_dirs M fs)))"
    by (rule first_wins_keeps [OF mem]) (use uniq in auto)
  then show ?thesis by (simp add: load_catalog_def build_index_spec(1) [OF assms(10)])
qed

lemma strip_append_space: "\<forall>c\<in>set w. is_space c \<Longrightarrow> py_strip (s @ w) = py_strip s"
proof (induction w rule: rev_induct)
  case (snoc c w)
  then show ?case using strip_snoc [of c "s @ w"] by simp
qed simp

lemma py_rstrip_facts: "py_strip (py_rstrip s) = py_strip s" "set (py_rstrip s) \<subseteq> set s"
proof -
  obtain w where w: "s = py_rstrip s @ w" "\<forall>c\<in>set w. is_space c"
    using rstrip_by_decomp [of s is_space] by (auto simp: py_rstrip_def)
  then show "py_strip (py_rstrip s) = py_strip s" using strip_append_space [of w "py_rstrip s"] by simp
  show "set (py_rstrip s) \<subseteq> set s" using w(1) by (metis set_append Un_upper1)
qed

lemma rendered_hash_agrees:
  assumes "lf_only (body_text (used_name U a) (used_desc a) body)" "m_sha M = env_sha E"
  shows "mcp_hash M (normal_body (py_rstrip (body_text (used_name U a) (used_desc a) body) @ [newline])) = hash_for U E a body"
proof -
  let ?b = "body_text (used_name U a) (used_desc a) body"
  have "ended (py_rstrip ?b @ [newline]) = py_rstrip ?b @ [newline]" by (simp add: ended_def suffix_def)
  moreover have "lf_only (py_rstrip ?b @ [newline])"
    using assms(1) py_rstrip_facts(2) [of ?b] by (auto simp: lf_only_def list_all_iff)
  moreover have "py_strip (py_rstrip ?b @ [newline]) = py_strip ?b"
    by (simp add: strip_snoc is_space_def py_rstrip_facts(1))
  ultimately have "py_strip (normal_body (py_rstrip ?b @ [newline])) = py_strip ?b"
    using strip_normal [of "py_rstrip ?b @ [newline]"] by simp
  then show ?thesis using assms(2) by (simp add: mcp_hash_def hash_for_def body_hash_def)
qed


section \<open>What the writer accepts, the catalog accepts\<close>

lemma kebab_segment:
  assumes "kebab_form s" "s \<noteq> []" "length s \<le> 64"
  shows "bad_segment s = None"
proof -
  have "\<forall>c\<in>set s. kebab_cp c" "hd s \<noteq> 45" using assms(1,2) by (auto simp: kebab_form_def list_all_iff)
  then have "seg_first (hd s)" "list_all seg_cp s"
    using assms(2) by (auto simp: list_all_iff seg_cp_def seg_first_def kebab_cp_def)
  with assms show ?thesis unfolding bad_segment_None by blast
qed

lemma writer_segments:
  assumes "inputs_valid U E a"
  shows "bad_segment (used_name U a) = None" "\<not> prefix (lit ''.'') (used_name U a)"
  using assms used_name_kebab [of U a] name_valid_iff [of U a]
  by (auto simp: inputs_valid_def intro: kebab_segment dest: kebab_not_hidden)

definition stored_category :: "unidb \<Rightarrow> args \<Rightarrow> pystr" where
  "stored_category U a = (if used_category U a = [] then lit ''uncategorized'' else used_category U a)"

lemma writer_category:
  assumes "inputs_valid U E a"
  shows "bad_segment (stored_category U a) = None" "\<not> prefix (lit ''.'') (stored_category U a)"
proof -
  have k: "kebab_form (stored_category U a)"
    using used_category_kebab [of U a] by (simp add: stored_category_def) code_simp
  have "stored_category U a \<noteq> []" "length (stored_category U a) \<le> 64"
    using assms category_valid_iff [of U a] by (auto simp: stored_category_def inputs_valid_def)
  with k show "bad_segment (stored_category U a) = None" by (intro kebab_segment)
  show "\<not> prefix (lit ''.'') (stored_category U a)" by (rule kebab_not_hidden [OF k])
qed

section \<open>Found by the walk\<close>

lemma walk_here: "skill_file \<in> fst ` set cs \<Longrightarrow> \<not> isdir fs (p @ [skill_file]) \<Longrightarrow> p \<in> set (walk fs p (Dir cs))"
  by auto

lemma walk_down:
  "(x, c) \<in> set cs \<Longrightarrow> \<not> prefix (lit ''.'') x \<Longrightarrow> q \<in> set (walk fs (p @ [x]) c) \<Longrightarrow> q \<in> set (walk fs p (Dir cs))"
  unfolding walk.simps set_append set_concat set_map
  by (intro UnI2 UN_I [of "walk fs (p @ [x]) c"] image_eqI [of _ _ "(x, c)"]) simp_all

lemma walk_child:
  assumes "tget fs (p @ [x]) = Some c" "\<not> prefix (lit ''.'') x" "q \<in> set (walk fs (p @ [x]) c)"
  shows "\<exists>cs. tget fs p = Some (Dir cs) \<and> q \<in> set (walk fs p (Dir cs))"
proof -
  obtain cs where cs: "tget fs p = Some (Dir cs)"
    using dir_at_prefix [OF assms(1)] by (auto elim: dir_atE)
  with assms(1) have "(x, c) \<in> set cs" by (auto simp: tget_append split: option.splits dest: map_of_SomeD)
  with cs assms(2,3) show ?thesis using walk_down by blast
qed

lemma dir_has_skill:
  assumes "tget fs p = Some (Dir cs)" "tget fs (p @ [skill_file]) = Some (File t)" "plain_path p"
  shows "p \<in> set (walk fs p (Dir cs))" "stat fs (p @ [skill_file]) = Some (File t)"
proof -
  have d: "dir_at fs p" using assms(1) by (simp add: dir_at_def)
  have "resolve fs link_limit [] (p @ [skill_file]) = Some (p @ [skill_file])"
    using assms(2) skill_md_plain by (intro resolve_child [OF d assms(3)]) (auto simp: skill_md_def)
  then show s: "stat fs (p @ [skill_file]) = Some (File t)" using assms(2) by (simp add: stat_def)
  have "skill_file \<in> fst ` set cs"
    using assms(1,2) by (auto simp: tget_append image_iff split: option.splits) (force dest: map_of_SomeD)
  with s show "p \<in> set (walk fs p (Dir cs))" by (intro walk_here) (simp_all add: isdir_def)
qed

lemma stat_dir: "tget fs p = Some (Dir cs) \<Longrightarrow> plain_path p \<Longrightarrow> stat fs p = Some (Dir cs)"
  by (simp add: stat_def realpath_dir dir_at_def)

lemma skill_dirs_walked:
  assumes "tget fs r = Some (Dir cs)" "plain_path r" "p \<in> set (walk fs r (Dir cs))" "skill_item fs p = [item]"
  shows "item \<in> set (skill_dirs fs r)"
proof -
  have "item \<in> set (skill_item fs p)" using assms(4) by simp
  with assms(3) show ?thesis
    unfolding skill_dirs_def stat_dir [OF assms(1,2)] option.case node.case set_concat set_map by blast
qed

section \<open>Stored by the collector\<close>

lemma makedirs_grandchild:
  assumes "dir_at fs D" "plain_path D" "plain_name c" "plain_name d" "tget fs (D @ [c]) = None"
  shows "makedirs ok (D @ [c, d]) fs = (tput (D @ [c, d]) (Dir []) (tput (D @ [c]) (Dir []) fs), Inr ())"
proof -
  let ?s = "tput (D @ [c]) (Dir []) fs"
  have np: "\<not> path_exists fs (D @ [c])"
    using assms(1-3,5) by (auto simp: path_exists_def stat_def resolve_child split: option.splits)
  have up: "makedirs_rev ok (c # rev D) fs = (?s, Inr ())"
    using makedirs_child [OF assms(1,2,3,5), of ok] by (simp add: makedirs_def)
  have self: "tget ?s ((D @ [c]) @ q) = tget (Dir []) q" for q using assms(1) by (intro tget_tput_same) simp
  have dc: "dir_at ?s (D @ [c])" using self [of "[]"] by (simp add: dir_at_def)
  have nd: "tget ?s (D @ [c, d]) = None" using self [of "[d]"] by simp
  have "mkdir ((D @ [c]) @ [d]) ?s = (tput (D @ [c, d]) (Dir []) ?s, Inr ())"
    using dc nd assms(2,3) by (subst mkdir_def) (simp add: create_at_def lplace_child del: append_assoc; simp)
  then show ?thesis
    using np up by (simp add: makedirs_def bindio_def swallow_exists_def mkdir_ok_def)
qed

lemma outside_below: "\<not> prefix R q \<Longrightarrow> \<not> prefix q R \<Longrightarrow> tget (tput (R @ y) m s) q = tget s q"
  by (rule tget_tput_other) (meson prefix_order.trans prefixI prefix_same_cases append_prefixD)+

lemma copytree_below:
  assumes R: "dir_at fs R" "plain_path R" and n: "plain_name c" "plain_name x"
    and cat: "tget fs (R @ [c]) = None \<or> dir_at fs (R @ [c])" and fresh: "tget fs (R @ [c, x]) = None"
    and src: "tget fs src = Some (Dir cs)" "plain_path src" "\<not> links_in (Dir cs)"
  shows "\<exists>t. copytree src (R @ [c, x]) fs = (t, Inr ()) \<and> tget t (R @ [c, x]) = Some (Dir cs)
     \<and> (\<forall>q. \<not> prefix R q \<longrightarrow> \<not> prefix q R \<longrightarrow> tget t q = tget fs q)"
proof -
  obtain s where s: "makedirs False (R @ [c, x]) fs = (s, Inr ())" "dir_at s (R @ [c])"
      "\<forall>q. \<not> prefix R q \<longrightarrow> \<not> prefix q R \<longrightarrow> tget s q = tget fs q"
  proof (cases "tget fs (R @ [c]) = None")
    case True
    have "dir_at (tput (R @ [c]) (Dir []) fs) (R @ [c])"
      using R(1) tget_tput_self [of "R @ [c]" fs "Dir []"] by (simp add: dir_at_def)
    then have "dir_at (tput (R @ [c, x]) (Dir []) (tput (R @ [c]) (Dir []) fs)) (R @ [c])"
      by (rule dir_at_tput_above [rotated]) (simp add: strict_prefix_def)
    with makedirs_grandchild [OF R n True] show ?thesis by (rule that) (simp add: outside_below)
  next
    case False
    with cat have dc: "dir_at fs (R @ [c])" by simp
    then have "dir_at (tput (R @ [c, x]) (Dir []) fs) (R @ [c])"
      by (rule dir_at_tput_above [rotated]) (simp add: strict_prefix_def)
    moreover have "makedirs False (R @ [c, x]) fs = (tput (R @ [c, x]) (Dir []) fs, Inr ())"
      using makedirs_child [OF dc, of x] R(2) n fresh by simp
    ultimately show ?thesis using that by (simp add: outside_below)
  qed
  have "lplace s (R @ [c, x]) = Some (R @ [c, x])"
    using lplace_child [OF s(2), of x] R(2) n(1) by simp
  then have "copytree src (R @ [c, x]) fs = (tput (R @ [c, x]) (Dir cs) s, Inr ())"
    using deref_id(2) [of cs] src(3) s(1) by (simp add: copytree_def stat_dir [OF src(1,2)] bindio_def)
  moreover have "tget (tput (R @ [c, x]) (Dir cs) s) (R @ [c, x]) = Some (Dir cs)"
    using s(2) by (intro tget_tput_self) (simp add: butlast_append)
  ultimately show ?thesis using s(3) by (simp add: outside_below)
qed


lemma dir_link_free: "dir_at fs p \<Longrightarrow> link_free fs p"
  unfolding link_free_def by (metis dir_at_def dir_at_mono is_dir.simps(3) option.simps(5))

lemma free_place:
  assumes "dir_at fs R" "plain_path R" "plain_name c" "plain_name x" "R \<noteq> []"
    and "tget fs (R @ [c]) = None \<or> dir_at fs (R @ [c])" "tget fs (R @ [c, x]) = None"
  shows "\<not> path_exists fs (R @ [c, x])" "inside fs R (R @ [c, x])"
proof -
  have "link_free fs (R @ [c])"
    using assms(1,6) dir_link_free [of fs R] dir_link_free [of fs "R @ [c]"] by (auto simp: link_free_snoc)
  then have "link_free fs ((R @ [c]) @ [x])" using assms(7) by (subst link_free_snoc) simp
  then have r: "resolve fs link_limit [] (R @ [c, x]) = Some (R @ [c, x])" using assms(2-4) by (intro resolve_free) auto
  with assms(7) show "\<not> path_exists fs (R @ [c, x])" by (simp add: path_exists_def stat_def)
  have "realpath fs R = R" using assms(1,2) by (simp add: realpath_def realpath_dir)
  moreover have "realpath fs (R @ [c, x]) = R @ [c, x]" using r by (simp add: realpath_def)
  ultimately show "inside fs R (R @ [c, x])" using assms(5) by (simp add: inside_def Let_def)
qed

lemma collect_fresh:
  assumes R: "dir_at fs R" "plain_path R" "R \<noteq> []"
    and cat: "category_of fm = cat" "bad_segment cat = None"
    and name: "bad_segment name = None" "map_of (c_existing st) name = None" "map_of fm (lit ''installer'') = Some INSTALLER"
    and free: "tget fs (R @ [cat]) = None \<or> dir_at fs (R @ [cat])" "tget fs (R @ [cat, name]) = None"
    and src: "tget fs src = Some (Dir cs)" "plain_path src" "\<not> links_in (Dir cs)"
  shows "\<exists>t st'. collect_skill R (name, src, fm) st fs = (t, Inr st') \<and> tget t (R @ [cat, name]) = Some (Dir cs)
     \<and> c_committed st' = (if name \<in> set (c_updated st) then c_committed st else c_committed st @ [name])
     \<and> c_rejected st' = c_rejected st
     \<and> (\<forall>q. \<not> prefix R q \<longrightarrow> \<not> prefix q R \<longrightarrow> tget t q = tget fs q)"
proof -
  have p: "plain_name cat" "plain_name name" using cat(2) name(1) bad_segment_plain by blast+
  from copytree_below [OF R(1,2) p free src] obtain t where
    t: "copytree src (R @ [cat, name]) fs = (t, Inr ())" "tget t (R @ [cat, name]) = Some (Dir cs)"
      "\<forall>q. \<not> prefix R q \<longrightarrow> \<not> prefix q R \<longrightarrow> tget t q = tget fs q" by blast
  have "place_skill name name src (R @ [cat, name]) fs = (t, Inr ())"
    using free_place(1) [OF R(1,2) p R(3) free] t(1)
    by (simp add: place_skill_def clear_dest_def fix_name_def bindio_def retio_def)
  then have "collect_skill R (name, src, fm) st fs =
      (t, Inr (st\<lparr>c_existing := AList.update name (dget fm (lit ''content_hash'') [], R @ [cat, name], identity fm) (c_existing st),
        c_committed := (if name \<in> set (c_updated st) then c_committed st else c_committed st @ [name])\<rparr>))"
    using cat name free_place(2) [OF R(1,2) p R(3) free]
    by (simp add: collect_skill_def Let_def store_skill_def bindio_def retio_def)
  with t(2,3) show ?thesis by simp
qed

section \<open>The life of a skill\<close>

lemma rendered_item:
  assumes "stat fs (p @ [skill_file]) = Some (File (rendered_for U E a body))"
    and "inputs_valid U E a" "env_ok E" "texts_ok E a"
  shows "\<exists>fm. skill_item fs p = [Inr (used_name U a, p, fm)] \<and> map_of fm (lit ''installer'') = Some INSTALLER
     \<and> category_of fm = stored_category U a"
proof -
  have n: "used_name U a \<noteq> []" using assms(2) name_valid_iff [of U a] by (auto simp: inputs_valid_def)
  show ?thesis
    using n by (auto simp: skill_item_def read_text_File [OF assms(1)] fm_of_read rendered_read [OF assms(2-4)] Let_def
        dget_def head_values_def head_keys_def category_of_def stored_category_def)
qed

lemma created_node:
  assumes "cmd_create U E a fs = (fs', Inr r)" "r_status r = Created" "\<not> a_force a"
    and "plain_path (skill_dir U E a)" "tget fs' (skill_dir U E a) = Some (Dir cs)" "\<not> links_in (Dir cs)"
  obtains body where "inputs_valid U E a" "skill_dir U E a = target_dir E a @ [used_name U a]"
    "tget (Dir cs) [skill_file] = Some (File (rendered_for U E a body))"
proof -
  from created_stat [OF assms(1-3)] obtain body where b: "inputs_valid U E a" "\<not> a_stage a"
      "stat fs' (skill_dir U E a @ [skill_md]) = Some (File (rendered_for U E a body))" by blast
  have "tget fs' (skill_dir U E a @ [skill_md]) = tget (Dir cs) [skill_md]" using assms(5) by (simp add: tget_append)
  moreover have "tget (Dir cs) [skill_md] \<noteq> Some (Link l)" for l
    using assms(6) by (auto simp: list_ex_iff split: option.splits dest!: map_of_SomeD)
  ultimately have "resolve fs' link_limit [] (skill_dir U E a @ [skill_md]) = Some (skill_dir U E a @ [skill_md])"
    using assms(4,5) by (intro resolve_child) (auto simp: dir_at_def)
  with b(3) have "tget (Dir cs) [skill_file] = Some (File (rendered_for U E a body))"
    using assms(5) by (simp add: stat_def tget_append skill_md_def)
  with b(1,2) show thesis by (intro that) (simp_all add: skill_dir_def)
qed

text \<open>The writer's directory and the one in the catalog, each found by the walk above it.\<close>

lemma found_by_walk:
  assumes "tget fs (r @ q) = Some (Dir cs)" "plain_path (r @ q)" "list_all (\<lambda>x. \<not> prefix (lit ''.'') x) q"
    and "tget fs ((r @ q) @ [skill_file]) = Some (File t)" "skill_item fs (r @ q) = [item]"
  shows "item \<in> set (skill_dirs fs r)"
proof -
  have here: "r @ q \<in> set (walk fs (r @ q) (Dir cs))" by (rule dir_has_skill(1) [OF assms(1,4,2)])
  have "\<exists>ds. tget fs r' = Some (Dir ds) \<and> r @ q \<in> set (walk fs r' (Dir ds))" if "r @ q = r' @ q'" "list_all (\<lambda>x. \<not> prefix (lit ''.'') x) q'" for r' q'
    using that
  proof (induction q' arbitrary: r')
    case Nil
    with assms(1) here show ?case by (auto simp del: walk.simps)
  next
    case (Cons x q')
    then obtain ds where "tget fs (r' @ [x]) = Some (Dir ds)" "r @ q \<in> set (walk fs (r' @ [x]) (Dir ds))"
      using Cons.IH [of "r' @ [x]"] by (auto simp del: walk.simps)
    with Cons.prems(2) walk_child [of fs r' x "Dir ds" "r @ q"] show ?case by (auto simp del: walk.simps)
  qed
  from this [OF refl assms(3)] obtain ds where "tget fs r = Some (Dir ds)" "r @ q \<in> set (walk fs r (Dir ds))" by blast
  then show ?thesis using assms(2,5) by (intro skill_dirs_walked) auto
qed

text \<open>Collected: the walk finds what the writer made, the collector takes it, and the catalog's walk finds it there.\<close>

lemma created_collected:
  assumes create: "cmd_create U E a fs = (fs', Inr r)" "r_status r = Created" "\<not> a_force a" "env_ok E" "texts_ok E a"
    and home: "plain_path (skill_dir U E a)" "tget fs' (skill_dir U E a) = Some (Dir cs)" "\<not> links_in (Dir cs)"
    and repo: "dir_at fs' R" "plain_path R" "R \<noteq> []" "map_of (c_existing st) (used_name U a) = None"
      "tget fs' (R @ [stored_category U a]) = None \<or> dir_at fs' (R @ [stored_category U a])"
      "tget fs' (R @ [stored_category U a, used_name U a]) = None"
  obtains fm t st' where "Inr (used_name U a, skill_dir U E a, fm) \<in> set (skill_dirs fs' (target_dir E a))"
    "collect_skill R (used_name U a, skill_dir U E a, fm) st fs' = (t, Inr st')"
    "used_name U a \<in> set (c_committed st' @ c_updated st)" "c_rejected st' = c_rejected st"
    "Inr (used_name U a, R @ [stored_category U a, used_name U a], fm) \<in> set (sync_skill_dirs t R)"
    "tget t (R @ [stored_category U a, used_name U a]) = Some (Dir cs)"
    "\<forall>q. \<not> prefix R q \<longrightarrow> \<not> prefix q R \<longrightarrow> tget t q = tget fs' q"
proof -
  let ?n = "used_name U a" and ?c = "stored_category U a"
  obtain body where b: "inputs_valid U E a" "skill_dir U E a = target_dir E a @ [?n]"
      "tget (Dir cs) [skill_file] = Some (File (rendered_for U E a body))"
    by (rule created_node [OF create(1-3) home])
  note seg = writer_segments [OF b(1)] writer_category [OF b(1)]
  have pn: "plain_name ?n" "plain_name ?c" using seg(1,3) bad_segment_plain by blast+
  have src: "tget fs' (skill_dir U E a @ [skill_file]) = Some (File (rendered_for U E a body))"
    using home(2) b(3) by (simp add: tget_append)
  from rendered_item [OF dir_has_skill(2) [OF home(2) src home(1)] b(1) create(4,5)] obtain fm where
    fm: "skill_item fs' (skill_dir U E a) = [Inr (?n, skill_dir U E a, fm)]"
      "map_of fm (lit ''installer'') = Some INSTALLER" "category_of fm = ?c" by blast
  have found: "Inr (?n, skill_dir U E a, fm) \<in> set (skill_dirs fs' (target_dir E a))"
    using found_by_walk [of fs' "target_dir E a" "[?n]" cs] home(1,2) src fm(1) seg(2) unfolding b(2) by simp
  from collect_fresh [OF repo(1-3) fm(3) seg(3,1) repo(4) fm(2) repo(5,6) home(2,1,3)] obtain t st' where
    t: "collect_skill R (?n, skill_dir U E a, fm) st fs' = (t, Inr st')" "tget t (R @ [?c, ?n]) = Some (Dir cs)"
      "c_committed st' = (if ?n \<in> set (c_updated st) then c_committed st else c_committed st @ [?n])"
      "c_rejected st' = c_rejected st" "\<forall>q. \<not> prefix R q \<longrightarrow> \<not> prefix q R \<longrightarrow> tget t q = tget fs' q" by blast
  let ?s = "R @ [?c, ?n]"
  have ps: "plain_path ?s" using repo(2) pn by simp
  have ts: "tget t (?s @ [skill_file]) = Some (File (rendered_for U E a body))"
    using t(2) b(3) tget_append [of t ?s "[skill_file]"] by simp
  from rendered_item [OF dir_has_skill(2) [OF t(2) ts ps] b(1) create(4,5)] obtain fm' where
    fm': "skill_item t ?s = [Inr (?n, ?s, fm')]" by blast
  have "fm' = fm"
    using fm(1) fm' dir_has_skill(2) [OF t(2) ts ps] dir_has_skill(2) [OF home(2) src home(1)]
    by (simp add: skill_item_def read_text_File Let_def split: if_splits)
  with fm' ts t(2) ps seg(2,4) have found2: "Inr (?n, ?s, fm) \<in> set (sync_skill_dirs t R)"
    unfolding sync_copies by (intro found_by_walk [of t R "[?c, ?n]" cs]) auto
  show thesis by (rule that [OF found t(1) _ t(4) found2 t(2,5)]) (simp add: t(3))
qed

text \<open>Synced: what the catalog holds under a good name is copied to a destination elsewhere.\<close>

lemma stored_synced:
  assumes dest: "plain_path dest" "dir_at t dest" "dest \<noteq> []" "\<not> prefix R dest" "\<not> prefix dest R"
      "tget t (dest @ [n]) = None \<or> (\<exists>ds. tget t (dest @ [n]) = Some (Dir ds))"
    and src: "bad_segment n = None" "tget t (R @ [c, n]) = Some (Dir cs)" "plain_path (R @ [c, n])" "\<not> links_in (Dir cs)"
  obtains fs' where "sync_one dest (n, R @ [c, n], fm) ss t =
      (fs', Inr (ss\<lparr>s_names := s_names ss @ [n], s_synced := s_synced ss @ [n]\<rparr>))"
    "tget fs' (dest @ [n]) = Some (Dir cs)"
proof -
  have disj: "\<not> prefix (dest @ [n]) (R @ [c, n])" "\<not> prefix (R @ [c, n]) (dest @ [n])"
    using dest(4,5) by (metis append_prefixD prefix_same_cases prefixI prefix_snoc)+
  have "resolve t link_limit [] (dest @ [n]) = Some (dest @ [n])"
    using dest(1,2,6) bad_segment_plain [OF src(1)] by (intro resolve_child) auto
  then have "sync_why t dest n = None"
    using src(1) dest(1-3) by (simp add: sync_why_def sync_copies inside_def Let_def realpath_def realpath_dir)
  from sync_one_copies [OF dest(1,2) this, where src = "R @ [c, n]" and cs = cs and fm = fm and st = ss] dest(6) src disj
  show thesis by (auto intro: that)
qed

lemma created_served:
  assumes create: "cmd_create U E a fs = (fs', Inr r)" "r_status r = Created" "\<not> a_force a" "env_ok E" "texts_ok E a"
    and roots: "target_dir E a \<in> set (m_roots M)" "coherent M fs' c" "registered_mcp_servers M fs' = Inr reg"
    and md: "stat fs' (skill_dir U E a @ [skill_md]) = Some (File t)" "utf8_len t \<le> MAX_FILE_BYTES" "yaml_agrees M t"
    and name: "unshadowed M fs' (used_name U a) (skill_dir U E a @ [skill_md])"
  shows "served_as U E a (target_dir E a) (used_name U a) \<in> set (load_catalog M fs' c)
    \<and> (\<exists>j body. snd (tool_skill_view M [(lit ''name'', JStr (used_name U a))] \<lparr>v_fs = fs', v_cache = c\<rparr>) = Inr (JObj j)
        \<and> given_body a fs = Inr body
        \<and> jget j (lit ''content'') = JStr (normal_body (py_rstrip (body_text (used_name U a) (used_desc a) body) @ [newline])))"
proof -
  from created_stat [OF create(1-3)] obtain body where b: "inputs_valid U E a" "given_body a fs = Inr body" "\<not> a_stage a"
      "t = rendered_for U E a body" using md(1) by auto
  have dir: "skill_dir U E a @ [skill_md] = target_dir E a @ [used_name U a, skill_md]"
    using b(3) by (simp add: skill_dir_def)
  note seg = writer_segments [OF b(1)]
  let ?e = "served_as U E a (target_dir E a) (used_name U a)"
  have e: "?e \<in> set (load_catalog M fs' c)"
    using md name roots b seg create(4,5) bad_segment_plain [OF seg(1)] unfolding dir
    by (intro rendered_listed_by_server) auto
  have "\<exists>src j. read_text_capped True fs' (e_path ?e) = Inr src
      \<and> snd (tool_skill_view M [(lit ''name'', JStr (e_name ?e))] \<lparr>v_fs = fs', v_cache = c\<rparr>) = Inr (JObj j)
      \<and> jget j (lit ''content'') = JStr (fst (snd (split_frontmatter_ex (m_repr M) (m_yaml M) src)))"
    using listed_viewable [of M "\<lparr>v_fs = fs', v_cache = c\<rparr>" ?e reg] roots(2,3) e by simp
  then obtain src j where j: "read_text_capped True fs' (e_path ?e) = Inr src"
      "snd (tool_skill_view M [(lit ''name'', JStr (e_name ?e))] \<lparr>v_fs = fs', v_cache = c\<rparr>) = Inr (JObj j)"
      "jget j (lit ''content'') = JStr (fst (snd (split_frontmatter_ex (m_repr M) (m_yaml M) src)))" by blast
  have "src = t" using j(1) md(1) unfolding dir by (auto simp: served_as_def dest!: read_capped_stat)
  with j(2,3) rendered_split(2) [OF b(1) create(4,5), of M body] md(3) b(2,4) e show ?thesis
    by (auto simp: served_as_def)
qed

end
