(* ===== verification/Listing_Report.thy ===== *)
theory Listing_Report
  imports Py_Json Py_Regex Writer_Store
begin

text \<open>
  \<^verbatim>\<open>skills-mcp/eval/listing_report.py\<close>: taking a recorded skill listing apart, finding the recorded listings in
  the transcripts, and the simulation of how the command line tool fits a listing into its budget.
  Floating-point numbers are rationals here and \<^verbatim>\<open>0.5 ** x\<close> is a parameter.
\<close>

section \<open>Tiers\<close>

datatype tier = Legacy | Auto | Hand | Builtin

fun tier_rank :: "tier \<Rightarrow> nat" where
  "tier_rank Legacy = 0"
| "tier_rank Auto = 1"
| "tier_rank Hand = 2"
| "tier_rank Builtin = 3"

lemma tier_rank_inj: "tier_rank a = tier_rank b \<longleftrightarrow> a = b"
  by (cases a; cases b) simp_all

text \<open>The order of the report.\<close>

instantiation tier :: linorder
begin

definition less_eq_tier :: "tier \<Rightarrow> tier \<Rightarrow> bool" where
  "less_eq_tier a b \<longleftrightarrow> tier_rank a \<le> tier_rank b"

definition less_tier :: "tier \<Rightarrow> tier \<Rightarrow> bool" where
  "less_tier a b \<longleftrightarrow> tier_rank a < tier_rank b"

instance
  by standard (auto simp: less_eq_tier_def less_tier_def tier_rank_inj)

end

definition TIER_ORDER :: "tier list" where
  "TIER_ORDER = [Legacy, Auto, Hand, Builtin]"

lemma TIER_ORDER_complete: "sorted TIER_ORDER" "distinct TIER_ORDER" "t \<in> set TIER_ORDER"
  by (simp_all add: TIER_ORDER_def less_eq_tier_def) (cases t; simp)

text \<open>\<^verbatim>\<open>^installer:\s*(.+)$\<close> in multi-line mode, on the first 1200 characters.\<close>

definition INSTALLER_RE :: regex where
  "INSTALLER_RE = Seq BolM (Seq (Str (lit ''installer:'')) (Seq (star (Cls is_space))
     (Seq (Grp 1 (plus1 (Cls (\<lambda>c. c \<noteq> 10)))) EolM)))"

definition tier_of_text :: "pystr \<Rightarrow> tier" where
  "tier_of_text head =
     (let installer = (case re_search no_word INSTALLER_RE head of
                         None \<Rightarrow> [] | Some m \<Rightarrow> py_strip (re_group head 1 m))
      in if prefix (lit ''arra-oracle'') installer then Legacy
         else if installer = lit ''auto-skill'' then Auto else Hand)"

text \<open>\<open>None\<close> is the exception of opening something that is not a file.\<close>

definition tier_of :: "node \<Rightarrow> path \<Rightarrow> pystr \<Rightarrow> tier option" where
  "tier_of fs dir name =
     (let p = dir @ comps name @ [skill_md]
      in if \<not> path_exists fs p then Some Builtin
         else case snd (read_text p fs) of
                Inl e \<Rightarrow> None
              | Inr t \<Rightarrow> Some (tier_of_text (take 1200 t)))"

section \<open>Taking a listing apart\<close>

record lentry =
  n_name :: pystr
  n_len :: int
  n_bare :: bool

text \<open>\<^verbatim>\<open>- [a-z0-9][a-z0-9:_-]*(:|$)\<close>\<close>

definition ENTRY_RE :: regex where
  "ENTRY_RE = Seq (Str (lit ''- '')) (Seq (Cls is_lodi)
     (Seq (star (Cls (\<lambda>c. is_lodi c \<or> c \<in> {58, 95, 45}))) (Grp 1 (Alt (cp 58) Eol))))"

definition starts_entry :: "pystr \<Rightarrow> bool" where
  "starts_entry line \<longleftrightarrow> prefix (lit ''- '') line \<and> re_match no_word ENTRY_RE line \<noteq> None"

definition split_newlines :: "pystr \<Rightarrow> pystr list" where
  "split_newlines s = split_max [newline] (length s) s"

definition add_line :: "pystr list \<Rightarrow> pystr \<Rightarrow> pystr list" where
  "add_line ls line =
     (if starts_entry line then ls @ [line]
      else if ls \<noteq> [] then butlast ls @ [last ls @ newline # line]
      else ls)"

definition entry_lines :: "pystr \<Rightarrow> pystr list" where
  "entry_lines content = foldl add_line [] (split_newlines content)"

definition first_line :: "pystr \<Rightarrow> pystr" where
  "first_line s = before_cp newline s"

definition parse_entry_line :: "pystr \<Rightarrow> lentry" where
  "parse_entry_line line =
     \<lparr>n_name = py_strip (first_line (before_cp colon (drop 2 line))), n_len = int (length line),
      n_bare = (\<not> contains (lit '': '') (first_line (drop 2 line)))\<rparr>"

definition parse_listing :: "pystr \<Rightarrow> lentry list" where
  "parse_listing content = map parse_entry_line (entry_lines content)"

text \<open>The characters of entries with their separators.\<close>

definition listing_size :: "int list \<Rightarrow> int" where
  "listing_size ns = sum_list ns + max 0 (int (length ns) - 1)"

definition accounted :: "pystr \<Rightarrow> int" where
  "accounted content = listing_size (map n_len (parse_listing content))"

section \<open>Finding the listings of a record\<close>

lemma size_values: "sum_list (map (size \<circ> snd) kvs) \<le> Suc (sum_list (map (size_prod (\<lambda>_. 0) size) kvs))"
  by (induction kvs) auto

text \<open>The loop over an explicit stack; the head of the list is its top.\<close>

function attach_loop :: "json list \<Rightarrow> (pystr \<times> json) list list \<Rightarrow> (pystr \<times> json) list list" where
  "attach_loop [] found = found"
| "attach_loop (JObj kvs # stack) found =
     attach_loop (rev (map snd kvs) @ stack)
       (if jget kvs (lit ''type'') = JStr (lit ''skill_listing'') then found @ [kvs] else found)"
| "attach_loop (JArr xs # stack) found = attach_loop (rev xs @ stack) found"
| "attach_loop (JNull # stack) found = attach_loop stack found"
| "attach_loop (JBool b # stack) found = attach_loop stack found"
| "attach_loop (JNum n # stack) found = attach_loop stack found"
| "attach_loop (JStr s # stack) found = attach_loop stack found"
| "attach_loop (JOther b s # stack) found = attach_loop stack found"
  by pat_completeness auto

termination
  by (relation "measure (\<lambda>(stack, _). size_list size stack)")
     (auto simp: size_list_conv_sum_list rev_map [symmetric] sum_list_addf less_Suc_eq_le size_values)

definition attachments :: "json \<Rightarrow> (pystr \<times> json) list list" where
  "attachments r = attach_loop [r] []"

section \<open>Scanning transcripts\<close>

record transcript =
  t_path :: pystr
  t_size :: "nat option"
  t_lines :: "pystr list"
  t_mtime :: rat

record report_env =
  g_parse :: "pystr \<Rightarrow> json option"
  g_iso :: "pystr \<Rightarrow> rat option"
  g_decay :: "rat \<Rightarrow> rat"

record row =
  w_path :: pystr
  w_when :: rat
  w_content :: json
  w_invoked :: "pystr list"
  w_models :: "json list"

text \<open>\<open>None\<close> is an exception that ends the program. \<open>g_iso\<close> is \<^verbatim>\<open>datetime.fromisoformat\<close> with its \<^verbatim>\<open>ValueError\<close>.\<close>

definition when_built :: "report_env \<Rightarrow> transcript \<Rightarrow> (pystr \<times> json) list \<Rightarrow> rat option" where
  "when_built G tr r =
     (let stamp = jget r (lit ''timestamp'')
      in if \<not> truthy stamp then Some (t_mtime tr)
         else case stamp of
                JStr s \<Rightarrow> (case g_iso G (replace_cp 90 (lit ''+00:00'') s) of Some x \<Rightarrow> Some x | None \<Rightarrow> Some (t_mtime tr))
              | _ \<Rightarrow> None)"

definition record_listings ::
    "report_env \<Rightarrow> transcript \<Rightarrow> json \<Rightarrow> (rat \<times> json) list option" where
  "record_listings G tr r =
     (let atts = filter (\<lambda>a. truthy (jget a (lit ''isInitial''))) (attachments r)
      in if atts = [] then Some []
         else case r of
                JObj kvs \<Rightarrow> map_option (\<lambda>w. map (\<lambda>a. (w, jor (jget a (lit ''content'')) (JStr []))) atts) (when_built G tr kvs)
              | _ \<Rightarrow> None)"

definition skill_call :: "json \<Rightarrow> pystr list option" where
  "skill_call blk =
     (case blk of
        JObj b \<Rightarrow>
          if jget b (lit ''type'') = JStr (lit ''tool_use'') \<and> jget b (lit ''name'') = JStr (lit ''Skill'') then
            (case jor (jget b (lit ''input'')) (JObj []) of
               JObj i \<Rightarrow>
                 (case jor (jget i (lit ''skill'')) (JStr []) of
                    JStr got \<Rightarrow>
                      if py_strip got = [] then Some []
                      else (case runs (\<lambda>c. \<not> is_space c) (lstrip_by (\<lambda>c. c = slash) got) of
                              [] \<Rightarrow> None
                            | w # ws \<Rightarrow> Some [w])
                  | _ \<Rightarrow> None)
             | _ \<Rightarrow> None)
          else Some []
      | _ \<Rightarrow> Some [])"

definition both :: "'a option \<Rightarrow> 'b option \<Rightarrow> ('a \<times> 'b) option" where
  "both x y = (case x of None \<Rightarrow> None | Some a \<Rightarrow> map_option (Pair a) y)"

fun all_some :: "'a option list \<Rightarrow> 'a list option" where
  "all_some [] = Some []"
| "all_some (x # xs) = map_option (\<lambda>(a, as). a # as) (both x (all_some xs))"

text \<open>A list or a dictionary cannot go into the set of models.\<close>

definition unhashable :: "json \<Rightarrow> bool" where
  "unhashable j = (case j of JArr xs \<Rightarrow> True | JObj kvs \<Rightarrow> True | _ \<Rightarrow> False)"

definition skill_uses :: "json \<Rightarrow> (json list \<times> pystr list) option" where
  "skill_uses r =
     (case r of
        JObj kvs \<Rightarrow>
          (case jor (jget kvs (lit ''message'')) (JObj []) of
             JObj msg \<Rightarrow>
               (let m = jget msg (lit ''model'');
                    body = (case jget msg (lit ''content'') of JArr xs \<Rightarrow> xs | _ \<Rightarrow> [])
                in if truthy m \<and> unhashable m then None
                   else map_option (\<lambda>calls. (if truthy m then [m] else [], concat calls)) (all_some (map skill_call body)))
           | _ \<Rightarrow> None)
      | _ \<Rightarrow> None)"

definition scan_line ::
    "report_env \<Rightarrow> transcript \<Rightarrow> pystr \<Rightarrow> ((rat \<times> json) list \<times> json list \<times> pystr list) option" where
  "scan_line G tr line =
     (let has_listing = contains (lit ''\"skill_listing\"'') line; has_skill = contains (lit ''\"Skill\"'') line
      in if \<not> (has_listing \<or> has_skill) then Some ([], [], [])
         else case g_parse G line of
                None \<Rightarrow> Some ([], [], [])
              | Some r \<Rightarrow> both (if has_listing then record_listings G tr r else Some [])
                                (if has_skill then skill_uses r else Some ([], [])))"

definition scan_file :: "report_env \<Rightarrow> transcript \<Rightarrow> row list option" where
  "scan_file G tr =
     (if t_size tr = None \<or> t_size tr = Some 0 then Some []
      else map_option (\<lambda>ls.
          map (\<lambda>(w, c). \<lparr>w_path = t_path tr, w_when = w, w_content = c,
             w_invoked = concat (map (snd \<circ> snd) ls), w_models = remdups (concat (map (fst \<circ> snd) ls))\<rparr>)
            (concat (map fst ls)))
        (all_some (map (scan_line G tr) (t_lines tr))))"

definition scan :: "report_env \<Rightarrow> transcript list \<Rightarrow> row list option" where
  "scan G trs = map_option (\<lambda>rs. sort_key w_when (concat rs)) (all_some (map (scan_file G) trs))"

text \<open>Main sessions and subagents, from the recursive listing of the files.\<close>

definition subagent_path :: "pystr \<Rightarrow> bool" where
  "subagent_path p \<longleftrightarrow> contains (slash # lit ''subagents'' @ [slash]) p"

definition split_transcripts :: "pystr list \<Rightarrow> pystr list \<times> pystr list" where
  "split_transcripts found =
     (filter (\<lambda>p. \<not> subagent_path p) found,
      filter (\<lambda>p. subagent_path p \<and> \<not> suffix (lit ''journal.jsonl'') p) found)"

section \<open>The budget simulation\<close>

record skill_use =
  u_count :: rat
  u_last :: rat

definition PRIORITY_FLOOR :: rat where "PRIORITY_FLOOR = 1 / 10"
definition HALF_LIFE_DAYS :: rat where "HALF_LIFE_DAYS = 7"

definition priority_fn :: "report_env \<Rightarrow> (pystr \<Rightarrow> skill_use option) \<Rightarrow> rat \<Rightarrow> pystr \<Rightarrow> rat" where
  "priority_fn G usage now_ms name =
     (case usage name of
        None \<Rightarrow> 0
      | Some r \<Rightarrow> u_count r * max (g_decay G ((now_ms - u_last r) / 86400000 / HALF_LIFE_DAYS)) PRIORITY_FLOOR)"

definition bare_len :: "lentry \<Rightarrow> int" where
  "bare_len e = int (length (n_name e)) + 2"

datatype fit_mode = Fits | Priority

record fit =
  f_mode :: fit_mode
  f_total :: int
  f_demoted :: "pystr list"

definition charge :: "pystr set \<Rightarrow> lentry \<Rightarrow> lentry" where
  "charge name_only e = e\<lparr>n_len := (if n_name e \<in> name_only then bare_len e else n_len e)\<rparr>"

definition protected :: "pystr set \<Rightarrow> bool \<Rightarrow> (pystr \<Rightarrow> tier) \<Rightarrow> lentry \<Rightarrow> bool" where
  "protected name_only protect_builtin tiers e \<longleftrightarrow>
     n_name e \<in> name_only \<or> (protect_builtin \<and> tiers (n_name e) = Builtin)"

fun spend :: "int \<Rightarrow> lentry list \<Rightarrow> int \<times> pystr list" where
  "spend spare [] = (0, [])"
| "spend spare (e # es) =
     (let delta = n_len e - bare_len e
      in if delta \<le> spare then (case spend (spare - delta) es of (s, d) \<Rightarrow> (delta + s, d))
         else (case spend spare es of (s, d) \<Rightarrow> (s, n_name e # d)))"

definition floor_size :: "pystr set \<Rightarrow> bool \<Rightarrow> (pystr \<Rightarrow> tier) \<Rightarrow> lentry list \<Rightarrow> int" where
  "floor_size name_only pb tiers charged =
     listing_size (map (\<lambda>e. if protected name_only pb tiers e then n_len e else bare_len e) charged)"

definition simulate ::
    "lentry list \<Rightarrow> int \<Rightarrow> pystr set \<Rightarrow> (pystr \<Rightarrow> rat) \<Rightarrow> bool \<Rightarrow> (pystr \<Rightarrow> tier) \<Rightarrow> fit" where
  "simulate entries budget name_only prio pb tiers =
     (let charged = map (charge name_only) entries;
          total = listing_size (map n_len charged)
      in if total \<le> budget then \<lparr>f_mode = Fits, f_total = total, f_demoted = []\<rparr>
         else let fl = floor_size name_only pb tiers charged;
                  contenders = sort_key (\<lambda>e. - prio (n_name e)) (filter (\<lambda>e. \<not> protected name_only pb tiers e) charged);
                  (spent, demoted) = spend (budget - fl) contenders
              in \<lparr>f_mode = Priority, f_total = fl + spent, f_demoted = demoted\<rparr>)"

section \<open>The pieces of the report\<close>

definition who_pays :: "lentry list \<Rightarrow> (pystr \<Rightarrow> tier) \<Rightarrow> (tier \<times> nat \<times> int) list" where
  "who_pays entries tiers =
     filter (\<lambda>(t, n, ch). n \<noteq> 0)
       (map (\<lambda>t. let es = filter (\<lambda>e. tiers (n_name e) = t) entries in (t, length es, sum_list (map n_len es))) TIER_ORDER)"

definition listing_budget :: "int \<Rightarrow> rat \<Rightarrow> int" where
  "listing_budget ctx fraction = (let b = of_int (ctx * 4) * fraction in if b < 0 then \<lceil>b\<rceil> else \<lfloor>b\<rfloor>)"

definition comma_names :: "pystr \<Rightarrow> pystr list" where
  "comma_names s = filter (\<lambda>w. w \<noteq> []) (map py_strip (split_max [44] (length s) s))"

definition simulated_set ::
    "lentry list \<Rightarrow> (pystr \<Rightarrow> tier) \<Rightarrow> pystr set \<Rightarrow> (pystr \<Rightarrow> tier option) \<Rightarrow> pystr \<Rightarrow> pystr \<Rightarrow> pystr set" where
  "simulated_set entries tiers name_only tier_named arg keep_arg =
     name_only \<union>
     (if arg = [] then {}
      else case tier_named arg of
             Some t \<Rightarrow> set (filter (\<lambda>n. tiers n = t \<and> n \<notin> set (comma_names keep_arg)) (map n_name entries))
           | None \<Rightarrow> set (comma_names arg))"

definition RESIDUAL_MIN :: nat where "RESIDUAL_MIN = 4"

text \<open>What one listing shows as demoted beyond the overrides.\<close>

definition residual :: "pystr list \<Rightarrow> pystr \<Rightarrow> pystr list" where
  "residual name_only content =
     (let b = filter (\<lambda>n. n \<notin> set name_only) (remdups (map n_name (filter n_bare (parse_listing content))))
      in if RESIDUAL_MIN \<le> length b then b else [])"

definition nearest :: "int \<Rightarrow> int list \<Rightarrow> int option" where
  "nearest observed cs = (case cs of [] \<Rightarrow> None | c # cs' \<Rightarrow>
     Some (foldl (\<lambda>best x. if \<bar>x - observed\<bar> < \<bar>best - observed\<bar> then x else best) c cs'))"

end
