(* ===== verification/Listing_Properties.thy ===== *)
theory Listing_Properties
  imports Listing_Report "HOL-Library.Multiset"
begin

text \<open>
  What the listing report relies on: the parser loses no character, the search through a record finds every
  listing in it, and the simulated fit adds up, keeps to the budget and demotes nothing it need not.
\<close>

section \<open>The parser\<close>

lemma join_Cons: "xs \<noteq> [] \<Longrightarrow> py_join sep (x # xs) = x @ sep @ py_join sep xs"
  by (cases xs) auto

lemma join_snoc: "xs \<noteq> [] \<Longrightarrow> py_join sep (xs @ [x]) = py_join sep xs @ sep @ x"
  by (induction sep xs rule: py_join.induct) auto

lemma join_split: "split_max sep n s \<noteq> [] \<and> py_join sep (split_max sep n s) = s"
proof (induction sep n s rule: split_max.induct)
  case (2 sep n s)
  then show ?case using cut_Some_append [of sep s]
    by (fastforce simp: join_Cons split: option.splits)
qed simp

lemma join_length: "int (length (py_join [c] ls)) = listing_size (map (int \<circ> length) ls)"
proof (induction "[c]" ls rule: py_join.induct)
  case (3 x y ys)
  then show ?case by (auto simp: listing_size_def split: if_splits)
qed (simp_all add: listing_size_def)

lemma join_add_line:
  "ls \<noteq> [] \<Longrightarrow> add_line ls line \<noteq> [] \<and> py_join [newline] (add_line ls line) = py_join [newline] ls @ newline # line"
proof (cases "starts_entry line")
  case False
  assume ls: "ls \<noteq> []"
  then obtain xs x where x: "ls = xs @ [x]" by (cases ls rule: rev_cases) auto
  with False show ?thesis by (cases "xs = []") (auto simp: add_line_def join_snoc)
qed (simp add: add_line_def join_snoc)

lemma join_lines_fold:
  "ls \<noteq> [] \<Longrightarrow> py_join [newline] (foldl add_line ls xs) = py_join [newline] (ls @ xs)"
proof (induction xs arbitrary: ls)
  case (Cons x xs)
  have "py_join [newline] (add_line ls x @ xs) = py_join [newline] ((ls @ [x]) @ xs)"
  proof -
    have j: "py_join [newline] (as @ xs) = py_join [newline] as @ (if xs = [] then [] else newline # py_join [newline] xs)"
      if "as \<noteq> []" for as :: "pystr list"
      using that by (induction "[newline]" as rule: py_join.induct) (auto simp: join_Cons)
    from join_add_line [OF Cons.prems, of x] show ?thesis
      by (subst (1 2) j) (simp_all add: join_snoc Cons.prems)
  qed
  with Cons join_add_line [OF Cons.prems, of x] show ?case by simp
qed simp

lemma hd_split: "hd (split_max [c] (Suc n) s) = before_cp c s"
proof -
  have n: "cut [c] s = None \<Longrightarrow> before_cp c s = s"
    by (induction s) (auto simp: before_cp_def split: if_splits)
  have "cut [c] s = Some (a, b) \<Longrightarrow> before_cp c s = a" for a b
    by (induction s arbitrary: a b) (auto simp: before_cp_def split: if_splits)
  with n show ?thesis by (cases "cut [c] s") auto
qed

text \<open>
  C38. The parser accounts for every character of a recorded listing whose first line is an entry: the lengths
  of the entries and the newlines between them add up to the length of the content, so the report's
  warning can only come from text before the first entry.
\<close>

theorem parser_loses_nothing:
  assumes "starts_entry (first_line content)"
  shows "accounted content = int (length content)"
proof -
  have "content \<noteq> []" using assms by (auto simp: starts_entry_def first_line_def before_cp_def)
  then obtain n where n: "length content = Suc n" by (cases content) auto
  obtain l ls where sp: "split_newlines content = l # ls" "l = first_line content"
    using join_split [of "[newline]" "length content" content] hd_split [of newline n content] n
    by (cases "split_newlines content") (auto simp: split_newlines_def first_line_def)
  have "py_join [newline] (entry_lines content) = py_join [newline] (split_newlines content)"
    using join_lines_fold [of "[l]" ls] assms sp by (simp add: entry_lines_def add_line_def)
  also have "\<dots> = content" using join_split by (simp add: split_newlines_def)
  finally have "int (length content) = listing_size (map (int \<circ> length) (entry_lines content))"
    using join_length [of newline "entry_lines content"] by simp
  then show ?thesis by (simp add: accounted_def parse_listing_def comp_def parse_entry_line_def)
qed

definition sample_listing :: pystr where
  "sample_listing = lit ''- rrr: reflect'' @ [10] @ lit ''and more'' @ [10] @ lit ''- dig'' @ [10] @ lit ''- trace: find''"

theorem parser_loses_nothing_witness:
  "accounted sample_listing = 43 \<and> map n_name (parse_listing sample_listing) = map lit [''rrr'', ''dig'', ''trace'']"
proof -
  have "starts_entry (first_line sample_listing)" by code_simp
  from parser_loses_nothing [OF this] have "accounted sample_listing = int (length sample_listing)" .
  moreover have "length sample_listing = 43" by code_simp
  moreover have "map n_name (parse_listing sample_listing) = map lit [''rrr'', ''dig'', ''trace'']" by code_simp
  ultimately show ?thesis by simp
qed

section \<open>The search\<close>

fun listings_in :: "json \<Rightarrow> (pystr \<times> json) list list" where
  "listings_in (JObj kvs) =
     (if jget kvs (lit ''type'') = JStr (lit ''skill_listing'') then [kvs] else [])
     @ concat (map (\<lambda>(k, v). listings_in v) kvs)"
| "listings_in (JArr xs) = concat (map listings_in xs)"
| "listings_in _ = []"

lemma mset_concat_rev: "mset (concat (rev xs)) = mset (concat xs)"
  by (induction xs) auto

lemma attach_loop_mset: "mset (attach_loop stack found) = mset found + mset (concat (map listings_in stack))"
proof (induction stack found rule: attach_loop.induct)
  case (2 kvs stack found)
  have "map (\<lambda>(k, v). listings_in v) kvs = map listings_in (map snd kvs)" by auto
  then have "mset (concat (map listings_in (rev (map snd kvs)))) = mset (concat (map (\<lambda>(k, v). listings_in v) kvs))"
    using mset_concat_rev [of "map listings_in (map snd kvs)"] by (simp only: rev_map)
  with 2 show ?case by simp
next
  case (3 xs stack found)
  have "mset (concat (map listings_in (rev xs))) = mset (concat (map listings_in xs))"
    using mset_concat_rev [of "map listings_in xs"] by (simp only: rev_map)
  with 3 show ?case by simp
qed simp_all

text \<open>
  C39. The stack loop over a transcript record ends and finds every listing object in it, at any depth and also
  inside another, each exactly once: it gives what the plain recursion over the value gives, in some
  order.
\<close>

theorem attachments_complete: "mset (attachments r) = mset (listings_in r)"
  by (simp add: attachments_def attach_loop_mset)

section \<open>The fit\<close>

abbreviation delta :: "lentry \<Rightarrow> int" where "delta e \<equiv> n_len e - bare_len e"

lemma spend_Cons:
  assumes "spend spare (e # es) = (s, d)"
  obtains (keep) s' where "delta e \<le> spare" "spend (spare - delta e) es = (s', d)" "s = delta e + s'"
    | (drop) d' where "\<not> delta e \<le> spare" "spend spare es = (s, d')" "d = n_name e # d'"
proof (cases "delta e \<le> spare")
  case True
  obtain s' d' where "spend (spare - delta e) es = (s', d')" by fastforce
  moreover with assms True have "s = delta e + s'" "d' = d" by (simp_all add: Let_def)
  ultimately show ?thesis using True that(1) by blast
next
  case False
  obtain s' d' where "spend spare es = (s', d')" by fastforce
  moreover with assms False have "s' = s" "d = n_name e # d'" by (simp_all add: Let_def)
  ultimately show ?thesis using False that(2) by blast
qed

lemma spend_names: "spend spare es = (s, d) \<Longrightarrow> set d \<subseteq> n_name ` set es"
proof (induction es arbitrary: spare s d)
  case (Cons e es)
  from Cons.prems show ?case by (cases rule: spend_Cons) (use Cons.IH in fastforce)+
qed simp

lemma spend_within: "spend spare es = (s, d) \<Longrightarrow> 0 \<le> spare \<Longrightarrow> s \<le> spare"
proof (induction es arbitrary: spare s d)
  case (Cons e es)
  from Cons.prems(1) show ?case by (cases rule: spend_Cons) (use Cons.IH Cons.prems(2) in fastforce)+
qed simp

definition kept_delta :: "pystr list \<Rightarrow> lentry \<Rightarrow> int" where
  "kept_delta d e = (if n_name e \<in> set d then 0 else delta e)"

lemma spend_sum:
  "spend spare es = (s, d) \<Longrightarrow> distinct (map n_name es) \<Longrightarrow> s = sum_list (map (kept_delta d) es)"
proof (induction es arbitrary: spare s d)
  case (Cons e es)
  from Cons.prems(1) show ?case
  proof (cases rule: spend_Cons)
    case (keep s')
    then have "n_name e \<notin> set d" using spend_names Cons.prems(2) by fastforce
    with keep Cons show ?thesis by (simp add: kept_delta_def)
  next
    case (drop d')
    have "map (kept_delta d) es = map (kept_delta d') es"
      using Cons.prems(2) drop(3) by (auto simp: kept_delta_def image_iff)
    moreover have "s = sum_list (map (kept_delta d') es)" using Cons.IH [OF drop(2)] Cons.prems(2) by simp
    moreover have "kept_delta d e = 0" by (simp add: kept_delta_def drop(3))
    ultimately show ?thesis by (simp only: list.map sum_list.Cons add_0)
  qed
qed simp

lemma spend_nonneg:
  "spend spare es = (s, d) \<Longrightarrow> list_all (\<lambda>e. 0 \<le> delta e) es \<Longrightarrow> 0 \<le> s"
proof (induction es arbitrary: spare s d)
  case (Cons e es)
  from Cons.prems(1) show ?case by (cases rule: spend_Cons) (use Cons.IH Cons.prems(2) in fastforce)+
qed simp

text \<open>With no entry shorter than its bare name, what is demoted does not fit into what is left.\<close>

lemma spend_tight:
  "spend spare es = (s, d) \<Longrightarrow> distinct (map n_name es) \<Longrightarrow> list_all (\<lambda>e. 0 \<le> delta e) es \<Longrightarrow>
   e \<in> set es \<Longrightarrow> n_name e \<in> set d \<Longrightarrow> spare - s < delta e"
proof (induction es arbitrary: spare s d)
  case (Cons x es)
  from Cons.prems(1) show ?case
  proof (cases rule: spend_Cons)
    case (keep s')
    then have "n_name x \<notin> set d" using spend_names Cons.prems(2) by fastforce
    with Cons.prems(4,5) have "e \<in> set es" by auto
    with Cons.IH [OF keep(2)] Cons.prems keep(3) show ?thesis by simp
  next
    case (drop d')
    show ?thesis
    proof (cases "e = x")
      case True
      with drop(1) spend_nonneg [OF drop(2)] Cons.prems(3) show ?thesis by simp
    next
      case False
      with Cons.prems(4) have e: "e \<in> set es" by simp
      then have "n_name e \<in> n_name ` set es" by (rule imageI)
      with Cons.prems(2) have "n_name e \<noteq> n_name x" by (metis distinct.simps(2) list.set_map list.simps(9))
      with Cons.prems(5) drop(3) have "n_name e \<in> set d'" by auto
      with e Cons.IH [OF drop(2)] Cons.prems show ?thesis by simp
    qed
  qed
qed simp

section \<open>The simulation\<close>

lemma sum_sort: "sum_list (map (f :: 'a \<Rightarrow> int) (sort_key k xs)) = sum_list (map f xs)"
  by (metis mset_map mset_sort sum_mset_sum_list)

lemma sum_list_0_filter:
  "sum_list (map (\<lambda>e. if P e then 0 else (f :: 'a \<Rightarrow> int) e) xs) = sum_list (map f (filter (\<lambda>e. \<not> P e) xs))"
  by (induction xs) auto

lemma distinct_sort_names: "distinct (map f xs) \<Longrightarrow> distinct (map f (sort_key k xs))"
  by (metis mset_map mset_sort mset_eq_imp_distinct_iff)

lemma charge_simps [simp]: "n_name (charge no e) = n_name e" "bare_len (charge no e) = bare_len e"
  by (simp_all add: charge_def bare_len_def)

definition shown_len :: "pystr set \<Rightarrow> pystr list \<Rightarrow> lentry \<Rightarrow> int" where
  "shown_len name_only d e = (if n_name e \<in> set d then bare_len e else n_len (charge name_only e))"

text \<open>What is known of a run that does not fit at once.\<close>

lemma simulate_run:
  assumes "f_mode (simulate entries budget no prio pb tiers) = Priority"
  obtains s d where "spend (budget - floor_size no pb tiers (map (charge no) entries))
        (sort_key (\<lambda>e. - prio (n_name e)) (filter (\<lambda>e. \<not> protected no pb tiers e) (map (charge no) entries))) = (s, d)"
    "simulate entries budget no prio pb tiers
       = \<lparr>f_mode = Priority, f_total = floor_size no pb tiers (map (charge no) entries) + s, f_demoted = d\<rparr>"
  using assms by (auto simp: simulate_def Let_def split: if_splits prod.splits)

lemma simulate_fits:
  assumes "f_mode (simulate entries budget no prio pb tiers) \<noteq> Priority"
  shows "f_demoted (simulate entries budget no prio pb tiers) = []"
    "f_total (simulate entries budget no prio pb tiers) = listing_size (map (n_len \<circ> charge no) entries)"
    "f_total (simulate entries budget no prio pb tiers) \<le> budget"
  using assms by (auto simp: simulate_def Let_def split: if_splits prod.splits)

text \<open>What the spending demotes is unprotected.\<close>

lemma spend_spares_protected:
  assumes "spend b (sort_key f (filter (\<lambda>e. \<not> protected no pb tiers e) (map (charge no) entries))) = (s, d)"
    and "distinct (map n_name (map (charge no) entries))" "e \<in> set (map (charge no) entries)" "protected no pb tiers e"
  shows "n_name e \<notin> set d"
proof
  assume "n_name e \<in> set d"
  with spend_names [OF assms(1)] have "n_name e \<in> n_name ` {x \<in> set (map (charge no) entries). \<not> protected no pb tiers x}" by auto
  then obtain x where "n_name e = n_name x" "x \<in> {x \<in> set (map (charge no) entries). \<not> protected no pb tiers x}" by (rule imageE)
  then have "x \<in> set (map (charge no) entries)" "\<not> protected no pb tiers x" "n_name x = n_name e" by simp_all
  with assms(2-4) show False by (metis distinct_map inj_onD)
qed

text \<open>
  C29. For entries with distinct names the simulation adds up: the total it reports is the size of the listing in which exactly the demoted
  entries, and those under a name-only override, are shown as bare names; and a protected entry is never
  demoted.
\<close>

theorem simulate_adds_up:
  assumes "distinct (map n_name entries)"
  shows "f_total (simulate entries budget no prio pb tiers)
       = listing_size (map (shown_len no (f_demoted (simulate entries budget no prio pb tiers))) entries)
     \<and> list_all (\<lambda>e. n_name e \<in> set (f_demoted (simulate entries budget no prio pb tiers)) \<longrightarrow> \<not> protected no pb tiers e) entries"
proof (cases "f_mode (simulate entries budget no prio pb tiers) = Priority")
  case False
  note f = simulate_fits [OF False]
  have "map (n_len \<circ> charge no) entries = map (shown_len no []) entries" by (simp add: shown_len_def)
  with f show ?thesis by (simp add: list_all_iff)
next
  case True
  let ?P = "protected no pb tiers" and ?ch = "map (charge no) entries"
  from simulate_run [OF True] obtain s d where sp:
      "spend (budget - floor_size no pb tiers ?ch) (sort_key (\<lambda>e. - prio (n_name e)) (filter (\<lambda>e. \<not> ?P e) ?ch)) = (s, d)"
      and r: "simulate entries budget no prio pb tiers
       = \<lparr>f_mode = Priority, f_total = floor_size no pb tiers ?ch + s, f_demoted = d\<rparr>" by blast
  have names: "distinct (map n_name ?ch)" using assms by (simp add: comp_def)
  then have "distinct (map n_name (filter (\<lambda>e. \<not> ?P e) ?ch))" by (rule distinct_map_filter)
  then have "distinct (map n_name (sort_key (\<lambda>e. - prio (n_name e)) (filter (\<lambda>e. \<not> ?P e) ?ch)))"
    by (metis distinct_sort_names)
  from spend_sum [OF sp this] have s: "s = sum_list (map (kept_delta d) (filter (\<lambda>e. \<not> ?P e) ?ch))"
    by (simp add: sum_sort)
  have prot: "n_name e \<notin> set d" if "e \<in> set ?ch" "?P e" for e
    using spend_spares_protected [OF sp names that] .
  have "sum_list (map (shown_len no d) entries) = sum_list (map (\<lambda>e. if n_name e \<in> set d then bare_len e else n_len e) ?ch)"
    by (rule arg_cong [where f = sum_list]) (simp add: shown_len_def)
  also have "\<dots> = sum_list (map (\<lambda>e. (if ?P e then n_len e else bare_len e) + (if ?P e then 0 else kept_delta d e)) ?ch)"
    using prot by (intro arg_cong [where f = sum_list] map_cong) (auto simp: kept_delta_def)
  also have "\<dots> = sum_list (map (\<lambda>e. if ?P e then n_len e else bare_len e) ?ch)
      + sum_list (map (\<lambda>e. if ?P e then 0 else kept_delta d e) ?ch)" by (rule sum_list_addf)
  also have "sum_list (map (\<lambda>e. if ?P e then 0 else kept_delta d e) ?ch) = s"
    unfolding s by (rule sum_list_0_filter)
  finally have "floor_size no pb tiers ?ch + s = listing_size (map (shown_len no d) entries)"
    by (simp add: floor_size_def listing_size_def)
  moreover have "list_all (\<lambda>e. n_name e \<in> set d \<longrightarrow> \<not> ?P e) entries"
    unfolding list_all_iff using prot by (force simp: protected_def)
  ultimately show ?thesis by (simp add: r)
qed

definition sample_fit :: fit where
  "sample_fit = simulate (parse_listing sample_listing) 30 (set []) (\<lambda>_. 0) True (\<lambda>_. Hand)"

theorem simulate_adds_up_witness:
  "f_demoted sample_fit = [lit ''rrr''] \<and> listing_size (map (shown_len (set []) [lit ''rrr'']) (parse_listing sample_listing)) = 25"
proof -
  have "distinct (map n_name (parse_listing sample_listing))" by code_simp
  from simulate_adds_up [OF this, of 30 "set []" "\<lambda>_. 0" True "\<lambda>_. Hand"]
  have "f_total sample_fit = listing_size (map (shown_len (set []) (f_demoted sample_fit)) (parse_listing sample_listing))"
    unfolding sample_fit_def by blast
  moreover have "f_demoted sample_fit = [lit ''rrr'']" "f_total sample_fit = 25" by code_simp+
  ultimately show ?thesis by simp
qed

lemma length_strip: "length (py_strip s) \<le> length s"
  using strip_by_decomp [of s is_space] unfolding py_strip_def by (metis length_append trans_le_add1 trans_le_add2 le_refl)

lemma entry_line_start: "list_all (prefix (lit ''- '')) (entry_lines content)"
proof -
  have "list_all (prefix (lit ''- '')) ls \<Longrightarrow> list_all (prefix (lit ''- '')) (foldl add_line ls xs)" for ls xs
  proof (induction xs arbitrary: ls)
    case (Cons x xs)
    have "list_all (prefix (lit ''- '')) (add_line ls x)"
    proof (cases ls rule: rev_cases)
      case (snoc ys y)
      with Cons.prems show ?thesis by (auto simp: add_line_def starts_entry_def)
    qed (simp add: add_line_def starts_entry_def)
    with Cons.IH show ?case by simp
  qed simp
  from this [of "[]"] show ?thesis by (simp add: entry_lines_def)
qed

lemma parsed_long: "e \<in> set (parse_listing content) \<Longrightarrow> bare_len e \<le> n_len e"
proof -
  assume "e \<in> set (parse_listing content)"
  then obtain l where l: "l \<in> set (entry_lines content)" "e = parse_entry_line l" by (auto simp: parse_listing_def)
  from l(1) entry_line_start have "prefix (lit ''- '') l" by (auto simp: list_all_iff)
  then have two: "2 \<le> length l" using prefix_length_le by fastforce
  have "length (n_name e) \<le> length (first_line (before_cp colon (drop 2 l)))" by (simp add: l(2) parse_entry_line_def length_strip)
  also have "\<dots> \<le> length (drop 2 l)"
    unfolding first_line_def before_cp_def by (meson le_trans length_takeWhile_le)
  finally show ?thesis using two by (simp add: bare_len_def l(2) parse_entry_line_def)
qed

text \<open>
  C28. For a listing whose names are distinct the simulation keeps to the budget and demotes no more than it must: whenever the listing with every
  unprotected entry bare would fit, the total is within the budget, and showing any demoted entry in full
  instead would exceed it.
\<close>

theorem simulate_within_budget:
  assumes d: "distinct (map n_name (parse_listing content))"
    and fl: "floor_size no pb tiers (map (charge no) (parse_listing content)) \<le> budget"
  shows "f_total (simulate (parse_listing content) budget no prio pb tiers) \<le> budget
     \<and> list_all (\<lambda>e. n_name e \<in> set (f_demoted (simulate (parse_listing content) budget no prio pb tiers)) \<longrightarrow>
          budget < f_total (simulate (parse_listing content) budget no prio pb tiers) + delta e) (parse_listing content)"
proof (cases "f_mode (simulate (parse_listing content) budget no prio pb tiers) = Priority")
  case False
  from simulate_fits [OF False] show ?thesis by (simp add: list_all_iff)
next
  case True
  let ?es = "parse_listing content"
  let ?P = "protected no pb tiers" and ?ch = "map (charge no) ?es"
  let ?srt = "sort_key (\<lambda>e. - prio (n_name e)) (filter (\<lambda>e. \<not> ?P e) ?ch)"
  from simulate_run [OF True] obtain s dem where sp: "spend (budget - floor_size no pb tiers ?ch) ?srt = (s, dem)"
      and r: "simulate ?es budget no prio pb tiers
       = \<lparr>f_mode = Priority, f_total = floor_size no pb tiers ?ch + s, f_demoted = dem\<rparr>" by blast
  have names: "distinct (map n_name ?ch)" using d by (simp add: comp_def)
  then have dist: "distinct (map n_name ?srt)" by (intro distinct_sort_names distinct_map_filter)
  have same: "charge no e = e" if "\<not> ?P e" for e using that by (simp add: charge_def protected_def)
  have prot: "?P (charge no e) = ?P e" for e by (simp add: protected_def)
  have pos: "list_all (\<lambda>e. 0 \<le> delta e) ?srt"
    using parsed_long same by (auto simp: list_all_iff prot)
  have "budget < floor_size no pb tiers ?ch + s + delta e" if e: "e \<in> set ?es" "n_name e \<in> set dem" for e
  proof -
    have "\<not> ?P e" using spend_spares_protected [OF sp names, of "charge no e"] e by (auto simp: prot)
    then have "e \<in> set ?srt" using e(1) same [of e] by force
    from spend_tight [OF sp dist pos this e(2)] show ?thesis by simp
  qed
  moreover have "s \<le> budget - floor_size no pb tiers ?ch" using spend_within [OF sp] fl by simp
  ultimately show ?thesis by (simp add: r list_all_iff)
qed

theorem simulate_within_budget_witness: "f_total sample_fit \<le> 30 \<and> f_demoted sample_fit \<noteq> []"
proof -
  have "distinct (map n_name (parse_listing sample_listing))"
    "floor_size (set []) True (\<lambda>_. Hand) (map (charge (set [])) (parse_listing sample_listing)) \<le> 30" by code_simp+
  from simulate_within_budget [OF this] have "f_total sample_fit \<le> 30" unfolding sample_fit_def by blast
  moreover have "f_demoted sample_fit \<noteq> []" by code_simp
  ultimately show ?thesis by blast
qed

text \<open>The score of a skill, when the decay is one of at most one: between a tenth of its uses and all of them.\<close>

lemma priority_bounds:
  assumes "usage name = Some r" "0 \<le> u_count r" "\<And>x. g_decay G x \<le> 1"
  shows "u_count r / 10 \<le> priority_fn G usage now name \<and> priority_fn G usage now name \<le> u_count r"
proof -
  let ?m = "max (g_decay G ((now - u_last r) / 86400000 / HALF_LIFE_DAYS)) PRIORITY_FLOOR"
  have "1 / 10 \<le> ?m" "?m \<le> 1" using assms(3) by (auto simp: PRIORITY_FLOOR_def)
  then show ?thesis using assms(1,2) mult_left_mono [of "1 / 10" ?m "u_count r"] mult_left_mono [of ?m 1 "u_count r"]
    by (simp add: priority_fn_def)
qed

text \<open>The table of who pays loses nothing.\<close>

lemma who_pays_total: "sum_list (map (snd \<circ> snd) (who_pays es tiers)) = sum_list (map n_len es)"
proof -
  have "sum_list (map n_len es) = (\<Sum>t\<leftarrow>TIER_ORDER. sum_list (map n_len (filter (\<lambda>e. tiers (n_name e) = t) es)))"
  proof (induction es)
    case (Cons e es)
    then show ?case by (cases "tiers (n_name e)") (simp_all add: TIER_ORDER_def)
  qed (simp add: TIER_ORDER_def)
  moreover have "sum_list (map (snd \<circ> snd) (filter (\<lambda>(t, n, ch). n \<noteq> 0) (map (\<lambda>t. (t, length (g t), sum_list (map n_len (g t)))) ts)))
      = (\<Sum>t\<leftarrow>ts. sum_list (map n_len (g t)))" for g :: "tier \<Rightarrow> lentry list" and ts
    by (induction ts) auto
  ultimately show ?thesis by (simp add: who_pays_def Let_def)
qed

text \<open>A recorded call of the skill \<^verbatim>\<open>/\<close> ends the report with an exception.\<close>

lemma slash_call_crashes:
  "skill_call (JObj [(lit ''type'', JStr (lit ''tool_use'')), (lit ''name'', JStr (lit ''Skill'')),
     (lit ''input'', JObj [(lit ''skill'', JStr (lit ''/''))])]) = None"
  by code_simp

end
