(* ===== verification/Listing_Main.thy ===== *)
theory Listing_Main
  imports Listing_Properties
begin

text \<open>
  The report of \<^verbatim>\<open>skills-mcp/eval/listing_report.py\<close> as a value: every number its \<^verbatim>\<open>main\<close> prints, from the parsed
  settings, the scanned transcripts and the tree of skills. \<open>None\<close> is an exception that ends the program.
  The local week of a point in time is a parameter; how the numbers are laid out is not modelled.
\<close>

definition DEFAULT_FRACTION :: rat where "DEFAULT_FRACTION = 1 / 100"
definition DEFAULT_CONTEXT :: int where "DEFAULT_CONTEXT = 200000"
definition CHARS_PER_TOKEN :: int where "CHARS_PER_TOKEN = 4"

definition contexts :: "int list" where
  "contexts = [DEFAULT_CONTEXT, 1000000]"

record report_input =
  o_settings :: "json option"
  o_usage :: "pystr \<Rightarrow> skill_use option"
  o_now :: rat
  o_name_only :: pystr
  o_keep :: pystr
  o_skills :: path
  o_week :: "rat \<Rightarrow> pystr"

section \<open>Settings and entries\<close>

text \<open>\<^verbatim>\<open>skillOverrides\<close> and \<^verbatim>\<open>skillListingBudgetFraction\<close> of the settings, which may be missing.\<close>

definition settings_dict :: "report_input \<Rightarrow> (pystr \<times> json) list option" where
  "settings_dict I = (case o_settings I of None \<Rightarrow> Some [] | Some j \<Rightarrow> jdict j)"

definition overrides_of :: "(pystr \<times> json) list \<Rightarrow> (pystr \<times> json) list option" where
  "overrides_of st = jdict (jor (jget st (lit ''skillOverrides'')) (JObj []))"

definition fraction_of :: "(pystr \<times> json) list \<Rightarrow> rat option" where
  "fraction_of st =
     (case jor (jget st (lit ''skillListingBudgetFraction'')) (JNum DEFAULT_FRACTION) of
        JNum r \<Rightarrow> Some r | JBool b \<Rightarrow> Some (if b then 1 else 0) | _ \<Rightarrow> None)"

definition name_only_of :: "(pystr \<times> json) list \<Rightarrow> pystr list" where
  "name_only_of ov = map fst (filter (\<lambda>(k, v). v = JStr (lit ''name-only'')) ov)"

text \<open>The tier of each entry; an entry whose file cannot be opened raises.\<close>

definition tiers_of :: "node \<Rightarrow> path \<Rightarrow> lentry list \<Rightarrow> (pystr \<times> tier) list option" where
  "tiers_of fs dir entries =
     all_some (map (\<lambda>e. map_option (Pair (n_name e)) (tier_of fs dir (n_name e))) entries)"

definition tier_at :: "(pystr \<times> tier) list \<Rightarrow> pystr \<Rightarrow> tier" where
  "tier_at ts n = (case map_of ts n of Some t \<Rightarrow> t | None \<Rightarrow> Builtin)"

definition tier_named :: "pystr \<Rightarrow> tier option" where
  "tier_named s = map_of [(lit ''legacy'', Legacy), (lit ''auto'', Auto), (lit ''hand'', Hand), (lit ''builtin/plugin'', Builtin)] s"

text \<open>A listing's text; \<^verbatim>\<open>content.split\<close> raises on anything but a string.\<close>

definition row_text :: "row \<Rightarrow> (row \<times> pystr) option" where
  "row_text w = map_option (Pair w) (jstr (w_content w))"

section \<open>The latest listing\<close>

record latest =
  la_when :: rat
  la_path :: pystr
  la_chars :: nat
  la_entries :: nat
  la_tokens :: nat
  la_accounted :: int
  la_bare :: nat
  la_stale :: nat

definition latest_of :: "(pystr \<times> json) list \<Rightarrow> row \<times> pystr \<Rightarrow> latest" where
  "latest_of ov wt =
     (let (w, content) = wt; es = parse_listing content; bare = filter n_bare es
      in \<lparr>la_when = w_when w, la_path = w_path w, la_chars = length content, la_entries = length es,
          la_tokens = length content div 4, la_accounted = accounted content, la_bare = length bare,
          la_stale = length (filter (\<lambda>e. jget ov (n_name e) \<noteq> JStr (lit ''name-only'')) bare)\<rparr>)"

section \<open>The budget\<close>

text \<open>A window, its budget, and how the listing fits with the current and with the simulated overrides.\<close>

type_synonym budget_row = "int \<times> int \<times> fit \<times> fit"

definition budget_table ::
    "(int \<Rightarrow> pystr set \<Rightarrow> bool \<Rightarrow> fit) \<Rightarrow> rat \<Rightarrow> pystr set \<Rightarrow> pystr set \<Rightarrow> budget_row list" where
  "budget_table sim fraction no ss =
     map (\<lambda>ctx. let b = listing_budget ctx fraction in (ctx, b, sim b no True, sim b ss True)) contexts"

record saving =
  sv_base :: int
  sv_after :: int
  sv_tokens :: int
  sv_demotions :: "(bool \<times> nat \<times> nat) list"

definition UNBOUNDED :: int where "UNBOUNDED = 10 ^ 9"

definition saving_of ::
    "(int \<Rightarrow> pystr set \<Rightarrow> bool \<Rightarrow> fit) \<Rightarrow> rat \<Rightarrow> pystr set \<Rightarrow> pystr set \<Rightarrow> saving option" where
  "saving_of sim fraction no ss =
     (if ss = no then None
      else let base = f_total (sim UNBOUNDED no True); after = f_total (sim UNBOUNDED ss True);
               b = listing_budget DEFAULT_CONTEXT fraction
           in Some \<lparr>sv_base = base, sv_after = after, sv_tokens = (base - after) div CHARS_PER_TOKEN,
                sv_demotions = map (\<lambda>p. (p, length (f_demoted (sim b no p)), length (f_demoted (sim b ss p)))) [True, False]\<rparr>)"

section \<open>Demoted sessions\<close>

record slot =
  sl_demoted :: "pystr list"
  sl_row :: row
  sl_text :: pystr

definition session_step :: "pystr list \<Rightarrow> (pystr \<times> slot) list \<Rightarrow> row \<times> pystr \<Rightarrow> (pystr \<times> slot) list" where
  "session_step no slots wt =
     (let (w, content) = wt;
          old = (case map_of slots (w_path w) of None \<Rightarrow> [] | Some s \<Rightarrow> sl_demoted s);
          new = filter (\<lambda>n. n \<notin> set old) (residual no content)
      in AList.update (w_path w) \<lparr>sl_demoted = old @ new, sl_row = w, sl_text = content\<rparr> slots)"

definition per_session :: "pystr list \<Rightarrow> (row \<times> pystr) list \<Rightarrow> (pystr \<times> slot) list" where
  "per_session no wts = foldl (session_step no) [] wts"

definition hit_sessions :: "(pystr \<times> slot) list \<Rightarrow> slot list" where
  "hit_sessions slots = filter (\<lambda>s. sl_demoted s \<noteq> []) (map snd slots)"

text \<open>The models of a session: \<^verbatim>\<open>m.replace("claude-", "")\<close>, sorted, joined, cut at 40.\<close>

definition models_text :: "json list \<Rightarrow> pystr option" where
  "models_text ms =
     map_option (\<lambda>ns. take 40 (py_join [44] (sort (map (replace_all (lit ''claude-'') []) ns)))) (all_some (map jstr ms))"

record demotion =
  de_hit :: nat
  de_sessions :: nat
  de_worst :: "(rat \<times> nat \<times> pystr) list"
  de_calls :: nat
  de_hurt :: nat

definition demotion_of :: "(pystr \<times> slot) list \<Rightarrow> demotion option" where
  "demotion_of slots =
     (let hit = hit_sessions slots;
          worst = take 3 (sort_key (\<lambda>s. - int (length (sl_demoted s))) hit)
      in map_option (\<lambda>ms.
           \<lparr>de_hit = length hit, de_sessions = length slots,
            de_worst = map (\<lambda>(s, m). (w_when (sl_row s), length (sl_demoted s), m)) (zip worst ms),
            de_calls = sum_list (map (\<lambda>s. length (w_invoked (sl_row s))) hit),
            de_hurt = sum_list (map (\<lambda>s. length (filter (\<lambda>g. g \<in> set (sl_demoted s)) (w_invoked (sl_row s)))) hit)\<rparr>)
         (all_some (map (\<lambda>s. models_text (w_models (sl_row s))) worst)))"

section \<open>Subagents\<close>

record subagents =
  su_files :: nat
  su_rows :: nat
  su_median :: nat
  su_total :: nat
  su_calls :: nat
  su_per_call :: "nat option"

text \<open>Of these listings only the length is taken, which a list or a dictionary has as well.\<close>

definition row_length :: "row \<Rightarrow> (row \<times> nat) option" where
  "row_length w = (case w_content w of
      JStr s \<Rightarrow> Some (w, length s) | JArr xs \<Rightarrow> Some (w, length xs) | JObj kvs \<Rightarrow> Some (w, length kvs) | _ \<Rightarrow> None)"

definition subagents_of :: "nat \<Rightarrow> (row \<times> nat) list \<Rightarrow> subagents" where
  "subagents_of files wts =
     (let sizes = sort (map snd wts); calls = sum_list (map (\<lambda>(w, t). length (w_invoked w)) wts);
          total = sum_list sizes
      in \<lparr>su_files = files, su_rows = length wts,
          su_median = (if wts = [] then 0 else sizes ! (length sizes div 2)), su_total = total, su_calls = calls,
          su_per_call = (if calls = 0 then None else Some (total div 4 div calls))\<rparr>)"

section \<open>Growth\<close>

text \<open>\<^verbatim>\<open>os.path.dirname\<close>: up to the last slash, without trailing slashes unless nothing else is left.\<close>

definition py_dirname :: "pystr \<Rightarrow> pystr" where
  "py_dirname p =
     (let head = rev (dropWhile (\<lambda>c. c \<noteq> slash) (rev p))
      in if list_all (\<lambda>c. c = slash) head then head else rstrip_by (\<lambda>c. c = slash) head)"

text \<open>\<^verbatim>\<open>Counter(xs).most_common(1)\<close>: of the most frequent elements the one met first.\<close>

definition busier :: "'a list \<Rightarrow> 'a option \<Rightarrow> 'a \<Rightarrow> 'a option" where
  "busier xs best x = (case best of None \<Rightarrow> Some x | Some b \<Rightarrow> if count_list xs b < count_list xs x then Some x else Some b)"

definition most_common :: "'a list \<Rightarrow> 'a option" where
  "most_common xs = foldl (busier xs) None xs"

definition pair_max :: "nat \<times> nat \<Rightarrow> nat \<times> nat \<Rightarrow> nat \<times> nat" where
  "pair_max a b = (if fst a < fst b \<or> (fst a = fst b \<and> snd a < snd b) then b else a)"

definition listing_count :: "pystr \<Rightarrow> nat \<times> nat" where
  "listing_count content = (length (parse_listing content), length content)"

definition week_step ::
    "(rat \<Rightarrow> pystr) \<Rightarrow> (pystr \<times> nat \<times> nat) list \<Rightarrow> row \<times> pystr \<Rightarrow> (pystr \<times> nat \<times> nat) list" where
  "week_step week tab wt =
     (let (w, content) = wt; k = week (w_when w); cur = (case map_of tab k of None \<Rightarrow> (0, 0) | Some c \<Rightarrow> c)
      in AList.update k (pair_max cur (listing_count content)) tab)"

definition per_week :: "(rat \<Rightarrow> pystr) \<Rightarrow> (row \<times> pystr) list \<Rightarrow> (pystr \<times> nat \<times> nat) list" where
  "per_week week wts = foldl (week_step week) [] wts"

definition busiest_series :: "(row \<times> pystr) list \<Rightarrow> (row \<times> pystr) list" where
  "busiest_series wts =
     (case most_common (map (\<lambda>(w, t). py_dirname (w_path w)) wts) of
        None \<Rightarrow> []
      | Some home \<Rightarrow> filter (\<lambda>(w, t). py_dirname (w_path w) = home) wts)"

datatype headroom = Weeks rat | AlreadyOver int

record growth =
  gr_series :: nat
  gr_weeks :: "(pystr \<times> nat \<times> nat) list"
  gr_rate :: "(rat \<times> int) option"
  gr_headroom :: "(bool \<times> int \<times> headroom) list"

definition weekly_table :: "(rat \<Rightarrow> pystr) \<Rightarrow> (row \<times> pystr) list \<Rightarrow> (pystr \<times> nat \<times> nat) list" where
  "weekly_table week series =
     (let tab = per_week week series in map (\<lambda>k. (k, the (map_of tab k))) (sort (map fst tab)))"

definition entry_rate :: "(pystr \<times> nat \<times> nat) list \<Rightarrow> rat" where
  "entry_rate ws = (of_nat (fst (snd (last ws))) - of_nat (fst (snd (hd ws)))) / of_nat (length ws - 1)"

definition headroom_at :: "rat \<Rightarrow> int \<Rightarrow> headroom" where
  "headroom_at rate head = (if head > 0 then Weeks (of_int head / rate) else AlreadyOver (- head))"

text \<open>Both groups are listed, the simulated one also when it is the current one: the \<^verbatim>\<open>break\<close> comes after the last.\<close>

definition growth_of ::
    "(rat \<Rightarrow> pystr) \<Rightarrow> (row \<times> pystr) list \<Rightarrow> lentry list \<Rightarrow> int \<Rightarrow> (int \<Rightarrow> pystr set \<Rightarrow> bool \<Rightarrow> fit) \<Rightarrow> rat
     \<Rightarrow> pystr set \<Rightarrow> pystr set \<Rightarrow> growth" where
  "growth_of week wts entries acc sim fraction no ss =
     (let series = busiest_series wts; ws = weekly_table week series;
          per_entry = acc div max 1 (int (length entries));
          rate = entry_rate ws * of_int per_entry
      in \<lparr>gr_series = length series, gr_weeks = ws,
          gr_rate = (if 2 \<le> length ws then Some (entry_rate ws, per_entry) else None),
          gr_headroom =
            (if 2 \<le> length ws \<and> rate > 0
             then concat (map (\<lambda>(cur, group). let size = f_total (sim UNBOUNDED group True)
                    in map (\<lambda>ctx. (cur, ctx, headroom_at rate (listing_budget ctx fraction - size))) contexts)
                    [(True, no), (False, ss)])
             else [])\<rparr>)"

section \<open>Validation\<close>

definition candidates :: "(int \<times> int \<times> rat) list" where
  "candidates = concat (map (\<lambda>ctx. map (\<lambda>f. (listing_budget ctx f, ctx, f)) [1 / 100, 2 / 100, 3 / 100]) contexts)"

definition closer :: "int \<Rightarrow> int \<times> int \<times> rat \<Rightarrow> int \<times> int \<times> rat \<Rightarrow> int \<times> int \<times> rat" where
  "closer observed best c = (if \<bar>fst c - observed\<bar> < \<bar>fst best - observed\<bar> then c else best)"

definition implied_budget :: "int \<Rightarrow> int \<times> int \<times> rat" where
  "implied_budget observed = foldl (closer observed) (hd candidates) (tl candidates)"

record validation =
  va_when :: rat
  va_observed :: int
  va_demoted :: nat
  va_implied :: "int \<times> int \<times> rat"
  va_fit :: fit
  va_error :: rat

definition validation_of :: "(int \<Rightarrow> pystr set \<Rightarrow> bool \<Rightarrow> fit) \<Rightarrow> pystr set \<Rightarrow> slot list \<Rightarrow> validation option" where
  "validation_of sim no hit =
     (case sort_key (\<lambda>s. - w_when (sl_row s)) hit of
        [] \<Rightarrow> None
      | s # _ \<Rightarrow>
          (let observed = int (length (sl_text s)); imp = implied_budget observed; f = sim (fst imp) no True
           in Some \<lparr>va_when = w_when (sl_row s), va_observed = observed, va_demoted = length (sl_demoted s),
                va_implied = imp, va_fit = f, va_error = of_int \<bar>f_total f - observed\<bar> / of_int (max observed 1)\<rparr>))"

section \<open>The report\<close>

record report =
  re_latest :: latest
  re_tiers :: "(tier \<times> nat \<times> int) list"
  re_budget :: "budget_row list"
  re_saving :: "saving option"
  re_demotion :: demotion
  re_subagents :: subagents
  re_growth :: growth
  re_validation :: "validation option"

definition report_on ::
    "report_env \<Rightarrow> report_input \<Rightarrow> node \<Rightarrow> (pystr \<times> json) list \<Rightarrow> (row \<times> pystr) list \<Rightarrow> nat \<times> (row \<times> nat) list
     \<Rightarrow> report option" where
  "report_on G I fs st wts subs =
     (case both (overrides_of st) (fraction_of st) of None \<Rightarrow> None | Some (ov, fraction) \<Rightarrow>
       (let content = snd (last wts); entries = parse_listing content
        in case tiers_of fs (o_skills I) entries of None \<Rightarrow> None | Some ts \<Rightarrow>
        (let no = name_only_of ov;
             ss = simulated_set entries (tier_at ts) (set no) tier_named (o_name_only I) (o_keep I);
             sim = (\<lambda>b g p. simulate entries b g (priority_fn G (o_usage I) (o_now I)) p (tier_at ts));
             slots = per_session no wts
         in map_option (\<lambda>de.
              \<lparr>re_latest = latest_of ov (last wts), re_tiers = who_pays entries (tier_at ts),
               re_budget = budget_table sim fraction (set no) ss, re_saving = saving_of sim fraction (set no) ss,
               re_demotion = de, re_subagents = subagents_of (fst subs) (snd subs),
               re_growth = growth_of (o_week I) wts entries (accounted content) sim fraction (set no) ss,
               re_validation = validation_of sim (set no) (hit_sessions slots)\<rparr>)
            (demotion_of slots))))"

text \<open>\<open>Some None\<close>: there is no recorded listing, and only that is said.\<close>

definition report_main :: "report_env \<Rightarrow> report_input \<Rightarrow> node \<Rightarrow> transcript list \<Rightarrow> transcript list \<Rightarrow> report option option" where
  "report_main G I fs mains subs =
     (case both (settings_dict I) (scan G mains) of
        None \<Rightarrow> None
      | Some (st, rows) \<Rightarrow>
          if rows = [] then Some None
          else (case both (all_some (map row_text rows)) (Option.bind (scan G subs) (\<lambda>rs. all_some (map row_length rs))) of
                  None \<Rightarrow> None
                | Some (wts, sizes) \<Rightarrow> map_option Some (report_on G I fs st wts (length subs, sizes))))"

end
