(* ===== verification/Report_Properties.thy ===== *)
theory Report_Properties
  imports Listing_Main
begin

text \<open>
  What the numbers of the listing report mean: the announced saving, the account of demoted sessions, the
  weekly table, the busiest project and the implied budget; and two places where they mislead.
\<close>


section \<open>The announced saving\<close>

lemma simulate_unbounded:
  assumes "listing_size (map (n_len \<circ> charge no) entries) \<le> budget"
  shows "f_total (simulate entries budget no prio pb tiers) = listing_size (map (n_len \<circ> charge no) entries)"
  using assms by (simp add: simulate_def Let_def comp_def)

lemma charge_le:
  assumes "list_all (\<lambda>e. bare_len e \<le> n_len e) es"
  shows "sum_list (map (n_len \<circ> charge no) es) \<le> sum_list (map n_len es)"
  using assms by (induction es) (auto simp: charge_def)

lemma charge_diff:
  assumes "no \<subseteq> ss"
  shows "sum_list (map (n_len \<circ> charge no) es) - sum_list (map (n_len \<circ> charge ss) es)
       = sum_list (map delta (filter (\<lambda>e. n_name e \<in> ss - no) es))"
  using assms by (induction es) (auto simp: charge_def)

lemma saved_exactly:
  assumes "no \<subseteq> ss" "accounted content \<le> UNBOUNDED"
    and "saving_of (\<lambda>b g p. simulate (parse_listing content) b g prio p tiers) fraction no ss = Some sv"
  shows "sv_base sv - sv_after sv = sum_list (map delta (filter (\<lambda>e. n_name e \<in> ss - no) (parse_listing content)))
     \<and> 0 \<le> sv_tokens sv"
proof -
  let ?es = "parse_listing content"
  have long: "list_all (\<lambda>e. bare_len e \<le> n_len e) ?es" using parsed_long by (auto simp: list_all_iff)
  have fits: "listing_size (map (n_len \<circ> charge g) ?es) \<le> UNBOUNDED" for g
    using charge_le [OF long, of g] assms(2) by (simp add: accounted_def listing_size_def)
  have sv: "sv_base sv = listing_size (map (n_len \<circ> charge no) ?es)" "sv_after sv = listing_size (map (n_len \<circ> charge ss) ?es)"
    "sv_tokens sv = (sv_base sv - sv_after sv) div CHARS_PER_TOKEN"
    using assms(3) fits by (auto simp: saving_of_def Let_def simulate_unbounded split: if_splits)
  have d: "sv_base sv - sv_after sv = sum_list (map delta (filter (\<lambda>e. n_name e \<in> ss - no) ?es))"
    unfolding sv(1,2) using charge_diff [OF assms(1), of ?es] by (simp add: listing_size_def)
  have "0 \<le> sum_list (map delta (filter (\<lambda>e. n_name e \<in> ss - no) ?es))"
    using long by (intro sum_list_nonneg) (auto simp: list_all_iff)
  with d sv(3) show ?thesis by (simp add: CHARS_PER_TOKEN_def)
qed

section \<open>The sessions\<close>

definition of_session :: "pystr \<Rightarrow> (row \<times> pystr) list \<Rightarrow> (row \<times> pystr) list" where
  "of_session p wts = filter (\<lambda>(w, t). w_path w = p) wts"

text \<open>A slot is what it should be after some listings.\<close>

definition slot_ok :: "pystr list \<Rightarrow> (row \<times> pystr) list \<Rightarrow> pystr \<Rightarrow> slot \<Rightarrow> bool" where
  "slot_ok no wts p s \<longleftrightarrow>
     of_session p wts \<noteq> [] \<and> (sl_row s, sl_text s) = last (of_session p wts)
     \<and> distinct (sl_demoted s) \<and> set (sl_demoted s) = \<Union> ((set \<circ> residual no \<circ> snd) ` set (of_session p wts))"

lemma residual_distinct: "distinct (residual no t)"
  by (simp add: residual_def Let_def)

lemma per_session_slots:
  "distinct (map fst (per_session no wts)) \<and> set (map fst (per_session no wts)) = (w_path \<circ> fst) ` set wts
   \<and> (\<forall>p s. map_of (per_session no wts) p = Some s \<longrightarrow> slot_ok no wts p s)"
proof (induction wts rule: rev_induct)
  case Nil
  then show ?case by (simp add: per_session_def)
next
  case (snoc wt wts)
  obtain w t where wt: "wt = (w, t)" by (cases wt)
  let ?ps = "per_session no wts" and ?p = "w_path w"
  let ?old = "case map_of ?ps ?p of None \<Rightarrow> [] | Some s \<Rightarrow> sl_demoted s"
  let ?s = "\<lparr>sl_demoted = ?old @ filter (\<lambda>n. n \<notin> set ?old) (residual no t), sl_row = w, sl_text = t\<rparr>"
  have step: "per_session no (wts @ [wt]) = AList.update ?p ?s ?ps"
    by (simp add: per_session_def session_step_def wt Let_def)
  have sess: "of_session p (wts @ [wt]) = of_session p wts @ (if p = ?p then [wt] else [])" for p
    by (auto simp: of_session_def wt)
  have old: "distinct ?old \<and> set ?old = \<Union> ((set \<circ> residual no \<circ> snd) ` set (of_session ?p wts))"
  proof (cases "map_of ?ps ?p")
    case None
    then have "?p \<notin> (w_path \<circ> fst) ` set wts" using snoc by (metis map_of_eq_None_iff set_map)
    then have "of_session ?p wts = []" by (auto simp: of_session_def filter_empty_conv image_iff)
    with None show ?thesis by simp
  next
    case (Some s)
    with snoc have "slot_ok no wts ?p s" by blast
    with Some show ?thesis by (simp add: slot_ok_def)
  qed
  have "slot_ok no (wts @ [wt]) ?p ?s"
    using old residual_distinct [of no t] unfolding slot_ok_def sess by (auto simp: wt)
  moreover have "slot_ok no (wts @ [wt]) p s" if "p \<noteq> ?p" "map_of ?ps p = Some s" for p s
  proof -
    have "slot_ok no wts p s" using snoc that by blast
    then show ?thesis using that(1) by (simp add: slot_ok_def sess)
  qed
  ultimately have "\<forall>p s. map_of (AList.update ?p ?s ?ps) p = Some s \<longrightarrow> slot_ok no (wts @ [wt]) p s"
    by (auto simp: update_conv' split: if_splits)
  moreover have "distinct (map fst (AList.update ?p ?s ?ps))" using snoc by (intro distinct_update) simp
  moreover have "set (map fst (AList.update ?p ?s ?ps)) = (w_path \<circ> fst) ` set (wts @ [wt])"
    using snoc by (auto simp: update_keys wt split: if_splits)
  ultimately show ?case unfolding step by blast
qed

lemma residual_sound:
  assumes "n \<in> set (residual no t)"
  shows "n \<notin> set no \<and> (\<exists>e\<in>set (parse_listing t). n_name e = n \<and> n_bare e) \<and> RESIDUAL_MIN \<le> length (residual no t)"
  using assms by (auto simp: residual_def Let_def split: if_splits)

section \<open>The weekly table\<close>

definition pair_le :: "nat \<times> nat \<Rightarrow> nat \<times> nat \<Rightarrow> bool" where
  "pair_le a b \<longleftrightarrow> fst a < fst b \<or> (fst a = fst b \<and> snd a \<le> snd b)"

lemma pair_max_bounds: "pair_le a (pair_max a b)" "pair_le b (pair_max a b)" "pair_max a b \<in> {a, b}"
  by (auto simp: pair_le_def pair_max_def)

lemma pair_le_trans: "pair_le a b \<Longrightarrow> pair_le b c \<Longrightarrow> pair_le a c"
  by (auto simp: pair_le_def)

lemma pair_max_zero: "pair_max (0, 0) b = b"
  by (cases b) (auto simp: pair_max_def)

text \<open>A week's entry is the largest listing of that week.\<close>

definition largest_of :: "(row \<times> pystr) list \<Rightarrow> nat \<times> nat \<Rightarrow> bool" where
  "largest_of wts v \<longleftrightarrow> v \<in> (listing_count \<circ> snd) ` set wts \<and> list_all (\<lambda>wt. pair_le (listing_count (snd wt)) v) wts"

definition in_week :: "(rat \<Rightarrow> pystr) \<Rightarrow> pystr \<Rightarrow> (row \<times> pystr) list \<Rightarrow> (row \<times> pystr) list" where
  "in_week week k wts = filter (\<lambda>(w, t). week (w_when w) = k) wts"

lemma largest_snoc: "largest_of wts v \<Longrightarrow> largest_of (wts @ [wt]) (pair_max v (listing_count (snd wt)))"
  using pair_max_bounds [where a = v and b = "listing_count (snd wt)"]
  by (auto simp: largest_of_def list_all_iff intro: pair_le_trans)

lemma largest_single: "largest_of [wt] (listing_count (snd wt))"
  by (simp add: largest_of_def pair_le_def)

lemma per_week_entries:
  "distinct (map fst (per_week week wts)) \<and> set (map fst (per_week week wts)) = (week \<circ> w_when \<circ> fst) ` set wts
   \<and> (\<forall>k v. map_of (per_week week wts) k = Some v \<longrightarrow> largest_of (in_week week k wts) v)"
proof (induction wts rule: rev_induct)
  case Nil
  then show ?case by (simp add: per_week_def)
next
  case (snoc wt wts)
  obtain w t where wt: "wt = (w, t)" by (cases wt)
  let ?tab = "per_week week wts" and ?k = "week (w_when w)"
  let ?v = "pair_max (case map_of ?tab ?k of None \<Rightarrow> (0, 0) | Some c \<Rightarrow> c) (listing_count t)"
  have snd: "snd wt = t" by (simp add: wt)
  have step: "per_week week (wts @ [wt]) = AList.update ?k ?v ?tab"
    by (simp add: per_week_def week_step_def wt Let_def)
  have wk: "in_week week k (wts @ [wt]) = in_week week k wts @ (if k = ?k then [wt] else [])" for k
    by (auto simp: in_week_def wt)
  have "largest_of (in_week week ?k (wts @ [wt])) ?v"
  proof (cases "map_of ?tab ?k")
    case None
    then have "?k \<notin> (week \<circ> w_when \<circ> fst) ` set wts" using snoc by (metis map_of_eq_None_iff set_map)
    then have "in_week week ?k wts = []" by (auto simp: in_week_def filter_empty_conv image_iff)
    with None show ?thesis using largest_single [of wt] by (simp add: wk pair_max_zero snd)
  next
    case (Some v)
    with snoc have "largest_of (in_week week ?k wts) v" by blast
    from largest_snoc [OF this, of wt] Some show ?thesis by (simp add: wk snd)
  qed
  moreover have "largest_of (in_week week k (wts @ [wt])) v" if "k \<noteq> ?k" "map_of ?tab k = Some v" for k v
  proof -
    have "largest_of (in_week week k wts) v" using snoc that by blast
    then show ?thesis using that(1) by (simp add: wk)
  qed
  ultimately have "\<forall>k v. map_of (AList.update ?k ?v ?tab) k = Some v \<longrightarrow> largest_of (in_week week k (wts @ [wt])) v"
    by (auto simp: update_conv' split: if_splits)
  moreover have "distinct (map fst (AList.update ?k ?v ?tab))" using snoc by (intro distinct_update) simp
  moreover have "set (map fst (AList.update ?k ?v ?tab)) = (week \<circ> w_when \<circ> fst) ` set (wts @ [wt])"
    using snoc by (auto simp: update_keys wt split: if_splits)
  ultimately show ?case unfolding step by blast
qed

lemma weekly_table_exact:
  "sorted (map fst (weekly_table week wts)) \<and> distinct (map fst (weekly_table week wts))
   \<and> set (map fst (weekly_table week wts)) = (week \<circ> w_when \<circ> fst) ` set wts
   \<and> list_all (\<lambda>(k, v). largest_of (in_week week k wts) v) (weekly_table week wts)"
proof -
  have k: "map fst (weekly_table week wts) = sort (map fst (per_week week wts))"
    by (simp add: weekly_table_def Let_def comp_def)
  have "largest_of (in_week week x wts) v" if "(x, v) \<in> set (weekly_table week wts)" for x v
  proof -
    from that have "x \<in> set (map fst (per_week week wts))" "v = the (map_of (per_week week wts) x)"
      by (auto simp: weekly_table_def Let_def)
    then have "map_of (per_week week wts) x = Some v"
      by (metis map_of_eq_None_iff option.collapse set_map)
    with per_week_entries [of week wts] show ?thesis by blast
  qed
  with k per_week_entries [of week wts] show ?thesis by (auto simp: list_all_iff)
qed

section \<open>The busiest project\<close>

lemma busier_step: "busier xs (Some a) y = Some (if count_list xs a < count_list xs y then y else a)"
  by (simp add: busier_def)

lemma busier_fold:
  "\<exists>b. foldl (busier xs) (Some a) ys = Some b \<and> b \<in> set (a # ys)
     \<and> (\<forall>y\<in>set (a # ys). count_list xs y \<le> count_list xs b)"
proof (induction ys arbitrary: a)
  case (Cons y ys)
  let ?a = "if count_list xs a < count_list xs y then y else a"
  obtain b where "foldl (busier xs) (Some ?a) ys = Some b" "b \<in> set (?a # ys)"
      "\<forall>z\<in>set (?a # ys). count_list xs z \<le> count_list xs b" using Cons [of ?a] by blast
  then show ?case by (cases "count_list xs a < count_list xs y") (auto simp: busier_step)
qed simp

lemma most_common_max:
  assumes "xs \<noteq> []"
  shows "\<exists>b. most_common xs = Some b \<and> b \<in> set xs \<and> (\<forall>y\<in>set xs. count_list xs y \<le> count_list xs b)"
proof -
  obtain x ys where "xs = x # ys" using assms by (cases xs) auto
  with busier_fold [of xs x ys] show ?thesis by (simp add: most_common_def busier_def)
qed

section \<open>The implied budget\<close>

lemma closer_fold:
  "foldl (closer obs) a cs \<in> set (a # cs) \<and> (\<forall>c\<in>set (a # cs). \<bar>fst (foldl (closer obs) a cs) - obs\<bar> \<le> \<bar>fst c - obs\<bar>)"
proof (induction cs arbitrary: a)
  case (Cons c cs)
  have "closer obs a c \<in> {a, c} \<and> \<bar>fst (closer obs a c) - obs\<bar> \<le> \<bar>fst a - obs\<bar> \<and> \<bar>fst (closer obs a c) - obs\<bar> \<le> \<bar>fst c - obs\<bar>"
    by (simp add: closer_def)
  with Cons [of "closer obs a c"] show ?case by fastforce
qed simp


section \<open>Properties\<close>

lemma all_some_last: "all_some xs = Some ys \<Longrightarrow> xs \<noteq> [] \<Longrightarrow> ys \<noteq> [] \<and> last xs = Some (last ys)"
proof (induction xs arbitrary: ys)
  case (Cons x xs)
  then obtain y zs where y: "x = Some y" "all_some xs = Some zs" "ys = y # zs"
    by (auto simp: both_def split: option.splits)
  with Cons.IH [of zs] show ?case by (cases "xs = []") auto
qed simp

text \<open>
  C30. The saving the report announces is exact: for a run with a recorded listing (of at most a milliard
  characters, the bound the report takes for no bound) base minus simulated size is the sum, over the entries of
  the latest listing that the simulation newly shows by name only, of the characters their entry has beyond
  the bare name; so it is never negative.
\<close>

theorem saving_is_exact:
  assumes "report_main G I fs mains subs = Some (Some r)" "re_saving r = Some sv" "la_accounted (re_latest r) \<le> UNBOUNDED"
  shows "\<exists>rows content st ov ts. scan G mains = Some rows \<and> w_content (last rows) = JStr content
     \<and> settings_dict I = Some st \<and> overrides_of st = Some ov \<and> tiers_of fs (o_skills I) (parse_listing content) = Some ts
     \<and> (let no = set (name_only_of ov);
            ss = simulated_set (parse_listing content) (tier_at ts) no tier_named (o_name_only I) (o_keep I)
        in sv_base sv - sv_after sv =
             sum_list (map (\<lambda>e. n_len e - bare_len e) (filter (\<lambda>e. n_name e \<in> ss - no) (parse_listing content))))
     \<and> 0 \<le> sv_tokens sv"
proof -
  from assms(1) obtain st rows wts sizes where r: "settings_dict I = Some st" "scan G mains = Some rows" "rows \<noteq> []"
      "all_some (map row_text rows) = Some wts" "report_on G I fs st wts (length subs, sizes) = Some r"
    by (auto simp: report_main_def both_def split: option.splits if_splits)
  have "row_text (last rows) = Some (last wts)" using all_some_last [OF r(4)] r(3) by (simp add: last_map)
  then obtain c where "w_content (last rows) = JStr c" "last wts = (last rows, c)"
    by (cases "w_content (last rows)") (auto simp: row_text_def)
  then have l: "w_content (last rows) = JStr (snd (last wts))" by simp
  let ?content = "snd (last wts)"
  from r(5) obtain ov fraction ts where o: "overrides_of st = Some ov" "tiers_of fs (o_skills I) (parse_listing ?content) = Some ts"
      "re_latest r = latest_of ov (last wts)"
      "re_saving r = saving_of (\<lambda>b g p. simulate (parse_listing ?content) b g (priority_fn G (o_usage I) (o_now I)) p (tier_at ts))
         fraction (set (name_only_of ov))
         (simulated_set (parse_listing ?content) (tier_at ts) (set (name_only_of ov)) tier_named (o_name_only I) (o_keep I))"
    by (auto simp: report_on_def both_def Let_def split: option.splits)
  have bound: "accounted ?content \<le> UNBOUNDED"
    using assms(3) unfolding o(3) by (cases "last wts") (simp add: latest_of_def Let_def)
  have sub: "set (name_only_of ov) \<subseteq>
      simulated_set (parse_listing ?content) (tier_at ts) (set (name_only_of ov)) tier_named (o_name_only I) (o_keep I)"
    by (simp add: simulated_set_def)
  from saved_exactly [OF sub bound assms(2) [unfolded o(4)]] r(1,2) l o(1,2) show ?thesis
    by (intro exI [of _ rows] exI [of _ ?content] exI [of _ st] exI [of _ ov] exI [of _ ts]) (simp add: Let_def)
qed

definition sample_report_env :: report_env where
  "sample_report_env = \<lparr>g_parse = (\<lambda>_. Some (JObj [(lit ''type'', JStr (lit ''skill_listing'')), (lit ''isInitial'', JBool True),
     (lit ''content'', JStr sample_listing)])), g_iso = (\<lambda>_. None), g_decay = (\<lambda>_. 1)\<rparr>"

definition sample_input :: report_input where
  "sample_input = \<lparr>o_settings = None, o_usage = (\<lambda>_. None), o_now = 0, o_name_only = lit ''rrr'', o_keep = [], o_skills = [],
     o_week = (\<lambda>_. lit ''2026-W33'')\<rparr>"

definition sample_transcript :: transcript where
  "sample_transcript = \<lparr>t_path = lit ''/p/s.jsonl'', t_size = Some 1,
     t_lines = [[34] @ lit ''skill_listing'' @ [34]], t_mtime = 1\<rparr>"

definition sample_report :: "report option option" where
  "sample_report = report_main sample_report_env sample_input (Dir []) [sample_transcript] []"

theorem saving_is_exact_witness:
  "case sample_report of Some (Some r) \<Rightarrow>
     (case re_saving r of Some sv \<Rightarrow> la_accounted (re_latest r) = 43 \<and> sv_base sv - sv_after sv = 18 \<and> 0 \<le> sv_tokens sv | None \<Rightarrow> False)
   | _ \<Rightarrow> False"
proof -
  have "case sample_report of Some (Some r) \<Rightarrow>
     (case re_saving r of Some sv \<Rightarrow> la_accounted (re_latest r) = 43 \<and> sv_base sv - sv_after sv = 18 | None \<Rightarrow> False)
   | _ \<Rightarrow> False" by code_simp
  then obtain r sv where r: "sample_report = Some (Some r)" "re_saving r = Some sv" "la_accounted (re_latest r) = 43"
      "sv_base sv - sv_after sv = 18"
    by (auto split: option.splits)
  then have "0 \<le> sv_tokens sv"
    using saving_is_exact [OF r(1) [unfolded sample_report_def] r(2)] by (auto simp: UNBOUNDED_def)
  with r(3,4) show ?thesis unfolding r(1) option.case r(2) by simp
qed

text \<open>
  C40. The account of demoted sessions is exact: there is one slot for each transcript with a listing, it holds the
  transcript's last listing, and its demoted names are, each once, those that some listing of this
  transcript shows bare without an override, in a listing with at least \<open>RESIDUAL_MIN\<close> of them.
\<close>

theorem sessions_exact:
  "distinct (map fst (per_session no wts))
   \<and> set (map fst (per_session no wts)) = (w_path \<circ> fst) ` set wts
   \<and> list_all (\<lambda>(p, s). (sl_row s, sl_text s) = last (of_session p wts) \<and> distinct (sl_demoted s)
        \<and> set (sl_demoted s) = \<Union> ((set \<circ> residual no \<circ> snd) ` set (of_session p wts))) (per_session no wts)
   \<and> list_all (\<lambda>(w, t). list_all (\<lambda>n. n \<notin> set no \<and> n \<in> n_name ` set (filter n_bare (parse_listing t))
        \<and> RESIDUAL_MIN \<le> length (residual no t)) (residual no t)) wts"
proof -
  have "slot_ok no wts p s" if "(p, s) \<in> set (per_session no wts)" for p s
    using per_session_slots [of no wts] map_of_is_SomeI [OF _ that] by blast
  then have "list_all (\<lambda>(p, s). (sl_row s, sl_text s) = last (of_session p wts) \<and> distinct (sl_demoted s)
      \<and> set (sl_demoted s) = \<Union> ((set \<circ> residual no \<circ> snd) ` set (of_session p wts))) (per_session no wts)"
    by (auto simp: list_all_iff slot_ok_def)
  moreover have "list_all (\<lambda>(w, t). list_all (\<lambda>n. n \<notin> set no \<and> n \<in> n_name ` set (filter n_bare (parse_listing t))
      \<and> RESIDUAL_MIN \<le> length (residual no t)) (residual no t)) wts"
    unfolding list_all_iff using residual_sound [of _ no] by (simp add: image_iff split_beta) blast
  ultimately show ?thesis using per_session_slots [of no wts] by blast
qed

text \<open>
  The weekly table is exact: its weeks are in order, each once, and are those of the listings it is made of; what it
  says of a week is the largest listing of that week, by the number of entries and then of characters.
\<close>

theorem weekly_exact:
  "sorted (map fst (weekly_table week wts)) \<and> distinct (map fst (weekly_table week wts))
   \<and> set (map fst (weekly_table week wts)) = (week \<circ> w_when \<circ> fst) ` set wts
   \<and> list_all (\<lambda>(k, v). v \<in> (listing_count \<circ> snd) ` set (in_week week k wts)
        \<and> list_all (\<lambda>wt. pair_le (listing_count (snd wt)) v) (in_week week k wts)) (weekly_table week wts)"
  using weekly_table_exact [of week wts] by (simp add: largest_of_def)

section \<open>What the report gets wrong\<close>

text \<open>Without a simulated group the headroom of the same group is reported twice.\<close>

lemma headroom_repeats:
  "map snd (filter fst (gr_headroom (growth_of week wts es acc sim fraction no no)))
     = map snd (filter (\<lambda>x. \<not> fst x) (gr_headroom (growth_of week wts es acc sim fraction no no)))"
  by (simp add: growth_of_def Let_def contexts_def)

text \<open>The validation takes the size of a session's last listing, whether or not that one was demoted.\<close>

definition two_listings :: "(row \<times> pystr) list" where
  "two_listings =
     (let w = \<lparr>w_path = lit ''s'', w_when = 1, w_content = JNull, w_invoked = [], w_models = []\<rparr>
      in [(w, py_join [10] (map (\<lambda>n. lit ''- '' @ lit n) [''aa'', ''bb'', ''cc'', ''dd''])), (w, lit ''- aa: x'')])"

lemma validation_takes_last:
  "case validation_of (\<lambda>b g p. \<lparr>f_mode = Fits, f_total = 0, f_demoted = []\<rparr>) {} (hit_sessions (per_session [] two_listings)) of
     None \<Rightarrow> False | Some v \<Rightarrow> va_demoted v = 4 \<and> va_observed v = 7 \<and> residual [] (lit ''- aa: x'') = []"
  by code_simp

end
