(* ===== verification/Arg_Parser.thy ===== *)
theory Arg_Parser
  imports Frontmatter
begin

text \<open>
  \<^verbatim>\<open>argparse\<close>, as far as the programs use it (CPython 3.11): long options that are switches or take one value,
  abbreviations, \<^verbatim>\<open>--opt=value\<close>, \<^verbatim>\<open>-h\<close>, positional arguments and \<^verbatim>\<open>--\<close>. Every error of the command line is one
  outcome, as all end the program with its usage on standard error and exit code 2.
\<close>

datatype 'a parse_result = Usage | Help | Parsed 'a

text \<open>\<open>o_ok\<close> is the conversion by \<^verbatim>\<open>type\<close> and the test on \<^verbatim>\<open>choices\<close>.\<close>

record opt =
  o_flag :: pystr
  o_dest :: pystr
  o_takes :: bool
  o_ok :: "pystr \<Rightarrow> bool"
  o_needed :: bool

text \<open>\<open>ps_pos\<close>: whether the parser takes one positional argument, which no parser with options of its own does; \<open>ps_digit\<close> is the class \<^verbatim>\<open>\d\<close> of \<^verbatim>\<open>re\<close>.\<close>

record parser =
  ps_opts :: "opt list"
  ps_pos :: bool
  ps_digit :: "nat \<Rightarrow> bool"

datatype action = HelpAct | OptAct opt

text \<open>
  What an argument is: not an option, none the parser knows, an abbreviation of several, or an option with no value
  of its own, the one behind \<^verbatim>\<open>=\<close>, or the one that follows a single dash and letter.
\<close>

datatype own_value = Bare | Behind_eq pystr | Joined pystr

datatype arg_kind = is_plain: Plain | Unknown | is_ambiguous: Ambiguous | Given action own_value

definition two_dashes :: pystr where "two_dashes = lit ''--''"

definition option_strings :: "parser \<Rightarrow> (pystr \<times> action) list" where
  "option_strings P = [(lit ''-h'', HelpAct), (lit ''--help'', HelpAct)] @ map (\<lambda>x. (o_flag x, OptAct x)) (ps_opts P)"

section \<open>One argument\<close>

text \<open>The options an argument may abbreviate, with the value it carries.\<close>

definition candidates :: "parser \<Rightarrow> pystr \<Rightarrow> arg_kind list" where
  "candidates P arg =
     (if prefix two_dashes arg then
        (let v = (if 61 \<in> set arg then Behind_eq (after_cp 61 arg) else Bare)
         in map (\<lambda>(s, a). Given a v) (filter (\<lambda>(s, a). prefix (before_cp 61 arg) s) (option_strings P)))
      else
        concat (map (\<lambda>(s, a). if s = take 2 arg then [Given a (Joined (drop 2 arg))]
                              else if prefix arg s then [Given a Bare] else []) (option_strings P)))"

text \<open>\<^verbatim>\<open>^-\d+$|^-\d*\.\d+$\<close>, where \<^verbatim>\<open>$\<close> lets one line feed through.\<close>

definition negative_number :: "parser \<Rightarrow> pystr \<Rightarrow> bool" where
  "negative_number P arg =
     (let s = tl arg; t = (if s \<noteq> [] \<and> last s = newline then butlast s else s); r = dropWhile (ps_digit P) t
      in t \<noteq> [] \<and> (r = [] \<or> (hd r = 46 \<and> tl r \<noteq> [] \<and> list_all (ps_digit P) (tl r))))"

definition classify :: "parser \<Rightarrow> pystr \<Rightarrow> arg_kind" where
  "classify P arg =
     (if arg = [] \<or> hd arg \<noteq> 45 then Plain
      else case map_of (option_strings P) arg of
        Some a \<Rightarrow> Given a Bare
      | None \<Rightarrow>
          if length arg = 1 then Plain
          else case (if 61 \<in> set arg then map_of (option_strings P) (before_cp 61 arg) else None) of
            Some a \<Rightarrow> Given a (Behind_eq (after_cp 61 arg))
          | None \<Rightarrow>
              (case candidates P arg of
                 [] \<Rightarrow> if negative_number P arg \<or> 32 \<in> set arg then Plain else Unknown
               | [k] \<Rightarrow> k
               | _ \<Rightarrow> Ambiguous))"

section \<open>The command line\<close>

record parsed =
  p_given :: "(pystr \<times> pystr option) list"
  p_plain :: "pystr list"
  p_stray :: bool
  p_dashes :: bool

definition give :: "opt \<Rightarrow> pystr option \<Rightarrow> parsed \<Rightarrow> parsed" where
  "give x v s = s\<lparr>p_given := p_given s @ [(o_dest x, v)]\<rparr>"

text \<open>What follows \<^verbatim>\<open>-h\<close> in one argument: more \<^verbatim>\<open>h\<close>, up to a letter that is no option.\<close>

fun help_tail :: "pystr \<Rightarrow> bool" where
  "help_tail [] = True"
| "help_tail (c # cs) \<longleftrightarrow> c \<noteq> 45 \<and> (c = 104 \<and> cs \<noteq> [] \<longrightarrow> hd cs \<noteq> 61 \<and> help_tail cs)"

definition helps :: "own_value \<Rightarrow> 'a parse_result" where
  "helps v = (case v of Bare \<Rightarrow> Help | Behind_eq x \<Rightarrow> Usage | Joined x \<Rightarrow> if help_tail x then Help else Usage)"

fun parse_loop :: "parser \<Rightarrow> pystr list \<Rightarrow> parsed \<Rightarrow> parsed parse_result" where
  "parse_loop P [] s = Parsed s"
| "parse_loop P (arg # rest) s =
     (if arg = two_dashes then Parsed (s\<lparr>p_plain := p_plain s @ rest, p_dashes := True\<rparr>)
      else case classify P arg of
        Plain \<Rightarrow> parse_loop P rest (s\<lparr>p_plain := p_plain s @ [arg]\<rparr>)
      | Unknown \<Rightarrow> parse_loop P rest (s\<lparr>p_stray := True\<rparr>)
      | Ambiguous \<Rightarrow> Usage
      | Given HelpAct v \<Rightarrow> helps v
      | Given (OptAct x) v \<Rightarrow>
          (case v of
             Bare \<Rightarrow>
               if \<not> o_takes x then parse_loop P rest (give x None s)
               else (case rest of
                  [] \<Rightarrow> Usage
                | w # rest' \<Rightarrow>
                    if w \<noteq> two_dashes \<and> is_plain (classify P w) \<and> o_ok x w then parse_loop P rest' (give x (Some w) s)
                    else Usage)
           | Behind_eq w \<Rightarrow> if o_takes x \<and> o_ok x w then parse_loop P rest (give x (Some w) s) else Usage
           | Joined w \<Rightarrow> Usage))"

definition nothing_parsed :: parsed where
  "nothing_parsed = \<lparr>p_given = [], p_plain = [], p_stray = False, p_dashes = False\<rparr>"

text \<open>
  An ambiguous abbreviation is found before anything else. What is left over or missing is an error at the
  end, so a request for help before that still is answered.
\<close>

definition parse_args :: "parser \<Rightarrow> pystr list \<Rightarrow> parsed parse_result" where
  "parse_args P argv =
     (if list_ex (\<lambda>a. is_ambiguous (classify P a)) (takeWhile (\<lambda>a. a \<noteq> two_dashes) argv) then Usage
      else case parse_loop P argv nothing_parsed of
        Parsed s \<Rightarrow>
          if list_ex (\<lambda>x. o_needed x \<and> o_dest x \<notin> fst ` set (p_given s)) (ps_opts P)
            \<or> p_stray s \<or> length (p_plain s) \<noteq> (if ps_pos P then 1 else 0) \<or> (p_dashes s \<and> \<not> ps_pos P)
          then Usage else Parsed s
      | r \<Rightarrow> r)"

text \<open>The namespace: of several values for one destination the last counts.\<close>

definition given :: "parsed \<Rightarrow> char list \<Rightarrow> pystr option" where
  "given s d = (case map_of (rev (p_given s)) (lit d) of Some v \<Rightarrow> v | None \<Rightarrow> None)"

definition text_of :: "parsed \<Rightarrow> char list \<Rightarrow> pystr \<Rightarrow> pystr" where
  "text_of s d dflt = (case given s d of Some v \<Rightarrow> v | None \<Rightarrow> dflt)"

definition switched :: "parsed \<Rightarrow> char list \<Rightarrow> bool" where
  "switched s d \<longleftrightarrow> lit d \<in> fst ` set (p_given s)"

text \<open>\<^verbatim>\<open>add_subparsers(required=True)\<close>: the first plain argument is the command, the rest goes to its parser.\<close>

fun dispatch :: "(nat \<Rightarrow> bool) \<Rightarrow> (pystr \<times> (pystr list \<Rightarrow> 'c parse_result)) list \<Rightarrow> bool \<Rightarrow> pystr list \<Rightarrow> 'c parse_result" where
  "dispatch dig cmds stray [] = Usage"
| "dispatch dig cmds stray (arg # rest) =
     (if arg = two_dashes then Usage
      else case classify \<lparr>ps_opts = [], ps_pos = False, ps_digit = dig\<rparr> arg of
        Plain \<Rightarrow>
          (case map_of cmds arg of
             None \<Rightarrow> Usage
           | Some sub \<Rightarrow> (case sub rest of Parsed c \<Rightarrow> if stray then Usage else Parsed c | r \<Rightarrow> r))
      | Unknown \<Rightarrow> dispatch dig cmds True rest
      | Ambiguous \<Rightarrow> Usage
      | Given a v \<Rightarrow> helps v)"

definition switch :: "char list \<Rightarrow> char list \<Rightarrow> opt" where
  "switch f d = \<lparr>o_flag = lit f, o_dest = lit d, o_takes = False, o_ok = (\<lambda>_. True), o_needed = False\<rparr>"

definition valued :: "bool \<Rightarrow> (pystr \<Rightarrow> bool) \<Rightarrow> char list \<Rightarrow> char list \<Rightarrow> opt" where
  "valued needed ok f d = \<lparr>o_flag = lit f, o_dest = lit d, o_takes = True, o_ok = ok, o_needed = needed\<rparr>"

definition options :: "(nat \<Rightarrow> bool) \<Rightarrow> opt list \<Rightarrow> parser" where
  "options dig xs = \<lparr>ps_opts = xs, ps_pos = False, ps_digit = dig\<rparr>"

section \<open>What an argument can set\<close>

definition sound_opts :: "opt list \<Rightarrow> bool" where
  "sound_opts xs \<longleftrightarrow> list_all (\<lambda>x. prefix two_dashes (o_flag x) \<and> 3 \<le> length (o_flag x) \<and> 61 \<notin> set (o_flag x)) xs
     \<and> distinct (lit ''-h'' # lit ''--help'' # map o_flag xs)"

lemma strings_of_sound:
  assumes "sound_opts xs"
  shows "map_of (option_strings (options dig xs)) t = Some a \<longleftrightarrow> (t, a) \<in> set (option_strings (options dig xs))"
    "(t, a) \<in> set (option_strings (options dig xs)) \<Longrightarrow> 61 \<notin> set t \<and> prefix (lit ''-'') t
       \<and> (a = HelpAct \<or> (\<exists>x\<in>set xs. a = OptAct x \<and> t = o_flag x \<and> prefix two_dashes t \<and> 3 \<le> length t))"
proof -
  have "map fst (option_strings (options dig xs)) = lit ''-h'' # lit ''--help'' # map o_flag xs"
    by (simp add: option_strings_def options_def comp_def)
  with assms have "distinct (map fst (option_strings (options dig xs)))" by (simp add: sound_opts_def)
  then show "map_of (option_strings (options dig xs)) t = Some a \<longleftrightarrow> (t, a) \<in> set (option_strings (options dig xs))"
    by (rule map_of_eq_Some_iff)
  assume "(t, a) \<in> set (option_strings (options dig xs))"
  with assms show "61 \<notin> set t \<and> prefix (lit ''-'') t
      \<and> (a = HelpAct \<or> (\<exists>x\<in>set xs. a = OptAct x \<and> t = o_flag x \<and> prefix two_dashes t \<and> 3 \<le> length t))"
    by (auto simp: option_strings_def options_def sound_opts_def list_all_iff lit_def two_dashes_def prefix_def)
qed

text \<open>An option takes effect only through an argument that begins with at least three characters of its name.\<close>

lemma prefix_before: "prefix (before_cp c s) s"
  unfolding before_cp_def by (metis prefix_def takeWhile_dropWhile_id)

lemma two_dashes_prefix:
  assumes "prefix two_dashes p"
  shows "2 \<le> length p" "length p = 2 \<Longrightarrow> prefix p (lit ''--help'')" "length p \<noteq> 2 \<Longrightarrow> 3 \<le> length p"
  using assms by (auto simp: two_dashes_def lit_simps prefix_def Suc_le_eq)

lemma candidates_abbrev:
  assumes "sound_opts xs" "candidates (options dig xs) arg = [Given (OptAct x) v]" "hd arg = 45" "2 \<le> length arg"
  shows "x \<in> set xs \<and> (\<exists>p. prefix p arg \<and> prefix p (o_flag x) \<and> 3 \<le> length p)"
proof (cases "prefix two_dashes arg")
  case True
  let ?p = "before_cp 61 arg"
  let ?hits = "filter (\<lambda>(s, a). prefix ?p s) (option_strings (options dig xs))"
  from assms(2) True obtain t where hits: "?hits = [(t, OptAct x)]"
    by (auto simp: candidates_def Let_def map_eq_Cons_conv split: prod.splits)
  then have t: "(t, OptAct x) \<in> set (option_strings (options dig xs))" "prefix ?p t"
    by (auto dest: filter_eq_ConsD simp: filter_eq_Cons_iff)
  have "\<not> prefix ?p (lit ''--help'')"
  proof
    assume "prefix ?p (lit ''--help'')"
    then have "(lit ''--help'', HelpAct) \<in> set ?hits" by (simp add: option_strings_def)
    then show False unfolding hits by simp
  qed
  moreover have "prefix two_dashes ?p" using True by (auto simp: two_dashes_def lit_def before_cp_def prefix_def)
  ultimately have "3 \<le> length ?p"
    by (cases "length ?p = 2") (auto simp: two_dashes_prefix)
  with t strings_of_sound(2) [OF assms(1) t(1)] prefix_before show ?thesis by auto
next
  case False
  from assms(2) have "Given (OptAct x) v \<in> set (candidates (options dig xs) arg)" by simp
  with False obtain s a where sa: "(s, a) \<in> set (option_strings (options dig xs))" "a = OptAct x" "s = take 2 arg \<or> prefix arg s"
    by (auto simp: candidates_def split: if_splits)
  with strings_of_sound(2) [OF assms(1) sa(1)] have "prefix two_dashes s" "3 \<le> length s" by auto
  from sa(3) this have "prefix s arg \<or> prefix arg s" by (auto simp: take_is_prefix)
  then have "prefix two_dashes arg"
  proof
    assume "prefix arg s"
    with \<open>prefix two_dashes s\<close> assms(4) show ?thesis
      by (auto simp: two_dashes_def lit_simps intro: prefix_length_prefix)
  qed (use \<open>prefix two_dashes s\<close> in \<open>blast intro: prefix_order.trans\<close>)
  with False show ?thesis by simp
qed

lemma classify_option:
  assumes "sound_opts xs" "classify (options dig xs) arg = Given (OptAct x) v"
  shows "x \<in> set xs \<and> (\<exists>p. prefix p arg \<and> prefix p (o_flag x) \<and> 3 \<le> length p)"
proof -
  let ?P = "options dig xs"
  have exact: ?thesis if "map_of (option_strings ?P) t = Some (OptAct x)" "prefix t arg" for t
    using that strings_of_sound [OF assms(1)] by blast
  from assms(2) have dash: "arg \<noteq> []" "hd arg = 45" by (auto simp: classify_def split: if_splits)
  show ?thesis
  proof (cases "map_of (option_strings ?P) arg")
    case (Some a)
    with assms(2) dash exact show ?thesis by (simp add: classify_def)
  next
    case None
    note free = None
    let ?eq = "if 61 \<in> set arg then map_of (option_strings ?P) (before_cp 61 arg) else None"
    have long: "2 \<le> length arg" using assms(2) dash None by (cases arg) (auto simp: classify_def Suc_le_eq split: if_splits)
    show ?thesis
    proof (cases ?eq)
      case (Some a)
      with assms(2) dash long free have "a = OptAct x" by (simp add: classify_def)
      with Some exact prefix_before show ?thesis by (auto split: if_splits)
    next
      case None
      with assms(2) dash long free have "candidates ?P arg = [Given (OptAct x) v]"
        by (simp add: classify_def split: list.splits if_splits)
      from candidates_abbrev [OF assms(1) this dash(2) long] show ?thesis .
    qed
  qed
qed

text \<open>Every step that goes on passes arguments by, and records at most the option its argument names.\<close>

lemma parse_loop_step:
  assumes "parse_loop P (arg # rest) s = Parsed s'"
  shows "p_given s' = p_given s \<or> (\<exists>rest' t. parse_loop P rest' t = Parsed s' \<and> suffix rest' rest
     \<and> (p_given t = p_given s \<or> (\<exists>x v w. classify P arg = Given (OptAct x) v \<and> p_given t = p_given s @ [(o_dest x, w)])))"
proof (cases "arg = two_dashes")
  case True
  with assms show ?thesis by auto
next
  case False
  show ?thesis
  proof (cases "classify P arg")
    case Plain
    with False assms show ?thesis by (intro disjI2 exI [of _ rest]) auto
  next
    case Unknown
    with False assms show ?thesis by (intro disjI2 exI [of _ rest]) auto
  next
    case Ambiguous
    with False assms show ?thesis by simp
  next
    case (Given a v)
    have "\<exists>x rest' w. a = OptAct x \<and> suffix rest' rest \<and> parse_loop P rest' (give x w s) = Parsed s'"
      using assms False Given by (cases a; cases v) (auto simp: helps_def intro: suffix_ConsI split: if_splits list.splits)
    with Given show ?thesis by (auto simp: give_def) force
  qed
qed

lemma parse_loop_given:
  assumes "parse_loop P argv s = Parsed s'" "(d, w) \<in> set (p_given s')"
  shows "(d, w) \<in> set (p_given s) \<or> (\<exists>arg\<in>set argv. \<exists>x v. classify P arg = Given (OptAct x) v \<and> o_dest x = d)"
  using assms
proof (induction "length argv" arbitrary: argv s rule: less_induct)
  case less
  show ?case
  proof (cases argv)
    case (Cons arg rest)
    note st = parse_loop_step [OF less.prems(1) [unfolded Cons]]
    show ?thesis
    proof (cases "p_given s' = p_given s")
      case False
      with st obtain rest' t where t: "parse_loop P rest' t = Parsed s'" "suffix rest' rest"
          "p_given t = p_given s \<or> (\<exists>x v w. classify P arg = Given (OptAct x) v \<and> p_given t = p_given s @ [(o_dest x, w)])"
        by blast
      then have "length rest' < length argv" "set rest' \<subseteq> set argv"
        using suffix_length_le [OF t(2)] set_mono_suffix [OF t(2)] by (auto simp: Cons)
      with less.hyps [OF this(1) t(1) less.prems(2)] t(3) show ?thesis by (fastforce simp: Cons)
    qed (use less.prems in simp)
  qed (use less.prems in simp)
qed

text \<open>A switch is on only if some argument begins with its first three characters.\<close>

lemma switched_explicit:
  assumes "sound_opts xs" "parse_args (options dig xs) argv = Parsed s" "switched s d"
    and "list_all (\<lambda>x. o_dest x = lit d \<longrightarrow> take 3 (o_flag x) = p) xs"
  shows "list_ex (prefix p) argv"
proof -
  from assms(2) have l: "parse_loop (options dig xs) argv nothing_parsed = Parsed s"
    by (auto simp: parse_args_def split: if_splits parse_result.splits)
  from assms(3) obtain w where "(lit d, w) \<in> set (p_given s)" by (auto simp: switched_def)
  with parse_loop_given [OF l this] obtain arg x v where x: "arg \<in> set argv" "classify (options dig xs) arg = Given (OptAct x) v"
      "o_dest x = lit d"
    by (auto simp: nothing_parsed_def)
  from classify_option [OF assms(1) x(2)] obtain q where q: "x \<in> set xs" "prefix q arg" "prefix q (o_flag x)" "3 \<le> length q"
    by blast
  from assms(4) q(1) x(3) have "take 3 (o_flag x) = p" by (simp add: list_all_iff)
  with q(3,4) have "p = take 3 q" by (auto simp: prefix_def)
  with q(2) have "prefix p arg" by (auto intro: prefix_order.trans [OF take_is_prefix])
  with x(1) show ?thesis by (auto simp: list_ex_iff)
qed

section \<open>Written command lines\<close>

text \<open>An option with its value as one argument or, where \<open>apart\<close>, as two; and what may be written so.\<close>

fun written :: "bool \<times> opt \<times> pystr option \<Rightarrow> pystr list" where
  "written (apart, x, None) = [o_flag x]"
| "written (apart, x, Some w) = (if apart then [o_flag x, w] else [o_flag x @ 61 # w])"

fun writable :: "opt list \<Rightarrow> bool \<times> opt \<times> pystr option \<Rightarrow> bool" where
  "writable xs (apart, x, None) \<longleftrightarrow> x \<in> set xs \<and> \<not> o_takes x"
| "writable xs (apart, x, Some w) \<longleftrightarrow> x \<in> set xs \<and> o_takes x \<and> o_ok x w \<and> (apart \<longrightarrow> w = [] \<or> hd w \<noteq> 45)"

definition recorded :: "bool \<times> opt \<times> pystr option \<Rightarrow> pystr \<times> pystr option" where
  "recorded y = (o_dest (fst (snd y)), snd (snd y))"

lemma sound_flag:
  assumes "sound_opts xs" "x \<in> set xs"
  shows "\<exists>r. o_flag x = 45 # 45 # r \<and> r \<noteq> []" "61 \<notin> set (o_flag x)"
proof -
  from assms have x: "prefix two_dashes (o_flag x)" "3 \<le> length (o_flag x)" "61 \<notin> set (o_flag x)"
    by (auto simp: sound_opts_def list_all_iff)
  then show "\<exists>r. o_flag x = 45 # 45 # r \<and> r \<noteq> []" "61 \<notin> set (o_flag x)"
    by (auto simp: two_dashes_def lit_simps prefix_def)
qed

lemma known_flag:
  assumes "sound_opts xs" "x \<in> set xs"
  shows "map_of (option_strings (options dig xs)) (o_flag x) = Some (OptAct x)"
proof -
  have "(o_flag x, OptAct x) \<in> set (option_strings (options dig xs))"
    using assms(2) by (auto simp: option_strings_def options_def)
  with strings_of_sound(1) [OF assms(1)] show ?thesis by blast
qed

lemma classify_flag:
  assumes "sound_opts xs" "x \<in> set xs"
  shows "classify (options dig xs) (o_flag x) = Given (OptAct x) Bare"
  using sound_flag [OF assms] known_flag [OF assms, of dig] by (auto simp: classify_def)

lemma classify_eq:
  assumes "sound_opts xs" "x \<in> set xs"
  shows "classify (options dig xs) (o_flag x @ 61 # w) = Given (OptAct x) (Behind_eq w)"
proof -
  let ?t = "o_flag x @ 61 # w"
  have "map_of (option_strings (options dig xs)) ?t = None"
  proof (rule ccontr)
    assume "map_of (option_strings (options dig xs)) ?t \<noteq> None"
    then obtain a where "(?t, a) \<in> set (option_strings (options dig xs))"
      using strings_of_sound(1) [OF assms(1)] by blast
    from strings_of_sound(2) [OF assms(1) this] show False by simp
  qed
  moreover have "before_cp 61 ?t = o_flag x" "after_cp 61 ?t = w"
    using sound_flag(2) [OF assms] by (auto simp: before_cp_def after_cp_def takeWhile_append dropWhile_append)
  ultimately show ?thesis using sound_flag [OF assms] known_flag [OF assms, of dig] by (auto simp: classify_def)
qed

lemma classify_text: "w = [] \<or> hd w \<noteq> 45 \<Longrightarrow> classify P w = Plain"
  by (auto simp: classify_def)

lemma parse_loop_written:
  assumes "sound_opts xs" "list_all (writable xs) ys"
  shows "parse_loop (options dig xs) (concat (map written ys)) s = Parsed (s\<lparr>p_given := p_given s @ map recorded ys\<rparr>)"
  using assms(2)
proof (induction ys arbitrary: s)
  case (Cons y ys)
  obtain apart x v where y: "y = (apart, x, v)" by (cases y)
  with Cons.prems have x: "x \<in> set xs" by (cases v) auto
  note flag = sound_flag [OF assms(1) x] and cl = classify_flag [OF assms(1) x, of dig] classify_eq [OF assms(1) x, of dig]
  have ne: "o_flag x \<noteq> two_dashes" "o_flag x @ 61 # w \<noteq> two_dashes" "w = [] \<or> hd w \<noteq> 45 \<Longrightarrow> w \<noteq> two_dashes" for w
    using flag(1) by (auto simp: two_dashes_def lit_simps)
  show ?case using Cons y
    by (cases v) (simp_all add: cl ne classify_text give_def recorded_def)
qed simp

lemma parse_args_written:
  assumes "sound_opts xs" "list_all (writable xs) ys"
    and "list_all (\<lambda>x. o_needed x \<longrightarrow> o_dest x \<in> fst ` set (map recorded ys)) xs"
  shows "parse_args (options dig xs) (concat (map written ys)) = Parsed (nothing_parsed\<lparr>p_given := map recorded ys\<rparr>)"
proof -
  have "\<not> is_ambiguous (classify (options dig xs) t)" if t: "y \<in> set ys" "t \<in> set (written y)" for t y
  proof -
    obtain apart x v where y: "y = (apart, x, v)" by (cases y)
    with assms(2) t(1) have w: "writable xs (apart, x, v)" by (auto simp: list_all_iff)
    then have "x \<in> set xs" by (cases v) auto
    with w t(2) show ?thesis
      by (cases v) (auto simp: y classify_flag [OF assms(1)] classify_eq [OF assms(1)] classify_text split: if_splits)
  qed
  then have "\<not> list_ex (\<lambda>a. is_ambiguous (classify (options dig xs) a)) (takeWhile (\<lambda>a. a \<noteq> two_dashes) (concat (map written ys)))"
    by (auto simp: list_ex_iff dest!: set_takeWhileD)
  moreover have "\<not> list_ex (\<lambda>x. o_needed x \<and> o_dest x \<notin> fst ` set (map recorded ys)) (ps_opts (options dig xs))"
    using assms(3) by (auto simp: list_ex_iff list_all_iff options_def)
  moreover have "\<not> ps_pos (options dig xs)" by (simp add: options_def)
  ultimately show ?thesis
    unfolding parse_args_def parse_loop_written [OF assms(1,2)] by (simp add: nothing_parsed_def)
qed

end
