(* ===== verification/Janitor.thy ===== *)
theory Janitor
  imports Mcp_Tools
begin

text \<open>
  \<^verbatim>\<open>skills-mcp/janitor.py\<close>: which skills are cold, and the guarded edit of \<^verbatim>\<open>settings.json\<close> that demotes them.
  The JSON library and the clock are fields of \<open>janitor_env\<close>; \<open>j_age\<close> gives the days since a timestamp, or
  nothing where \<^verbatim>\<open>fromisoformat\<close> raises, and \<open>j_key\<close> is how \<^verbatim>\<open>json.dumps\<close> writes a number that is a key.
  \<open>Frontmatter\<close> has its frontmatter reader.
\<close>

text \<open>
  Every file operation of the edit can fail (permissions, a full disk, an interrupt): \<open>j_fault\<close> says which do. A
  step that is \<open>Denied\<close> leaves the tree as it was; so does, for what follows, a process killed before the step. A write that is
  \<open>Torn\<close> leaves some text in the file, whatever it is. \<^verbatim>\<open>os.replace\<close> is atomic.
\<close>

datatype io_step = ReadSettings | WriteBackup | WriteNew | ReadNew | Swap | ReadBack | Restore

datatype fault = Denied | Torn pystr

record janitor_env =
  j_src :: path
  j_dir :: path
  j_file :: pystr
  j_age :: "pystr \<Rightarrow> rat option"
  j_stamp :: pystr
  j_parse :: "pystr \<Rightarrow> json option"
  j_dumps :: "json \<Rightarrow> pystr"
  j_key :: "json \<Rightarrow> pystr"
  j_fault :: "io_step \<Rightarrow> fault option"

definition STATES :: "pystr list" where
  "STATES = map lit [''on'', ''name-only'', ''user-invocable-only'', ''off'']"

section \<open>Invocations\<close>

text \<open>\<^verbatim>\<open>"skill"\s*:\s*"([^"]+)"\<close>\<close>

definition SKILL_RE :: regex where
  "SKILL_RE = Seq (Str (lit ''\"skill\"'')) (Seq (star (Cls is_space)) (Seq (cp 58) (Seq (star (Cls is_space))
     (Seq (cp 34) (Seq (Grp 1 (plus1 (Cls (\<lambda>c. c \<noteq> 34)))) (cp 34))))))"

text \<open>\<^verbatim>\<open>findall\<close> with one group, for a pattern that matches no empty text: every match moves on, so the
  length of the line bounds their number.\<close>

fun find_groups :: "nat \<Rightarrow> regex \<Rightarrow> pystr \<Rightarrow> nat \<Rightarrow> pystr list" where
  "find_groups 0 r s i = []"
| "find_groups (Suc k) r s i =
     (case search_from no_word r s [i..<Suc (length s)] of
        None \<Rightarrow> []
      | Some m \<Rightarrow> re_group s 1 m # find_groups k r s (fst m))"

definition findall :: "regex \<Rightarrow> pystr \<Rightarrow> pystr list" where
  "findall r s = find_groups (Suc (length s)) r s 0"

definition count_name :: "(pystr \<times> nat) list \<Rightarrow> pystr \<Rightarrow> (pystr \<times> nat) list" where
  "count_name d m = AList.update m (Suc (case map_of d m of None \<Rightarrow> 0 | Some n \<Rightarrow> n)) d"

text \<open>The transcripts as lists of lines; unreadable ones are left out.\<close>

definition invoked_skill_names :: "pystr list list \<Rightarrow> (pystr \<times> nat) list" where
  "invoked_skill_names files =
     foldl count_name []
       (concat (map (findall SKILL_RE) (filter (contains (lit ''\"skill\"'')) (concat files))))"

section \<open>Cold skills\<close>

definition age_days :: "janitor_env \<Rightarrow> pystr option \<Rightarrow> rat option" where
  "age_days J created_at =
     (case created_at of None \<Rightarrow> None | Some s \<Rightarrow> if s = [] then None else j_age J s)"

record sweep =
  s_cold :: "pystr list"
  s_invoked :: "(pystr \<times> nat) list"
  s_new :: "(pystr \<times> rat) list"

definition janitor_read :: "node \<Rightarrow> path \<Rightarrow> pydict" where
  "janitor_read fs md = (case snd (read_text md fs) of Inl e \<Rightarrow> [] | Inr t \<Rightarrow> janitor_frontmatter t)"

definition called_name :: "pydict \<Rightarrow> pystr \<Rightarrow> pystr" where
  "called_name fm name = (let n = dget fm (lit ''name'') [] in if n \<noteq> [] then n else name)"

definition sweep_step :: "janitor_env \<Rightarrow> node \<Rightarrow> (pystr \<times> nat) list \<Rightarrow> rat \<Rightarrow> sweep \<Rightarrow> path \<Rightarrow> sweep" where
  "sweep_step J fs invoked min_age w md =
     (let d = butlast md; name = last d; fm = janitor_read fs md
      in if islink fs d then w
         else if map_of fm (lit ''installer'') \<noteq> Some (lit ''auto-skill'') then w
         else let inv = (case map_of invoked (called_name fm name) of None \<Rightarrow> 0 | Some n \<Rightarrow> n);
                  age = age_days J (map_of fm (lit ''created_at''))
              in if inv > 0 then w\<lparr>s_invoked := s_invoked w @ [(name, inv)]\<rparr>
                 else case age of
                        Some a \<Rightarrow> if a < min_age then w\<lparr>s_new := s_new w @ [(name, a)]\<rparr>
                                  else w\<lparr>s_cold := s_cold w @ [called_name fm name]\<rparr>
                      | None \<Rightarrow> w\<lparr>s_cold := s_cold w @ [called_name fm name]\<rparr>)"

definition sweep_skills :: "janitor_env \<Rightarrow> node \<Rightarrow> (pystr \<times> nat) list \<Rightarrow> rat \<Rightarrow> sweep" where
  "sweep_skills J fs invoked min_age =
     foldl (sweep_step J fs invoked min_age) \<lparr>s_cold = [], s_invoked = [], s_new = []\<rparr> (iter_root fs (j_src J))"

section \<open>The guarded edit\<close>

datatype janitor_error = RefusedState | RefusedEnum | Restored "pystr list" | Crashed

definition settings :: "janitor_env \<Rightarrow> path" where "settings J = j_dir J @ [j_file J]"
definition backup_file :: "janitor_env \<Rightarrow> pystr" where "backup_file J = j_file J @ lit ''.backup-'' @ j_stamp J"
definition new_file :: "janitor_env \<Rightarrow> pystr" where "new_file J = j_file J @ lit ''.janitor-new''"
definition overrides_key :: pystr where "overrides_key = lit ''skillOverrides''"

text \<open>The steps; writing and \<^verbatim>\<open>shutil.copyfile\<close> also tell whether they succeeded.\<close>

definition read_step :: "janitor_env \<Rightarrow> io_step \<Rightarrow> path \<Rightarrow> node \<Rightarrow> pystr option" where
  "read_step J s p fs =
     (if j_fault J s \<noteq> None then None
      else case snd (read_text p fs) of Inl e \<Rightarrow> None | Inr t \<Rightarrow> if utf8_ok t then Some t else None)"

definition write_step :: "janitor_env \<Rightarrow> io_step \<Rightarrow> path \<Rightarrow> pystr \<Rightarrow> node \<Rightarrow> node \<times> bool" where
  "write_step J s p t fs =
     (case j_fault J s of
        None \<Rightarrow> (case open_write p t fs of (fs', Inl e) \<Rightarrow> (fs', False) | (fs', Inr u) \<Rightarrow> (fs', True))
      | Some Denied \<Rightarrow> (fs, False)
      | Some (Torn u) \<Rightarrow> (fst (open_write p u fs), False))"

definition copy_step :: "janitor_env \<Rightarrow> io_step \<Rightarrow> path \<Rightarrow> path \<Rightarrow> node \<Rightarrow> node \<times> bool" where
  "copy_step J s src dst fs = (case stat fs src of Some (File t) \<Rightarrow> write_step J s dst t fs | _ \<Rightarrow> (fs, False))"

definition replace_step :: "janitor_env \<Rightarrow> io_step \<Rightarrow> path \<Rightarrow> path \<Rightarrow> node \<Rightarrow> node \<times> bool" where
  "replace_step J s src dst fs =
     (if j_fault J s \<noteq> None then (fs, False)
      else case os_replace src dst fs of (fs', Inl e) \<Rightarrow> (fs', False) | (fs', Inr u) \<Rightarrow> (fs', True))"

definition load_json :: "janitor_env \<Rightarrow> io_step \<Rightarrow> node \<Rightarrow> path \<Rightarrow> json option" where
  "load_json J s fs p = Option.bind (read_step J s p fs) (j_parse J)"

text \<open>What the last check compares of a value: the length of a list or dictionary, else the value.\<close>

definition digest :: "json \<Rightarrow> json" where
  "digest v = (case v of JArr xs \<Rightarrow> jnat (length xs) | JObj kvs \<Rightarrow> jnat (length kvs) | _ \<Rightarrow> v)"

definition lost_keys :: "(pystr \<times> json) list \<Rightarrow> (pystr \<times> json) list \<Rightarrow> pystr list" where
  "lost_keys before after =
     map fst (filter (\<lambda>(k, v). k \<noteq> overrides_key \<and> digest (jget after k) \<noteq> digest v) before)"

definition merged :: "pdict \<Rightarrow> pystr list \<Rightarrow> pystr \<Rightarrow> pdict" where
  "merged ov names st = foldl (\<lambda>d n. put_key (JStr n) (JStr st) d) ov names"

definition outside_enum :: "pdict \<Rightarrow> bool" where
  "outside_enum ov \<longleftrightarrow> list_ex (\<lambda>(k, v). v \<notin> set (map JStr STATES)) ov"

text \<open>
  The part after the checks: staged, parsed, swapped in, read again, and put back if a key was lost. A text that
  cannot be encoded leaves the staging file empty.
\<close>

definition put_back :: "janitor_env \<Rightarrow> pystr list \<Rightarrow> node \<Rightarrow> node \<times> (janitor_error + unit)" where
  "put_back J lost fs =
     (case copy_step J Restore (j_dir J @ [backup_file J]) (settings J) fs of
        (fs', False) \<Rightarrow> (fs', Inl Crashed)
      | (fs', True) \<Rightarrow> (fs', Inl (Restored lost)))"

definition swap_in ::
    "janitor_env \<Rightarrow> (pystr \<times> json) list \<Rightarrow> (pystr \<times> json) list \<Rightarrow> node \<Rightarrow> node \<times> (janitor_error + unit)" where
  "swap_in J before data fs =
     (let tmp = j_dir J @ [new_file J]; content = j_dumps J (JObj data) @ [10]
      in case write_step J WriteNew tmp (if utf8_ok content then content else []) fs of
           (fs1, False) \<Rightarrow> (fs1, Inl Crashed)
         | (fs1, True) \<Rightarrow>
             if \<not> utf8_ok content \<or> load_json J ReadNew fs1 tmp = None then (fs1, Inl Crashed)
             else case replace_step J Swap tmp (settings J) fs1 of
                    (fs2, False) \<Rightarrow> (fs2, Inl Crashed)
                  | (fs2, True) \<Rightarrow>
                      (case load_json J ReadBack fs2 (settings J) of
                         Some (JObj after) \<Rightarrow>
                           if lost_keys before after \<noteq> [] then put_back J (lost_keys before after) fs2
                           else (fs2, Inr ())
                       | _ \<Rightarrow> (fs2, Inl Crashed)))"

definition write_overrides ::
    "janitor_env \<Rightarrow> pystr list \<Rightarrow> pystr \<Rightarrow> node \<Rightarrow> node \<times> (janitor_error + pystr list)" where
  "write_overrides J names st fs =
     (if st \<notin> set STATES then (fs, Inl RefusedState)
      else case load_json J ReadSettings fs (settings J) of
             Some (JObj data) \<Rightarrow>
               (case copy_step J WriteBackup (settings J) (j_dir J @ [backup_file J]) fs of
                  (fs1, False) \<Rightarrow> (fs1, Inl Crashed)
                | (fs1, True) \<Rightarrow>
                    (case py_dict (jor (jget data overrides_key) (JObj [])) of
                       None \<Rightarrow> (fs1, Inl Crashed)
                     | Some ov \<Rightarrow>
                         if outside_enum (merged ov names st) then (fs1, Inl RefusedEnum)
                         else (case swap_in J data (AList.update overrides_key (dict_json (j_key J) (merged ov names st)) data) fs1 of
                                 (fs2, Inl e) \<Rightarrow> (fs2, Inl e)
                               | (fs2, Inr _) \<Rightarrow> (fs2, Inr (filter (\<lambda>n. get_key (JStr n) ov \<noteq> Some (JStr st)) names)))))
           | _ \<Rightarrow> (fs, Inl Crashed))"

text \<open>The program: without \<^verbatim>\<open>--apply\<close>, or with nothing cold, nothing is written.\<close>

definition janitor_main ::
    "janitor_env \<Rightarrow> pystr list list \<Rightarrow> bool \<Rightarrow> rat \<Rightarrow> pystr \<Rightarrow> node \<Rightarrow> node \<times> sweep \<times> (janitor_error + pystr list)" where
  "janitor_main J files apply_it min_age st fs =
     (let w = sweep_skills J fs (invoked_skill_names files) min_age
      in if apply_it \<and> s_cold w \<noteq> [] then (case write_overrides J (s_cold w) st fs of (fs', r) \<Rightarrow> (fs', w, r))
         else (fs, w, Inr []))"

end
