(* ===== verification/Janitor_Properties.thy ===== *)
theory Janitor_Properties
  imports Janitor
begin

text \<open>
  The janitor keeps its word on the settings file whichever of its file operations fail, as far as that can be, and its
  sweep calls cold exactly what its loop says.
\<close>

section \<open>Files in one plain directory\<close>

definition file_or_free :: "node \<Rightarrow> path \<Rightarrow> bool" where
  "file_or_free fs p \<longleftrightarrow> (case tget fs p of None \<Rightarrow> True | Some n \<Rightarrow> is_file n)"

lemma file_or_free_cases: "file_or_free fs p \<Longrightarrow> tget fs p = None \<or> (\<exists>t. tget fs p = Some (File t))"
  by (auto simp: file_or_free_def split: option.splits elim: is_file.elims)

definition plain_dir :: "node \<Rightarrow> path \<Rightarrow> bool" where
  "plain_dir fs D \<longleftrightarrow> dir_at fs D \<and> plain_path D"

lemma child_resolve:
  "plain_dir fs D \<Longrightarrow> file_or_free fs (D @ [x]) \<Longrightarrow> plain_name x \<Longrightarrow> resolve fs link_limit [] (D @ [x]) = Some (D @ [x])"
  using resolve_child [of fs D x] file_or_free_cases by (fastforce simp: plain_dir_def)

lemma child_write:
  "plain_dir fs D \<Longrightarrow> file_or_free fs (D @ [x]) \<Longrightarrow> plain_name x \<Longrightarrow>
   open_write (D @ [x]) t fs = (tput (D @ [x]) (File t) fs, Inr ())"
  using child_resolve file_or_free_cases by (fastforce simp: open_write_def write_with_def plain_dir_def)

lemma child_stat: "plain_dir fs D \<Longrightarrow> tget fs (D @ [x]) = Some (File t) \<Longrightarrow> plain_name x \<Longrightarrow> stat fs (D @ [x]) = Some (File t)"
  by (simp add: stat_def child_resolve file_or_free_def)

lemma child_read:
  "plain_dir fs D \<Longrightarrow> tget fs (D @ [x]) = Some (File t) \<Longrightarrow> plain_name x \<Longrightarrow> read_text (D @ [x]) fs = (fs, Inr (univ_nl t))"
  by (simp add: read_text_File child_stat)

lemma child_replace:
  assumes "plain_dir fs D" "tget fs (D @ [x]) = Some (File t)" "file_or_free fs (D @ [y])"
  shows "os_replace (D @ [x]) (D @ [y]) fs = (tput (D @ [y]) (File t) (tdel (D @ [x]) fs), Inr ())"
proof -
  have "\<not> dir_at fs (D @ [y])" using file_or_free_cases [OF assms(3)] by (auto simp: dir_at_def)
  then show ?thesis using assms(1,2) by (simp add: os_replace_def lplace_child plain_dir_def)
qed

text \<open>Storing or removing one child keeps the directory and the other children.\<close>

lemma put_child:
  assumes "plain_dir fs D"
  shows "plain_dir (tput (D @ [x]) (File t) fs) D" "tget (tput (D @ [x]) (File t) fs) (D @ [x]) = Some (File t)"
    "y \<noteq> x \<Longrightarrow> tget (tput (D @ [x]) (File t) fs) (D @ [y]) = tget fs (D @ [y])"
  using assms by (auto intro!: dir_at_tput_above tget_tput_self tget_tput_other simp: strict_prefix_def plain_dir_def)

lemma del_child:
  assumes "plain_dir fs D"
  shows "plain_dir (tdel (D @ [x]) fs) D" "y \<noteq> x \<Longrightarrow> tget (tdel (D @ [x]) fs) (D @ [y]) = tget fs (D @ [y])"
  using assms by (auto intro!: dir_at_tdel_above tget_tdel_other simp: strict_prefix_def plain_dir_def)

section \<open>The settings file\<close>

definition janitor_ready :: "janitor_env \<Rightarrow> node \<Rightarrow> pystr \<Rightarrow> bool" where
  "janitor_ready J fs old \<longleftrightarrow> plain_dir fs (j_dir J) \<and> plain_name (j_file J) \<and> tget fs (settings J) = Some (File old)
     \<and> file_or_free fs (j_dir J @ [backup_file J]) \<and> file_or_free fs (j_dir J @ [new_file J])"

lemma three_names:
  assumes "plain_name (j_file J)"
  shows "plain_name (backup_file J)" "plain_name (new_file J)" "backup_file J \<noteq> j_file J" "new_file J \<noteq> j_file J"
    "backup_file J \<noteq> new_file J"
proof -
  have l: "3 \<le> length (backup_file J)" "3 \<le> length (new_file J)" by (simp_all add: backup_file_def new_file_def)
  show "plain_name (backup_file J)" "plain_name (new_file J)"
    using l by (auto simp: plain_name_def)
  show "backup_file J \<noteq> j_file J" "new_file J \<noteq> j_file J" by (auto simp: backup_file_def new_file_def)
  show "backup_file J \<noteq> new_file J" by (auto simp: backup_file_def new_file_def lit_simps)
qed

text \<open>An object's text parses, if at all, to an object: documented of the JSON library.\<close>

definition dumps_objects :: "janitor_env \<Rightarrow> bool" where
  "dumps_objects J \<longleftrightarrow> (\<forall>kvs j. j_parse J (univ_nl (j_dumps J (JObj kvs) @ [10])) = Some j \<longrightarrow> (\<exists>x. j = JObj x))"

text \<open>Each step in a plain directory: either it does its work, or a fault stops it.\<close>

lemma child_read_step:
  "plain_dir fs D \<Longrightarrow> tget fs (D @ [x]) = Some (File t) \<Longrightarrow> plain_name x \<Longrightarrow>
   read_step J s (D @ [x]) fs = (if j_fault J s = None \<and> utf8_ok (univ_nl t) then Some (univ_nl t) else None)"
  by (simp add: read_step_def child_read)

lemma child_write_step:
  "plain_dir fs D \<Longrightarrow> file_or_free fs (D @ [x]) \<Longrightarrow> plain_name x \<Longrightarrow>
   write_step J s (D @ [x]) t fs =
     (case j_fault J s of
        None \<Rightarrow> (tput (D @ [x]) (File t) fs, True)
      | Some Denied \<Rightarrow> (fs, False)
      | Some (Torn u) \<Rightarrow> (tput (D @ [x]) (File u) fs, False))"
  by (simp add: write_step_def child_write split: option.split fault.split)

lemma child_copy_step:
  "plain_dir fs D \<Longrightarrow> tget fs (D @ [x]) = Some (File t) \<Longrightarrow> file_or_free fs (D @ [y]) \<Longrightarrow> plain_name x \<Longrightarrow> plain_name y \<Longrightarrow>
   copy_step J s (D @ [x]) (D @ [y]) fs =
     (case j_fault J s of
        None \<Rightarrow> (tput (D @ [y]) (File t) fs, True)
      | Some Denied \<Rightarrow> (fs, False)
      | Some (Torn u) \<Rightarrow> (tput (D @ [y]) (File u) fs, False))"
  by (simp add: copy_step_def child_stat child_write_step)

lemma child_replace_step:
  "plain_dir fs D \<Longrightarrow> tget fs (D @ [x]) = Some (File t) \<Longrightarrow> file_or_free fs (D @ [y]) \<Longrightarrow>
   replace_step J s (D @ [x]) (D @ [y]) fs =
     (if j_fault J s = None then (tput (D @ [y]) (File t) (tdel (D @ [x]) fs), True) else (fs, False))"
  by (simp add: replace_step_def child_replace)

text \<open>
  What the settings may hold at the end. A success leaves the new text, read back without a lost key; a failure
  leaves the old text, unless reading the swapped file back failed, which leaves the new one, or a
  key was lost and putting the old text back failed, which leaves the new one or a torn one. The backup
  holds the old text as soon as the settings are not as they were.
\<close>

definition edit_outcome ::
    "janitor_env \<Rightarrow> (pystr \<times> json) list \<Rightarrow> pystr \<Rightarrow> pystr \<Rightarrow> node \<times> (janitor_error + 'r) \<Rightarrow> bool" where
  "edit_outcome J before old new run \<longleftrightarrow>
     (let now = tget (fst run) (settings J); kept = (tget (fst run) (j_dir J @ [backup_file J]) = Some (File old));
          read = (\<lambda>after. utf8_ok (univ_nl new) \<and> j_parse J (univ_nl new) = Some (JObj after))
      in case snd run of
           Inr r \<Rightarrow> now = Some (File new) \<and> kept \<and> (\<exists>after. read after \<and> lost_keys before after = [])
         | Inl Crashed \<Rightarrow>
             now = Some (File old)
             \<or> (kept \<and> (\<exists>after. read after \<and>
                  (j_fault J ReadBack \<noteq> None \<and> now = Some (File new)
                   \<or> lost_keys before after \<noteq> []
                     \<and> (case j_fault J Restore of None \<Rightarrow> False | Some Denied \<Rightarrow> now = Some (File new)
                        | Some (Torn u) \<Rightarrow> now = Some (File u)))))
         | Inl e \<Rightarrow> now = Some (File old))"

lemma swap_in_outcome:
  assumes d: "plain_dir fs (j_dir J)" and n: "plain_name (j_file J)" and o: "tget fs (settings J) = Some (File old)"
    and b: "tget fs (j_dir J @ [backup_file J]) = Some (File old)" and f: "file_or_free fs (j_dir J @ [new_file J])"
    and law: "dumps_objects J"
  shows "edit_outcome J before old (j_dumps J (JObj data) @ [10]) (swap_in J before data fs)"
proof -
  let ?D = "j_dir J" and ?t = "j_dumps J (JObj data) @ [10]"
  note nm = three_names [OF n]
  let ?w = "if utf8_ok ?t then ?t else []"
  define put where "put u = tput (?D @ [new_file J]) (File u) fs" for u
  have p: "plain_dir (put u) ?D" "tget (put u) (?D @ [new_file J]) = Some (File u)"
      "tget (put u) (settings J) = Some (File old)" "tget (put u) (?D @ [backup_file J]) = Some (File old)" for u
    using put_child [OF d, where x = "new_file J" and t = u] o b nm(4,5) by (auto simp: put_def settings_def)
  note w = child_write_step [OF d f nm(2), of J WriteNew ?w, folded put_def]
  show ?thesis
  proof (cases "j_fault J WriteNew = None \<and> utf8_ok ?t \<and> load_json J ReadNew (put ?t) (?D @ [new_file J]) \<noteq> None \<and> j_fault J Swap = None")
    case False
    have r: "replace_step J Swap (?D @ [new_file J]) (settings J) (put ?t) = (put ?t, False)" if "j_fault J Swap \<noteq> None"
      using that by (simp add: replace_step_def)
    have "\<exists>u. swap_in J before data fs = (put u, Inl Crashed) \<or> swap_in J before data fs = (fs, Inl Crashed)"
      using False w r by (cases "j_fault J WriteNew") (auto simp: swap_in_def Let_def split: fault.splits)
    then show ?thesis using p(3) o by (auto simp: edit_outcome_def)
  next
    case True
    let ?fs2 = "tput (settings J) (File ?t) (tdel (?D @ [new_file J]) (put ?t))"
    have "file_or_free (put ?t) (?D @ [j_file J])" using p(3) by (simp add: file_or_free_def settings_def)
    from child_replace_step [OF p(1,2) this] True
    have re: "replace_step J Swap (?D @ [new_file J]) (settings J) (put ?t) = (?fs2, True)" by (simp add: settings_def)
    note p2 = del_child [OF p(1), where x = "new_file J"]
    note p3 = put_child [OF p2(1), where x = "j_file J" and t = ?t, folded settings_def]
    have bk: "tget ?fs2 (?D @ [backup_file J]) = Some (File old)" using nm(3,5) by (simp add: p3(3) p2(2) p(4))
    have "load_json J ReadNew (put ?t) (?D @ [new_file J]) = (if j_fault J ReadNew = None \<and> utf8_ok (univ_nl ?t) then j_parse J (univ_nl ?t) else None)"
      unfolding load_json_def child_read_step [OF p(1,2) nm(2)] by simp
    with True law obtain after where rd: "utf8_ok (univ_nl ?t)" "j_parse J (univ_nl ?t) = Some (JObj after)"
      by (auto simp: dumps_objects_def split: if_splits)
    have ld: "load_json J ReadBack ?fs2 (settings J) = (if j_fault J ReadBack = None then Some (JObj after) else None)"
      using child_read_step [OF p3(1) [unfolded settings_def] p3(2) [unfolded settings_def] n, of J ReadBack] rd
      by (simp add: load_json_def settings_def)
    have run: "swap_in J before data fs = (if j_fault J ReadBack \<noteq> None then (?fs2, Inl Crashed)
        else if lost_keys before after \<noteq> [] then put_back J (lost_keys before after) ?fs2 else (?fs2, Inr ()))"
      using True w by (auto simp: swap_in_def Let_def re ld)
    have "file_or_free ?fs2 (?D @ [j_file J])" using p3(2) by (simp add: file_or_free_def settings_def)
    note cp = child_copy_step [OF p3(1) bk this nm(1) n, of J Restore, folded settings_def]
    have s: "tget (tput (settings J) (File u) ?fs2) (settings J) = Some (File u)"
      "tget (tput (settings J) (File u) ?fs2) (?D @ [backup_file J]) = Some (File old)" for u
      using put_child [OF p3(1), where x = "j_file J" and t = u, folded settings_def] bk nm(3) by simp_all
    show ?thesis using rd p3(2) bk s
      by (auto simp: edit_outcome_def run put_back_def cp Let_def split: option.split fault.split)
  qed
qed

lemma merged_get: "get_key k (merged ov names st) = (if k \<in> JStr ` set names then Some (JStr st) else get_key k ov)"
  unfolding merged_def by (induction names arbitrary: ov) (auto simp: get_put)

text \<open>
  The text an edit is meant to leave: the old settings with just the overrides changed, the cold names at
  the new state, all others as before, every value in the enumeration.
\<close>

definition demoted_text :: "janitor_env \<Rightarrow> (pystr \<times> json) list \<Rightarrow> pystr list \<Rightarrow> pystr \<Rightarrow> pystr \<Rightarrow> bool" where
  "demoted_text J data names st t \<longleftrightarrow>
     (\<exists>ov ov' new. t = j_dumps J (JObj new) @ [10] \<and> map_of new = (map_of data)(overrides_key \<mapsto> dict_json (j_key J) ov')
        \<and> py_dict (jor (jget data overrides_key) (JObj [])) = Some ov
        \<and> (\<forall>k. get_key k ov' = (if k \<in> JStr ` set names then Some (JStr st) else get_key k ov))
        \<and> snd ` set ov' \<subseteq> JStr ` set STATES)"

text \<open>
  C14. The settings file survives every failure the program can survive. The settings are taken to be a regular file in a directory
  reached without links, with no directory or link in the way of the backup and the staging file. Then,
  whichever file operations fail, tear a file or are never reached: a refusal leaves the old text; an
  edit that succeeds leaves the text it is meant to, read back without a lost key, and the old text in the backup; and a crash
  leaves the old text, except that after the swap a failed reading back leaves that new text, and a failed restoring after a
  lost key leaves the new text or a torn one, both with the old text in the backup. Overrides given as
  a list of pairs count as the dictionary they make.
\<close>

theorem settings_never_damaged:
  assumes ready: "janitor_ready J fs old" and data: "j_parse J (univ_nl old) = Some (JObj data)" and law: "dumps_objects J"
  shows "tget (fst (write_overrides J names st fs)) (settings J) = Some (File old) \<and> isl (snd (write_overrides J names st fs))
     \<or> (\<exists>new. demoted_text J data names st new \<and> edit_outcome J data old new (write_overrides J names st fs))"
proof -
  from ready have d: "plain_dir fs (j_dir J)" and n: "plain_name (j_file J)" and o: "tget fs (settings J) = Some (File old)"
    and b: "file_or_free fs (j_dir J @ [backup_file J])" and f: "file_or_free fs (j_dir J @ [new_file J])"
    by (auto simp: janitor_ready_def)
  note nm = three_names [OF n]
  define put where "put u = tput (j_dir J @ [backup_file J]) (File u) fs" for u
  have p: "plain_dir (put u) (j_dir J)" "tget (put u) (j_dir J @ [backup_file J]) = Some (File u)"
      "tget (put u) (settings J) = Some (File old)" "file_or_free (put u) (j_dir J @ [new_file J])" for u
    using put_child [OF d, where x = "backup_file J" and t = u] o f nm(3,5) by (auto simp: put_def settings_def file_or_free_def)
  have ld: "load_json J ReadSettings fs (settings J) \<in> {None, Some (JObj data)}"
    using child_read_step [OF d o [unfolded settings_def] n, of J ReadSettings] data by (simp add: load_json_def settings_def)
  note cp = child_copy_step [OF d o [unfolded settings_def] b n nm(1), of J WriteBackup, folded settings_def put_def]
  consider (early) e where "write_overrides J names st fs = (fs, Inl e)"
    | (late) u e where "write_overrides J names st fs = (put u, Inl e)"
    | (swap) ov where "py_dict (jor (jget data overrides_key) (JObj [])) = Some ov" "\<not> outside_enum (merged ov names st)"
        "\<exists>added. write_overrides J names st fs =
          (case swap_in J data (AList.update overrides_key (dict_json (j_key J) (merged ov names st)) data) (put old) of
             (fs2, Inl e) \<Rightarrow> (fs2, Inl e) | (fs2, Inr _) \<Rightarrow> (fs2, Inr added))"
  proof (cases "st \<in> set STATES \<and> load_json J ReadSettings fs (settings J) = Some (JObj data)")
    case False
    with ld have "\<exists>e. write_overrides J names st fs = (fs, Inl e)" by (auto simp: write_overrides_def)
    with early show ?thesis by blast
  next
    case True
    obtain fs1 ok where c: "copy_step J WriteBackup (settings J) (j_dir J @ [backup_file J]) fs = (fs1, ok)"
      by (cases "copy_step J WriteBackup (settings J) (j_dir J @ [backup_file J]) fs")
    with cp have fs1: "fs1 = fs \<and> \<not> ok \<or> (\<exists>u. fs1 = put u \<and> (ok \<longrightarrow> u = old))"
      by (auto split: option.splits fault.splits)
    show ?thesis
    proof (cases "\<exists>ov. ok \<and> py_dict (jor (jget data overrides_key) (JObj [])) = Some ov \<and> \<not> outside_enum (merged ov names st)")
      case False
      then have "\<exists>e. write_overrides J names st fs = (fs1, Inl e)"
        using True c by (cases ok) (auto simp: write_overrides_def split: option.split)
      with fs1 early late show ?thesis by blast
    next
      case copied: True
      then obtain ov where ov: "py_dict (jor (jget data overrides_key) (JObj [])) = Some ov" "\<not> outside_enum (merged ov names st)" "ok"
        by blast
      with fs1 have "fs1 = put old" by blast
      with True c ov have "\<exists>added. write_overrides J names st fs =
          (case swap_in J data (AList.update overrides_key (dict_json (j_key J) (merged ov names st)) data) (put old) of
             (fs2, Inl e) \<Rightarrow> (fs2, Inl e) | (fs2, Inr _) \<Rightarrow> (fs2, Inr added))"
        by (auto simp: write_overrides_def)
      with swap ov show ?thesis by blast
    qed
  qed
  then show ?thesis
  proof cases
    case swap
    let ?new = "AList.update overrides_key (dict_json (j_key J) (merged ov names st)) data"
    let ?run = "swap_in J data ?new (put old)"
    from swap(3) have run: "edit_outcome J data old t ?run \<Longrightarrow> edit_outcome J data old t (write_overrides J names st fs)" for t
      by (cases ?run; cases "snd ?run") (auto simp: edit_outcome_def)
    have "demoted_text J data names st (j_dumps J (JObj ?new) @ [10])"
      unfolding demoted_text_def using swap(1,2)
      by (intro exI [of _ ov] exI [of _ "merged ov names st"] exI [of _ ?new])
         (auto simp: update_conv' merged_get outside_enum_def list_ex_iff)
    with run [OF swap_in_outcome [OF p(1) n p(3) p(2) p(4) law]] show ?thesis by blast
  qed (simp_all add: o p(3))
qed

definition sample_settings :: node where
  "sample_settings = Dir [(lit ''settings.json'', File (lit ''old''))]"

definition sample_janitor :: janitor_env where
  "sample_janitor = \<lparr>j_src = [lit ''skills''], j_dir = [], j_file = lit ''settings.json'', j_age = (\<lambda>_. None), j_stamp = lit ''now'',
     j_parse = (\<lambda>t. if t = lit ''old'' then Some (JObj [(lit ''model'', JStr (lit ''m'')), (overrides_key, JArr [JArr [JStr (lit ''b''), JStr (lit ''off'')]])])
        else Some (JObj [(lit ''model'', JStr (lit ''m'')),
        (overrides_key, JObj [(lit ''b'', JStr (lit ''off'')), (lit ''a'', JStr (lit ''name-only''))])])),
     j_dumps = (\<lambda>_. lit ''new''), j_key = (\<lambda>_. []), j_fault = (\<lambda>_. None)\<rparr>"

theorem settings_never_damaged_witness:
  "tget (fst (write_overrides sample_janitor [lit ''a''] (lit ''name-only'') sample_settings)) (settings sample_janitor)
     = Some (File (lit ''new'' @ [10]))"
proof -
  let ?r = "write_overrides sample_janitor [lit ''a''] (lit ''name-only'') sample_settings"
  have c: "janitor_ready sample_janitor sample_settings (lit ''old'')"
    "j_parse sample_janitor (univ_nl (lit ''old'')) = Some (JObj [(lit ''model'', JStr (lit ''m'')), (overrides_key, JArr [JArr [JStr (lit ''b''), JStr (lit ''off'')]])])"
    by code_simp+
  have l: "dumps_objects sample_janitor" by (auto simp: dumps_objects_def sample_janitor_def)
  have "\<not> isl (snd ?r)" by code_simp
  then obtain fs' added where r: "?r = (fs', Inr added)" by (cases ?r; cases "snd ?r") auto
  from settings_never_damaged [OF c l, of "[lit ''a'']" "lit ''name-only''"] show ?thesis unfolding r
    by (auto simp: edit_outcome_def demoted_text_def sample_janitor_def)
qed

text \<open>With a disk that fills up while the settings are put back, the settings are lost but for the backup.\<close>

definition unlucky_janitor :: janitor_env where
  "unlucky_janitor = sample_janitor\<lparr>j_parse := (\<lambda>t. if t = lit ''old'' then Some (JObj [(lit ''model'', JStr (lit ''m''))]) else Some (JObj [])),
     j_fault := (\<lambda>s. if s = Restore then Some (Torn (lit ''o'')) else None)\<rparr>"

lemma torn_restore:
  "write_overrides unlucky_janitor [lit ''a''] (lit ''off'') sample_settings =
     (Dir [(lit ''settings.json'', File (lit ''o'')), (lit ''settings.json.backup-now'', File (lit ''old''))], Inl Crashed)"
  by code_simp

section \<open>The sweep\<close>

text \<open>
  A skill without a readable creation date counts as cold at once, although the description of the program
  asks for an age above the minimum.
\<close>

lemma undated_is_cold:
  assumes "\<not> islink fs d" "map_of (janitor_read fs (d @ [skill_md])) (lit ''installer'') = Some (lit ''auto-skill'')"
    "map_of (janitor_read fs (d @ [skill_md])) (lit ''created_at'') = None" "map_of invoked (called_name (janitor_read fs (d @ [skill_md])) (last d)) = None"
  shows "s_cold (sweep_step J fs invoked min_age w (d @ [skill_md])) = s_cold w @ [called_name (janitor_read fs (d @ [skill_md])) (last d)]"
  using assms by (simp add: sweep_step_def Let_def age_days_def)

text \<open>Linked skills, skills of others and skills in use are never called cold.\<close>

lemma cold_step:
  "n \<in> set (s_cold (sweep_step J fs invoked min_age w md)) \<Longrightarrow> n \<in> set (s_cold w) \<or>
     (\<not> islink fs (butlast md) \<and> map_of (janitor_read fs md) (lit ''installer'') = Some (lit ''auto-skill'')
      \<and> n = called_name (janitor_read fs md) (last (butlast md)) \<and> map_of invoked n \<in> {None, Some 0}
      \<and> (\<forall>a. age_days J (map_of (janitor_read fs md) (lit ''created_at'')) = Some a \<longrightarrow> min_age \<le> a))"
  by (auto simp: sweep_step_def Let_def split: if_splits option.splits)

lemma cold_sound:
  assumes "n \<in> set (s_cold (sweep_skills J fs invoked min_age))"
  shows "\<exists>md \<in> set (iter_root fs (j_src J)). \<not> islink fs (butlast md)
     \<and> map_of (janitor_read fs md) (lit ''installer'') = Some (lit ''auto-skill'')
     \<and> n = called_name (janitor_read fs md) (last (butlast md)) \<and> map_of invoked n \<in> {None, Some 0}"
proof -
  have "n \<in> set (s_cold (foldl (sweep_step J fs invoked min_age) w mds)) \<Longrightarrow> n \<in> set (s_cold w) \<or>
     (\<exists>md \<in> set mds. \<not> islink fs (butlast md)
     \<and> map_of (janitor_read fs md) (lit ''installer'') = Some (lit ''auto-skill'')
     \<and> n = called_name (janitor_read fs md) (last (butlast md)) \<and> map_of invoked n \<in> {None, Some 0})" for w mds
  proof (induction mds arbitrary: w)
    case (Cons md mds)
    from Cons.IH Cons.prems cold_step [of n J fs invoked min_age w md] show ?case by fastforce
  qed simp
  from this [of _ "iter_root fs (j_src J)"] assms show ?thesis unfolding sweep_skills_def by fastforce
qed

end
