(* ===== verification/Command_Lines.thy ===== *)
theory Command_Lines
  imports Arg_Parser Writer_Output Janitor_Properties
begin

text \<open>
  The command lines of \<^verbatim>\<open>auto_skill.py\<close>, \<^verbatim>\<open>collect_commit.py\<close>, \<^verbatim>\<open>sync_skills.py\<close> and \<^verbatim>\<open>janitor.py\<close>: their
  parsers, what they make of the namespace, and the programs from their arguments on. The parameter \<open>loc\<close> takes an
  argument to the place it names; no caller gives an empty path where one is required. Usage and help are texts for
  the terminal: the JSON part of such a process is \<open>None\<close>.
\<close>

definition usage_exit :: process where "usage_exit = (None, 2)"
definition help_exit :: process where "help_exit = (None, 0)"

definition any_text :: "pystr \<Rightarrow> bool" where "any_text v \<longleftrightarrow> True"

section \<open>auto_skill\<close>

definition create_opts :: "opt list" where
  "create_opts =
     [valued True any_text ''--name'' ''name'', valued True any_text ''--desc'' ''desc'',
      valued False any_text ''--body'' ''body'', valued False any_text ''--body-file'' ''body_file'',
      valued False any_text ''--dir'' ''dir'', switch ''--global'' ''g'', switch ''--stage'' ''stage'',
      switch ''--force'' ''force'', valued False any_text ''--trigger'' ''trigger'',
      valued False any_text ''--source'' ''source'', valued False any_text ''--category'' ''category'']"

definition list_opts :: "opt list" where
  "list_opts = [valued False any_text ''--dir'' ''dir'', switch ''--global'' ''g'']"

text \<open>An option \<^verbatim>\<open>args.x or default\<close> whose text is empty counts as not given.\<close>

definition place :: "(pystr \<Rightarrow> path) \<Rightarrow> pystr \<Rightarrow> path option" where
  "place loc v = (if v = [] then None else Some (loc v))"

definition create_args :: "(pystr \<Rightarrow> path) \<Rightarrow> parsed \<Rightarrow> args" where
  "create_args loc s =
     \<lparr>a_name = text_of s ''name'' [], a_desc = text_of s ''desc'' [], a_body = text_of s ''body'' [],
      a_body_file = place loc (text_of s ''body_file'' []), a_dir = place loc (text_of s ''dir'' []),
      a_global = switched s ''g'', a_stage = switched s ''stage'', a_force = switched s ''force'',
      a_trigger = text_of s ''trigger'' [], a_source = text_of s ''source'' [], a_category = text_of s ''category'' []\<rparr>"

datatype command = Create args | Validate path | ListAll "path option" bool

definition subcommands :: "(pystr \<Rightarrow> path) \<Rightarrow> (nat \<Rightarrow> bool) \<Rightarrow> (pystr \<times> (pystr list \<Rightarrow> command parse_result)) list" where
  "subcommands loc dig =
     [(lit ''create'', \<lambda>rest. map_parse_result (\<lambda>s. Create (create_args loc s)) (parse_args (options dig create_opts) rest)),
      (lit ''validate'', \<lambda>rest. map_parse_result (\<lambda>s. Validate (loc (hd (p_plain s))))
         (parse_args \<lparr>ps_opts = [], ps_pos = True, ps_digit = dig\<rparr> rest)),
      (lit ''list'', \<lambda>rest. map_parse_result (\<lambda>s. ListAll (place loc (text_of s ''dir'' [])) (switched s ''g''))
         (parse_args (options dig list_opts) rest))]"

definition auto_skill_command :: "(pystr \<Rightarrow> path) \<Rightarrow> (nat \<Rightarrow> bool) \<Rightarrow> pystr list \<Rightarrow> command parse_result" where
  "auto_skill_command loc dig argv = dispatch dig (subcommands loc dig) False argv"

definition auto_skill ::
    "writer_out \<Rightarrow> unidb \<Rightarrow> env \<Rightarrow> (pystr \<Rightarrow> path) \<Rightarrow> (nat \<Rightarrow> bool) \<Rightarrow> pystr list \<Rightarrow> node \<Rightarrow> node \<times> process" where
  "auto_skill W U E loc dig argv fs =
     (case auto_skill_command loc dig argv of
        Usage \<Rightarrow> (fs, usage_exit)
      | Help \<Rightarrow> (fs, help_exit)
      | Parsed c \<Rightarrow> (case c of
            Create a \<Rightarrow> create_process W U E a fs
          | Validate p \<Rightarrow> (fs, validate_process W p fs)
          | ListAll d g \<Rightarrow> (fs, list_process W E d g fs)))"

section \<open>collect_commit and sync_skills\<close>

definition collect_opts :: "opt list" where
  "collect_opts =
     [valued True any_text ''--repo'' ''repo'', valued True any_text ''--from'' ''src'',
      valued False (\<lambda>v. v \<in> {lit ''local'', lit ''online''}) ''--mode'' ''mode'', switch ''--push'' ''push'',
      valued False any_text ''--committer'' ''committer'']"

text \<open>\<open>env_committer\<close> is \<^verbatim>\<open>AUTO_SKILL_COMMITTER\<close>.\<close>

definition collect_program ::
    "(path \<Rightarrow> pystr) \<Rightarrow> 'g git \<Rightarrow> pystr option \<Rightarrow> (pystr \<Rightarrow> path) \<Rightarrow> (nat \<Rightarrow> bool) \<Rightarrow> pystr list \<Rightarrow> node \<Rightarrow> 'g
       \<Rightarrow> node \<times> 'g \<times> process" where
  "collect_program shown G env_committer loc dig argv fs g =
     (case parse_args (options dig collect_opts) argv of
        Usage \<Rightarrow> (fs, g, usage_exit)
      | Help \<Rightarrow> (fs, g, help_exit)
      | Parsed s \<Rightarrow>
          collect_main shown G
            (text_of s ''committer'' (case env_committer of None \<Rightarrow> lit ''oracle-skills-bot'' | Some c \<Rightarrow> c))
            (text_of s ''mode'' (lit ''local'') = lit ''online'') (switched s ''push'')
            (loc (text_of s ''repo'' [])) (loc (text_of s ''src'' [])) fs g)"

definition sync_opts :: "opt list" where
  "sync_opts = [valued True any_text ''--repo'' ''repo'', valued False any_text ''--dest'' ''dest'']"

definition sync_program ::
    "(path \<Rightarrow> pystr) \<Rightarrow> path \<Rightarrow> (pystr \<Rightarrow> path) \<Rightarrow> (nat \<Rightarrow> bool) \<Rightarrow> pystr list \<Rightarrow> node \<Rightarrow> node \<times> process" where
  "sync_program shown home loc dig argv fs =
     (case parse_args (options dig sync_opts) argv of
        Usage \<Rightarrow> (fs, usage_exit)
      | Help \<Rightarrow> (fs, help_exit)
      | Parsed s \<Rightarrow>
          sync_main shown (loc (text_of s ''repo'' []))
            (case given s ''dest'' of None \<Rightarrow> home @ [lit ''.claude'', lit ''skills''] | Some d \<Rightarrow> loc d) fs)"

section \<open>janitor\<close>

text \<open>\<open>num\<close> reads a float; infinities and \<^verbatim>\<open>nan\<close> are not modelled.\<close>

definition janitor_opts :: "(pystr \<Rightarrow> rat option) \<Rightarrow> opt list" where
  "janitor_opts num =
     [switch ''--apply'' ''apply'', valued False (\<lambda>v. num v \<noteq> None) ''--min-age-days'' ''min_age_days'',
      valued False (\<lambda>v. v \<in> set STATES) ''--state'' ''state'']"

definition janitor_program ::
    "janitor_env \<Rightarrow> (pystr \<Rightarrow> rat option) \<Rightarrow> (nat \<Rightarrow> bool) \<Rightarrow> pystr list list \<Rightarrow> pystr list \<Rightarrow> node
       \<Rightarrow> node \<times> (sweep \<times> (janitor_error + pystr list)) parse_result" where
  "janitor_program J num dig files argv fs =
     (case parse_args (options dig (janitor_opts num)) argv of
        Usage \<Rightarrow> (fs, Usage)
      | Help \<Rightarrow> (fs, Help)
      | Parsed s \<Rightarrow>
          (case janitor_main J files (switched s ''apply'')
                  (case given s ''min_age_days'' of None \<Rightarrow> 7 | Some v \<Rightarrow> the (num v))
                  (text_of s ''state'' (lit ''name-only'')) fs of
             (fs', w, r) \<Rightarrow> (fs', Parsed (w, r))))"

section \<open>What an argument can set\<close>

lemma sound_tables:
  "sound_opts create_opts" "sound_opts list_opts" "sound_opts collect_opts" "sound_opts sync_opts" "sound_opts (janitor_opts num)"
  by (simp_all add: sound_opts_def create_opts_def list_opts_def collect_opts_def sync_opts_def janitor_opts_def valued_def
      switch_def two_dashes_def lit_def)

text \<open>A command that \<^verbatim>\<open>auto_skill\<close> accepts as \<^verbatim>\<open>create\<close> was parsed by its parser from some of the arguments.\<close>

lemma dispatch_parsed:
  "dispatch dig cmds stray argv = Parsed c \<Longrightarrow>
     \<exists>n sub rest. map_of cmds n = Some sub \<and> sub rest = Parsed c \<and> set rest \<subseteq> set argv"
proof (induction dig cmds stray argv rule: dispatch.induct)
  case (2 dig cmds stray arg rest)
  show ?case
  proof (cases "classify \<lparr>ps_opts = [], ps_pos = False, ps_digit = dig\<rparr> arg")
    case Plain
    with "2.prems" show ?thesis
      by (auto split: if_splits option.splits parse_result.splits)
  next
    case Unknown
    with "2.prems" "2.IH" show ?thesis by (fastforce split: if_splits)
  next
    case (Given a v)
    with "2.prems" show ?thesis by (auto simp: helps_def split: if_splits own_value.splits)
  qed (use "2.prems" in \<open>auto split: if_splits\<close>)
qed simp

lemma parsed_map: "map_parse_result f r = Parsed c \<longleftrightarrow> (\<exists>s. r = Parsed s \<and> c = f s)"
  by (cases r) auto

lemma force_explicit:
  assumes "auto_skill_command loc dig argv = Parsed (Create a)" "a_force a"
  shows "list_ex (prefix (lit ''--f'')) argv"
proof -
  from dispatch_parsed [OF assms(1) [unfolded auto_skill_command_def]] obtain n sub rest where
    n: "map_of (subcommands loc dig) n = Some sub" "sub rest = Parsed (Create a)" "set rest \<subseteq> set argv" by blast
  from n(1) have "sub \<in> set (map snd (subcommands loc dig))" by (force dest: map_of_SomeD)
  with n(2) obtain s where s: "parse_args (options dig create_opts) rest = Parsed s" "a = create_args loc s"
    by (auto simp: subcommands_def parsed_map)
  have "switched s ''force''" using assms(2) s(2) by (simp add: create_args_def)
  from switched_explicit [OF sound_tables(1) s(1) this] have "list_ex (prefix (lit ''--f'')) rest"
    by (simp add: create_opts_def switch_def valued_def lit_def)
  with n(3) show ?thesis by (auto simp: list_ex_iff)
qed

section \<open>Writing a create command\<close>

text \<open>The command line that asks for \<open>a\<close>; \<open>apart\<close> says for which options the value is an argument of its own.\<close>

definition path_text_of :: "(path \<Rightarrow> pystr) \<Rightarrow> path option \<Rightarrow> pystr" where
  "path_text_of shown p = (case p of None \<Rightarrow> [] | Some q \<Rightarrow> shown q)"

definition create_texts :: "(path \<Rightarrow> pystr) \<Rightarrow> args \<Rightarrow> (char list \<times> pystr) list" where
  "create_texts shown a =
     [(''--name'', a_name a), (''--desc'', a_desc a), (''--body'', a_body a),
      (''--body-file'', path_text_of shown (a_body_file a)), (''--dir'', path_text_of shown (a_dir a)),
      (''--trigger'', a_trigger a), (''--source'', a_source a), (''--category'', a_category a)]"

definition create_argv :: "(char list \<Rightarrow> bool) \<Rightarrow> (path \<Rightarrow> pystr) \<Rightarrow> args \<Rightarrow> pystr list" where
  "create_argv apart shown a =
     lit ''create'' # concat (map (\<lambda>(f, v). if apart f then [lit f, v] else [lit f @ lit ''='' @ v]) (create_texts shown a))
       @ (if a_global a then [lit ''--global''] else []) @ (if a_stage a then [lit ''--stage''] else [])
       @ (if a_force a then [lit ''--force''] else [])"

definition create_parts :: "(char list \<Rightarrow> bool) \<Rightarrow> (path \<Rightarrow> pystr) \<Rightarrow> args \<Rightarrow> (bool \<times> opt \<times> pystr option) list" where
  "create_parts apart shown a =
     map (\<lambda>(i, f, v). (apart f, create_opts ! i, Some v)) (zip [0, 1, 2, 3, 4, 8, 9, 10] (create_texts shown a))
       @ (if a_global a then [(False, create_opts ! 5, None)] else []) @ (if a_stage a then [(False, create_opts ! 6, None)] else [])
       @ (if a_force a then [(False, create_opts ! 7, None)] else [])"

lemma create_argv_parts: "create_argv apart shown a = lit ''create'' # concat (map written (create_parts apart shown a))"
  by (simp add: create_argv_def create_parts_def create_texts_def create_opts_def valued_def switch_def lit_def)

lemma create_parts_writable:
  assumes "list_all (\<lambda>(f, v). apart f \<longrightarrow> v = [] \<or> hd v \<noteq> 45) (create_texts shown a)"
  shows "list_all (writable create_opts) (create_parts apart shown a)"
  using assms by (simp add: create_parts_def create_texts_def create_opts_def valued_def switch_def any_text_def)

lemma create_parts_parsed:
  assumes "place loc (path_text_of shown (a_body_file a)) = a_body_file a" "place loc (path_text_of shown (a_dir a)) = a_dir a"
  shows "create_args loc (nothing_parsed\<lparr>p_given := map recorded (create_parts apart shown a)\<rparr>) = a"
proof -
  let ?s = "nothing_parsed\<lparr>p_given := map recorded (create_parts apart shown a)\<rparr>"
  note [simp] = create_parts_def create_texts_def create_opts_def valued_def switch_def recorded_def nothing_parsed_def
  have "switched ?s ''g'' = a_global a" "switched ?s ''stage'' = a_stage a" "switched ?s ''force'' = a_force a"
    by (cases "a_global a"; cases "a_stage a"; cases "a_force a"; simp add: switched_def)+
  moreover have "text_of ?s ''name'' [] = a_name a" "text_of ?s ''desc'' [] = a_desc a" "text_of ?s ''body'' [] = a_body a"
      "text_of ?s ''body_file'' [] = path_text_of shown (a_body_file a)" "text_of ?s ''dir'' [] = path_text_of shown (a_dir a)"
      "text_of ?s ''trigger'' [] = a_trigger a" "text_of ?s ''source'' [] = a_source a" "text_of ?s ''category'' [] = a_category a"
    by (cases "a_global a"; cases "a_stage a"; cases "a_force a"; simp add: text_of_def given_def)+
  ultimately show ?thesis using assms by (simp add: create_args_def)
qed

lemma create_known: "subcommands loc dig = (lit ''create'', \<lambda>rest. map_parse_result (\<lambda>s. Create (create_args loc s))
     (parse_args (options dig create_opts) rest)) # tl (subcommands loc dig)"
  by (simp add: subcommands_def)

section \<open>Properties\<close>

text \<open>
  C17. What overwrites, publishes or edits settings must be asked for in so many letters. Whatever the arguments, their
  number and order: if none begins with \<^verbatim>\<open>--f\<close>, the shortest abbreviation of \<^verbatim>\<open>--force\<close>, \<^verbatim>\<open>auto_skill\<close> keeps every
  file with its content, save that a staged skill lengthens the queue at its end; if none begins with \<^verbatim>\<open>--p\<close>,
  what \<^verbatim>\<open>collect_commit\<close> does and prints does not depend on \<^verbatim>\<open>git push\<close>, which it never calls; if none begins with
  \<^verbatim>\<open>--a\<close>, the janitor leaves the tree as it is.
\<close>

theorem switches_are_explicit:
  "(\<not> list_ex (prefix (lit ''--f'')) argv \<longrightarrow> tget fs q = Some (File t)
      \<longrightarrow> (\<exists>u. tget (fst (auto_skill W U E loc dig argv fs)) q = Some (File (t @ u))
            \<and> (u = [] \<or> (\<exists>a. auto_skill_command loc dig argv = Parsed (Create a) \<and> a_stage a
                 \<and> resolve fs link_limit [] (queue_path E a) = Some q))))
   \<and> (\<not> list_ex (prefix (lit ''--p'')) argv
      \<longrightarrow> collect_program shown (G\<lparr>git_push := anything\<rparr>) committer loc dig argv fs g
        = collect_program shown G committer loc dig argv fs g)
   \<and> (\<not> list_ex (prefix (lit ''--a'')) argv \<longrightarrow> fst (janitor_program J num dig files argv fs) = fs)"
proof (intro conjI impI)
  assume f: "\<not> list_ex (prefix (lit ''--f'')) argv" and q: "tget fs q = Some (File t)"
  show "\<exists>u. tget (fst (auto_skill W U E loc dig argv fs)) q = Some (File (t @ u))
      \<and> (u = [] \<or> (\<exists>a. auto_skill_command loc dig argv = Parsed (Create a) \<and> a_stage a
            \<and> resolve fs link_limit [] (queue_path E a) = Some q))"
  proof (cases "\<exists>a. auto_skill_command loc dig argv = Parsed (Create a)")
    case True
    then obtain a where a: "auto_skill_command loc dig argv = Parsed (Create a)" by blast
    with force_explicit f have "\<not> a_force a" by blast
    moreover from a have "fst (auto_skill W U E loc dig argv fs) = fst (cmd_create U E a fs)"
      by (auto simp: auto_skill_def create_process_def split: prod.split sum.split)
    ultimately show ?thesis using create_appends_only [of a fs q t U E] q a by auto
  qed (use q in \<open>auto simp: auto_skill_def split: parse_result.split command.split\<close>)
next
  assume "\<not> list_ex (prefix (lit ''--p'')) argv"
  then have "\<not> switched s ''push''" if "parse_args (options dig collect_opts) argv = Parsed s" for s
    using switched_explicit [OF sound_tables(3) that, of "''push''" "lit ''--p''"]
    by (auto simp: collect_opts_def switch_def valued_def lit_def)
  then show "collect_program shown (G\<lparr>git_push := anything\<rparr>) committer loc dig argv fs g
      = collect_program shown G committer loc dig argv fs g"
    by (auto simp: collect_program_def collect_main_def publish_def Let_def split: parse_result.split prod.split sum.split)
next
  assume "\<not> list_ex (prefix (lit ''--a'')) argv"
  then have "\<not> switched s ''apply''" if "parse_args (options dig (janitor_opts num)) argv = Parsed s" for s
    using switched_explicit [OF sound_tables(5) that, of "''apply''" "lit ''--a''"]
    by (auto simp: janitor_opts_def switch_def valued_def lit_def)
  then show "fst (janitor_program J num dig files argv fs) = fs"
    by (auto simp: janitor_program_def janitor_main_def Let_def split: parse_result.split)
qed

theorem switches_are_explicit_witness:
  "(\<exists>u. tget (fst (auto_skill sample_out latin_db sample_env (\<lambda>x. [x]) is_digit [lit ''create'', lit ''--name=f'']
          (Dir [(lit ''f'', File (lit ''x''))]))) [lit ''f''] = Some (File (lit ''x'' @ u)))
   \<and> collect_program path_text (sample_git\<lparr>git_push := (\<lambda>x g. (g + 1, 0, [], []))\<rparr>) None (\<lambda>x. [x]) is_digit
        [lit ''--repo=repo'', lit ''--from=src''] sample_catalog 6
      = collect_program path_text sample_git None (\<lambda>x. [x]) is_digit [lit ''--repo=repo'', lit ''--from=src''] sample_catalog 6
   \<and> fst (janitor_program sample_janitor (\<lambda>v. None) is_digit [] [lit ''--state=off''] (Dir [])) = Dir []"
proof -
  have f: "\<not> list_ex (prefix (lit ''--f'')) [lit ''create'', lit ''--name=f'']"
      "\<not> list_ex (prefix (lit ''--p'')) [lit ''--repo=repo'', lit ''--from=src'']"
      "\<not> list_ex (prefix (lit ''--a'')) [lit ''--state=off'']"
      "tget (Dir [(lit ''f'', File (lit ''x''))]) [lit ''f''] = Some (File (lit ''x''))"
    by (simp_all add: lit_simps)
  have "\<exists>u. tget (fst (auto_skill sample_out latin_db sample_env (\<lambda>x. [x]) is_digit [lit ''create'', lit ''--name=f'']
      (Dir [(lit ''f'', File (lit ''x''))]))) [lit ''f''] = Some (File (lit ''x'' @ u))"
    by (rule ex_forward [OF switches_are_explicit [THEN conjunct1, rule_format, OF f(1,4)]]) (rule conjunct1)
  moreover have "collect_program path_text (sample_git\<lparr>git_push := (\<lambda>x g. (g + 1, 0, [], []))\<rparr>) None (\<lambda>x. [x]) is_digit
        [lit ''--repo=repo'', lit ''--from=src''] sample_catalog 6
      = collect_program path_text sample_git None (\<lambda>x. [x]) is_digit [lit ''--repo=repo'', lit ''--from=src''] sample_catalog 6"
    by (rule switches_are_explicit [THEN conjunct2, THEN conjunct1, rule_format, OF f(2)])
  moreover have "fst (janitor_program sample_janitor (\<lambda>v. None) is_digit [] [lit ''--state=off''] (Dir [])) = Dir []"
    by (rule switches_are_explicit [THEN conjunct2, THEN conjunct2, rule_format, OF f(3)])
  ultimately show ?thesis by (intro conjI)
qed

text \<open>
  C21. Round trip of the command line: what a caller writes for \<^verbatim>\<open>create\<close> is what the command gets and runs on. Every value,
  whatever its characters, arrives unchanged when it is written behind \<^verbatim>\<open>--option=\<close>; as an argument of its own it does
  when it does not begin with a dash. The shell's text of a path is not empty and names that path.
\<close>

theorem create_args_roundtrip:
  assumes "list_all (\<lambda>(f, v). apart f \<longrightarrow> v = [] \<or> hd v \<noteq> 45) (create_texts shown a)"
    and "\<And>p. a_body_file a = Some p \<or> a_dir a = Some p \<Longrightarrow> shown p \<noteq> [] \<and> loc (shown p) = p"
  shows "auto_skill_command loc dig (create_argv apart shown a) = Parsed (Create a)
    \<and> auto_skill W U E loc dig (create_argv apart shown a) fs = create_process W U E a fs"
proof -
  let ?ys = "create_parts apart shown a"
  have places: "place loc (path_text_of shown (a_body_file a)) = a_body_file a" "place loc (path_text_of shown (a_dir a)) = a_dir a"
    using assms(2) by (auto simp: place_def path_text_of_def split: option.split)
  have "list_all (\<lambda>x. o_needed x \<longrightarrow> o_dest x \<in> fst ` set (map recorded ?ys)) create_opts"
    by (simp add: create_opts_def create_parts_def create_texts_def valued_def switch_def recorded_def)
  from parse_args_written [OF sound_tables(1) create_parts_writable [OF assms(1)] this]
  have "parse_args (options dig create_opts) (concat (map written ?ys)) = Parsed (nothing_parsed\<lparr>p_given := map recorded ?ys\<rparr>)" .
  moreover have "classify \<lparr>ps_opts = [], ps_pos = False, ps_digit = dig\<rparr> (lit ''create'') = Plain" "lit ''create'' \<noteq> two_dashes"
    by (simp_all add: classify_def two_dashes_def lit_simps)
  ultimately have "auto_skill_command loc dig (create_argv apart shown a) = Parsed (Create a)"
    unfolding auto_skill_command_def create_argv_parts
    by (subst create_known) (simp add: create_parts_parsed [OF places])
  then show ?thesis by (simp add: auto_skill_def)
qed

theorem create_args_roundtrip_witness:
  "auto_skill_command (\<lambda>x. [x]) is_digit
     (create_argv (\<lambda>f. f = ''--name'') hd (sample_args\<lparr>a_body := lit ''--force'', a_stage := True\<rparr>))
   = Parsed (Create (sample_args\<lparr>a_body := lit ''--force'', a_stage := True\<rparr>))"
  by (rule create_args_roundtrip [THEN conjunct1]) (auto simp: create_texts_def sample_args_def lit_simps)

text \<open>
  Written apart, a value that begins with a dash and has no space is taken for an option: the command ends with exit
  code 2, the code of a refused conflict, and prints no JSON.
\<close>

lemma dashed_value_is_usage:
  "auto_skill_command loc is_digit [lit ''create'', lit ''--name'', lit ''n'', lit ''--desc'', lit ''-v'']
     = Usage"
  by code_simp

end
