(* ===== verification/Build_Pairs.thy ===== *)
theory Build_Pairs
  imports Py_Json Py_Regex "HOL-Library.AList"
begin

text \<open>
  \<^verbatim>\<open>skills-mcp/eval/build_pairs.py\<close>: harvesting (prompt, skill) pairs from the records of transcripts and
  keeping the closest of each. \<open>None\<close> is an exception, which ends the program.
\<close>

section \<open>Prompts\<close>

definition SYNTHETIC :: "pystr list" where
  "SYNTHETIC = map lit [''<task-notification>'', ''<command-name>'', ''<command-message>'', ''<local-command'',
     ''<system-reminder>'', ''[Request interrupted'', ''Caveat:'',
     ''This session is being continued'', ''<user-prompt-submit-hook>'', ''<ide_selection>'']"

definition LIFECYCLE_SKILLS :: "pystr list" where
  "LIFECYCLE_SKILLS = map lit [''rrr'', ''awaken'', ''where-we-are'', ''incubate'', ''handoff'']"

definition INBOX_BANNER :: pystr where "INBOX_BANNER = lit ''unread messages in inbox''"
definition MIN_QUERY_CHARS :: nat where "MIN_QUERY_CHARS = 12"

text \<open>
  A lower-case letter under \<^verbatim>\<open>re.IGNORECASE\<close>: itself, its capital, and the characters outside ASCII that fold
  to it (long s, the two Turkish i's, the Kelvin sign).
\<close>

definition ignore_case :: "nat \<Rightarrow> nat \<Rightarrow> bool" where
  "ignore_case c x \<longleftrightarrow> x = c \<or> (is_lower c \<and> x + 32 = c) \<or> (c = 115 \<and> x = 383) \<or> (c = 105 \<and> x \<in> {304, 305})
     \<or> (c = 107 \<and> x = 8490)"

fun StrI :: "pystr \<Rightarrow> regex" where
  "StrI [] = Eps"
| "StrI (c # cs) = Seq (Cls (ignore_case c)) (StrI cs)"

definition thai :: "nat list list" where
  "thai = [[3605, 3656, 3629], [3621, 3640, 3618], [3607, 3635, 3648, 3621, 3618], [3648, 3629, 3634, 3648, 3621, 3618],
     [3588, 3619, 3633, 3610], [3588, 3656, 3632]]"

definition one_of :: "pystr list \<Rightarrow> regex" where
  "one_of ws = foldr (\<lambda>w r. Alt (StrI w) r) (butlast ws) (StrI (last ws))"

definition NON_QUERY :: "unidb \<Rightarrow> regex" where
  "NON_QUERY U = Seq Bol (Seq (Grp 1 (one_of
       (map lit [''yes'', ''no'', ''ok'', ''okay'', ''continue'', ''go'', ''go ahead''] @ thai)))
     (Seq (star (Cls (\<lambda>c. \<not> word_cp U c))) Eol))"

definition is_query :: "unidb \<Rightarrow> pystr \<Rightarrow> bool" where
  "is_query U s \<longleftrightarrow>
     \<not> (length s < MIN_QUERY_CHARS \<or> list_ex (\<lambda>p. prefix p s) SYNTHETIC \<or> prefix (lit ''/'') s)
     \<and> \<not> (contains INBOX_BANNER s \<or> re_match (word_cp U) (NON_QUERY U) (py_strip s) \<noteq> None)"

text \<open>\<^verbatim>\<open>x.get(k, d)\<close>.\<close>

definition get_or :: "(pystr \<times> json) list \<Rightarrow> pystr \<Rightarrow> json \<Rightarrow> json" where
  "get_or kvs k d = (case map_of kvs k of None \<Rightarrow> d | Some v \<Rightarrow> v)"

definition message_content :: "(pystr \<times> json) list \<Rightarrow> json option" where
  "message_content r =
     (case get_or r (lit ''message'') (JObj []) of JObj m \<Rightarrow> Some (jget m (lit ''content'')) | _ \<Rightarrow> None)"

fun text_blocks :: "json list \<Rightarrow> pystr list option" where
  "text_blocks [] = Some []"
| "text_blocks (JObj c # cs) =
     (if jget c (lit ''type'') = JStr (lit ''text'')
      then (case get_or c (lit ''text'') (JStr []) of JStr s \<Rightarrow> map_option (Cons s) (text_blocks cs) | _ \<Rightarrow> None)
      else text_blocks cs)"
| "text_blocks (_ # cs) = text_blocks cs"

definition record_text :: "(pystr \<times> json) list \<Rightarrow> pystr option" where
  "record_text r =
     (case message_content r of
        None \<Rightarrow> None
      | Some (JStr s) \<Rightarrow> Some s
      | Some (JArr cs) \<Rightarrow> map_option (py_join [32]) (text_blocks cs)
      | Some _ \<Rightarrow> Some [])"

section \<open>The harvest\<close>

record pair =
  p_query :: pystr
  p_expect :: pystr
  p_distance :: nat

record gather =
  g_prompt :: "pystr option"
  g_distance :: nat
  g_pairs :: "pair list"
  g_dictated :: nat

definition one_block :: "unidb \<Rightarrow> gather \<Rightarrow> json \<Rightarrow> gather option" where
  "one_block U g block =
     (case block of
        JObj b \<Rightarrow>
          if jget b (lit ''type'') \<noteq> JStr (lit ''tool_use'') \<or> jget b (lit ''name'') \<noteq> JStr (lit ''Skill'') then Some g
          else (case jor (jget b (lit ''input'')) (JObj []) of
                  JObj i \<Rightarrow>
                    (let skill = jget i (lit ''skill'')
                     in case (if truthy skill then g_prompt g else None) of
                          None \<Rightarrow> Some g
                        | Some q \<Rightarrow>
                            (case skill of
                               JStr s \<Rightarrow>
                                 if contains (py_lower U s) (py_lower U q)
                                 then Some (g\<lparr>g_dictated := Suc (g_dictated g)\<rparr>)
                                 else Some (g\<lparr>g_pairs := g_pairs g @ [\<lparr>p_query = q, p_expect = s, p_distance = g_distance g\<rparr>]\<rparr>)
                             | _ \<Rightarrow> None))
                | _ \<Rightarrow> None)
      | _ \<Rightarrow> Some g)"

fun foldo :: "('s \<Rightarrow> 'a \<Rightarrow> 's option) \<Rightarrow> 's \<Rightarrow> 'a list \<Rightarrow> 's option" where
  "foldo f s [] = Some s"
| "foldo f s (x # xs) = (case f s x of None \<Rightarrow> None | Some s' \<Rightarrow> foldo f s' xs)"

definition content_blocks :: "json \<Rightarrow> json list option" where
  "content_blocks v =
     (if \<not> truthy v then Some []
      else case v of
             JArr xs \<Rightarrow> Some xs
           | JObj kvs \<Rightarrow> Some (map (JStr \<circ> fst) kvs)
           | JStr s \<Rightarrow> Some (map (\<lambda>c. JStr [c]) s)
           | _ \<Rightarrow> None)"

definition one_record :: "unidb \<Rightarrow> gather \<Rightarrow> json \<Rightarrow> gather option" where
  "one_record U g rec =
     (case rec of
        JObj r \<Rightarrow>
          if truthy (jget r (lit ''isSidechain'')) then Some g
          else if jget r (lit ''type'') = JStr (lit ''user'') \<and> \<not> truthy (jget r (lit ''isMeta'')) then
            map_option (\<lambda>t. let s = py_strip t
                            in if is_query U s then g\<lparr>g_prompt := Some s, g_distance := 0\<rparr> else g) (record_text r)
          else if jget r (lit ''type'') = JStr (lit ''assistant'') then
            (case message_content r of
               None \<Rightarrow> None
             | Some c \<Rightarrow>
                 (case content_blocks c of
                    None \<Rightarrow> None
                  | Some bs \<Rightarrow> foldo (one_block U) (g\<lparr>g_distance := Suc (g_distance g)\<rparr>) bs))
          else Some g
      | _ \<Rightarrow> None)"

text \<open>One file: the lines that parse, with the prompt and the distance reset at its start.\<close>

definition one_file :: "unidb \<Rightarrow> (pystr \<Rightarrow> json option) \<Rightarrow> gather \<Rightarrow> pystr list \<Rightarrow> gather option" where
  "one_file U parse g lines =
     foldo (one_record U) (g\<lparr>g_prompt := None, g_distance := 0\<rparr>) (List.map_filter parse lines)"

text \<open>The closest occurrence of each (query, skill), in the order of first occurrence.\<close>

definition pair_key :: "pair \<Rightarrow> pystr \<times> pystr" where
  "pair_key p = (p_query p, p_expect p)"

definition keep_closer :: "((pystr \<times> pystr) \<times> pair) list \<Rightarrow> pair \<Rightarrow> ((pystr \<times> pystr) \<times> pair) list" where
  "keep_closer best p =
     (case map_of best (pair_key p) of
        None \<Rightarrow> AList.update (pair_key p) p best
      | Some b \<Rightarrow> if p_distance p < p_distance b then AList.update (pair_key p) p best else best)"

definition closest :: "pair list \<Rightarrow> pair list" where
  "closest ps = map snd (foldl keep_closer [] ps)"

definition harvest :: "unidb \<Rightarrow> (pystr \<Rightarrow> json option) \<Rightarrow> pystr list list \<Rightarrow> (pair list \<times> nat) option" where
  "harvest U parse files =
     map_option (\<lambda>g. (closest (g_pairs g), g_dictated g))
       (foldo (one_file U parse) \<lparr>g_prompt = None, g_distance = 0, g_pairs = [], g_dictated = 0\<rparr> files)"

definition selected :: "nat \<Rightarrow> bool \<Rightarrow> bool \<Rightarrow> pystr set \<Rightarrow> pair list \<Rightarrow> pair list" where
  "selected max_distance keep_lifecycle keep_unindexed indexed ps =
     filter (\<lambda>p. (max_distance = 0 \<or> p_distance p \<le> max_distance)
       \<and> (keep_lifecycle \<or> p_expect p \<notin> set LIFECYCLE_SKILLS)
       \<and> (keep_unindexed \<or> p_expect p \<in> indexed)) ps"

section \<open>Laws\<close>

definition best_inv :: "pair list \<Rightarrow> ((pystr \<times> pystr) \<times> pair) list \<Rightarrow> bool" where
  "best_inv ps best \<longleftrightarrow> distinct (map fst best)
     \<and> (\<forall>k p. map_of best k = Some p \<longrightarrow> p \<in> set ps \<and> pair_key p = k)
     \<and> (\<forall>q\<in>set ps. \<exists>p. map_of best (pair_key q) = Some p \<and> p_distance p \<le> p_distance q)"

text \<open>Whichever way the step goes, the entry of the pair's key is the nearer of the two and no other changes.\<close>

lemma keep_closer_map:
  "map_of (keep_closer best p) =
     (map_of best)(pair_key p \<mapsto> (case map_of best (pair_key p) of None \<Rightarrow> p
        | Some b \<Rightarrow> if p_distance p < p_distance b then p else b))"
  by (auto simp: keep_closer_def update_conv' fun_eq_iff split: option.splits)

lemma keep_closer_distinct: "distinct (map fst best) \<Longrightarrow> distinct (map fst (keep_closer best p))"
  by (auto simp: keep_closer_def distinct_update split: option.splits)

lemma best_inv_step:
  assumes "best_inv ps best"
  shows "best_inv (ps @ [p]) (keep_closer best p)"
proof -
  let ?n = "case map_of best (pair_key p) of None \<Rightarrow> p | Some b \<Rightarrow> if p_distance p < p_distance b then p else b"
  have n: "?n \<in> set (ps @ [p])" "pair_key ?n = pair_key p" "p_distance ?n \<le> p_distance p"
  proof -
    have b: "b \<in> set ps \<and> pair_key b = pair_key p" if "map_of best (pair_key p) = Some b" for b
      using assms that unfolding best_inv_def by blast
    have "?n \<in> set (ps @ [p]) \<and> pair_key ?n = pair_key p \<and> p_distance ?n \<le> p_distance p"
    proof (cases "map_of best (pair_key p)")
      case (Some x)
      from b [OF this] Some show ?thesis by simp
    qed simp
    then show "?n \<in> set (ps @ [p])" "pair_key ?n = pair_key p" "p_distance ?n \<le> p_distance p" by blast+
  qed
  have near: "p_distance ?n \<le> p_distance b" if "map_of best (pair_key p) = Some b" for b
    using that by simp
  have "\<exists>r. map_of (keep_closer best p) (pair_key q) = Some r \<and> p_distance r \<le> p_distance q" if q: "q \<in> set (ps @ [p])" for q
  proof (cases "pair_key q = pair_key p")
    case True
    show ?thesis
    proof (cases "q = p")
      case True
      with n(3) show ?thesis by (simp add: keep_closer_map)
    next
      case False
      with q assms obtain b where "map_of best (pair_key q) = Some b" "p_distance b \<le> p_distance q"
        by (auto simp: best_inv_def)
      with near [of b] True show ?thesis by (simp add: keep_closer_map)
    qed
  next
    case False
    with q assms show ?thesis by (auto simp: best_inv_def keep_closer_map)
  qed
  moreover have "r \<in> set (ps @ [p]) \<and> pair_key r = k" if "map_of (keep_closer best p) k = Some r" for k r
  proof (cases "k = pair_key p")
    case True
    with that n(1,2) show ?thesis by (auto simp: keep_closer_map)
  next
    case False
    with that have "map_of best k = Some r" by (simp add: keep_closer_map)
    with assms have "r \<in> set ps" "pair_key r = k" unfolding best_inv_def by blast+
    then show ?thesis by simp
  qed
  moreover have "distinct (map fst (keep_closer best p))" using assms by (simp add: best_inv_def keep_closer_distinct)
  ultimately show ?thesis unfolding best_inv_def by blast
qed

text \<open>
  Of every (query, skill) that occurs one pair is kept, one that occurred, at the least distance.
\<close>

lemma closest_spec:
  "distinct (map pair_key (closest ps)) \<and> set (closest ps) \<subseteq> set ps
   \<and> (\<forall>q\<in>set ps. \<exists>p\<in>set (closest ps). pair_key p = pair_key q \<and> p_distance p \<le> p_distance q)"
proof -
  have "best_inv ps (foldl keep_closer [] ps)"
  proof (induction ps rule: rev_induct)
    case Nil
    show ?case by (simp add: best_inv_def)
  next
    case (snoc p ps)
    then show ?case by (simp add: best_inv_step)
  qed
  note inv = this [unfolded best_inv_def]
  let ?b = "foldl keep_closer [] ps"
  have m: "map_of ?b (fst kp) = Some (snd kp)" if "kp \<in> set ?b" for kp
    using inv that by simp
  have at: "snd kp \<in> set ps \<and> pair_key (snd kp) = fst kp" if "kp \<in> set ?b" for kp
    using inv m [OF that] by blast
  then have "map pair_key (map snd ?b) = map fst ?b" by simp
  moreover have "set (map snd ?b) \<subseteq> set ps" using at by auto
  moreover have "\<exists>p\<in>set (map snd ?b). pair_key p = pair_key q \<and> p_distance p \<le> p_distance q" if "q \<in> set ps" for q
  proof -
    from inv that obtain p where p: "map_of ?b (pair_key q) = Some p" "p_distance p \<le> p_distance q" by blast
    then have "p \<in> set (map snd ?b)" by (force dest: map_of_SomeD)
    moreover have "pair_key p = pair_key q" using inv p(1) by blast
    ultimately show ?thesis using p(2) by blast
  qed
  ultimately show ?thesis using inv unfolding closest_def by metis
qed

text \<open>An approval with any punctuation is no query; a request that begins with one is.\<close>

lemma is_query_examples:
  "\<not> is_query latin_db (lit ''Go ahead !!!!'')"
  "\<not> is_query latin_db (lit ''/commit the changes'')"
  "is_query latin_db (lit ''yes, fix the parser'')"
  by code_simp+

end
