(* ===== verification/Eval_Run.thy ===== *)
theory Eval_Run
  imports Mcp_Catalog Build_Pairs
begin

text \<open>
  The rest of \<^verbatim>\<open>skills-mcp/eval/build_pairs.py\<close>, and the environment \<^verbatim>\<open>run_eval.py\<close> takes over before it imports the
  server. Its scoring is not modelled: it calls functions of a ranker that \<^verbatim>\<open>server.py\<close> no longer has, so that the
  script raises at its first pair. Every exception is \<open>None\<close>.
\<close>

section \<open>Writing the pairs\<close>

text \<open>\<open>scaled q n\<close> is \<^verbatim>\<open>int(q / 10 * n)\<close> in floating point.\<close>

definition deciles :: "(nat \<Rightarrow> nat \<Rightarrow> nat) \<Rightarrow> pair list \<Rightarrow> (nat list \<times> nat) option" where
  "deciles scaled ps =
     (if ps = [] then None
      else let ordered = sort (map p_distance ps)
           in Some (map (\<lambda>q. ordered ! min (scaled q (length ordered)) (length ordered - 1)) [1..<10], last ordered))"

record pairs_report =
  pr_deciles :: "(nat list \<times> nat) option"
  pr_dropped :: "nat option \<times> nat option \<times> nat option"
  pr_written :: "pair list"
  pr_dictated :: nat

text \<open>Each filter says how many pairs it dropped, if it is on; the last keeps the skills the server lists.\<close>

definition filtered :: "bool \<Rightarrow> (pair \<Rightarrow> bool) \<Rightarrow> pair list \<Rightarrow> pair list \<times> nat option" where
  "filtered on keep ps =
     (if on then (filter keep ps, Some (length ps - length (filter keep ps))) else (ps, None))"

definition write_pairs ::
    "(nat \<Rightarrow> nat \<Rightarrow> nat) \<Rightarrow> nat \<Rightarrow> bool \<Rightarrow> bool \<Rightarrow> entry list \<Rightarrow> pair list \<times> nat \<Rightarrow> pairs_report" where
  "write_pairs scaled max_distance keep_lifecycle keep_unindexed entries h =
     (let (ps0, dictated) = h;
          (ps1, d1) = filtered (max_distance \<noteq> 0) (\<lambda>p. p_distance p \<le> max_distance) ps0;
          (ps2, d2) = filtered (\<not> keep_lifecycle) (\<lambda>p. p_expect p \<notin> set LIFECYCLE_SKILLS) ps1;
          (ps3, d3) = filtered (\<not> keep_unindexed) (\<lambda>p. p_expect p \<in> e_name ` set entries) ps2
      in \<lparr>pr_deciles = deciles scaled ps0, pr_dropped = (d1, d2, d3), pr_written = ps3, pr_dictated = dictated\<rparr>)"

lemma write_pairs_selected:
  "pr_written (write_pairs scaled m kl ku entries (ps, d)) = selected m kl ku (e_name ` set entries) ps"
  by (auto simp: write_pairs_def filtered_def selected_def Let_def intro!: filter_cong)

lemma deciles_bounded:
  assumes "deciles scaled ps = Some (ds, m)"
  shows "length ds = 9 \<and> list_all (\<lambda>d. d \<le> m \<and> d \<in> p_distance ` set ps) ds \<and> m \<in> p_distance ` set ps"
proof -
  let ?o = "sort (map p_distance ps)"
  from assms have ps: "ps \<noteq> []" and ds: "ds = map (\<lambda>q. ?o ! min (scaled q (length ?o)) (length ?o - 1)) [1..<10]"
    and m: "m = last ?o" by (auto simp: deciles_def Let_def split: if_splits)
  have o: "?o \<noteq> []" "set ?o = p_distance ` set ps" using ps by (simp_all add: sort_key_simps(1) flip: set_empty)
  have "?o ! i \<le> last ?o" if "i < length ?o" for i
    using that o(1) sorted_nth_mono [of ?o i "length ?o - 1"] by (simp add: last_conv_nth)
  moreover have "?o ! i \<in> set ?o" if "i < length ?o" for i using that by (rule nth_mem)
  moreover have "min j (length ?o - 1) < length ?o" for j using o(1) by (cases ?o) auto
  moreover have "last ?o \<in> set ?o" using o(1) by (rule last_in_set)
  ultimately show ?thesis unfolding ds m o(2) [symmetric] by (simp add: list_all_iff del: set_sort)
qed

section \<open>The server's environment\<close>

text \<open>
  \<^verbatim>\<open>_adopt_production_env\<close>: what the registration of the server sets is put into the environment where that has nothing.
  A configuration that cannot be read gives nothing; one of another shape raises.
\<close>

definition sub_dict :: "(pystr \<times> json) list \<Rightarrow> char list \<Rightarrow> (pystr \<times> json) list option" where
  "sub_dict d k = jdict (jor (jget d (lit k)) (JObj []))"

text \<open>\<^verbatim>\<open>os.environ\<close> refuses a name that is empty or has an equals sign, and NUL bytes.\<close>

definition bad_variable :: "pystr \<Rightarrow> pystr \<Rightarrow> bool" where
  "bad_variable k s \<longleftrightarrow> k = [] \<or> 61 \<in> set k \<or> 0 \<in> set (k @ s)"

fun adopt_all :: "(pystr \<times> json) list \<Rightarrow> (pystr \<times> pystr) list \<Rightarrow> ((pystr \<times> pystr) list \<times> (pystr \<times> pystr) list) option" where
  "adopt_all [] environ = Some (environ, [])"
| "adopt_all ((k, v) # kvs) environ =
     (if map_of environ k \<notin> {None, Some []} then adopt_all kvs environ
      else case v of
             JStr s \<Rightarrow> if bad_variable k s then None
               else map_option (\<lambda>(e, ad). (e, (k, s) # ad)) (adopt_all kvs (AList.update k s environ))
           | _ \<Rightarrow> None)"

definition adopt_env :: "json option \<Rightarrow> (pystr \<times> pystr) list \<Rightarrow> ((pystr \<times> pystr) list \<times> (pystr \<times> pystr) list) option" where
  "adopt_env config environ =
     (case config of
        None \<Rightarrow> Some (environ, [])
      | Some j \<Rightarrow>
          Option.bind (jdict j) (\<lambda>top. Option.bind (sub_dict top ''mcpServers'') (\<lambda>servers.
            Option.bind (sub_dict servers ''skills'') (\<lambda>entry. Option.bind (sub_dict entry ''env'') (\<lambda>env.
              adopt_all env environ)))))"

text \<open>What is set already stays; only missing or empty variables are filled.\<close>

lemma adopt_all_keeps:
  "adopt_all kvs environ = Some (environ', ad) \<Longrightarrow> map_of environ k = Some v \<Longrightarrow> v \<noteq> [] \<Longrightarrow> map_of environ' k = Some v"
proof (induction kvs environ arbitrary: environ' ad rule: adopt_all.induct)
  case (2 k' w kvs environ)
  show ?case
  proof (cases "map_of environ k' \<notin> {None, Some []}")
    case True
    then show ?thesis using 2 by simp
  next
    case False
    then obtain s e a where w: "w = JStr s" "adopt_all kvs (AList.update k' s environ) = Some (e, a)" "environ' = e"
      using "2.prems"(1) by (auto split: json.splits if_splits)
    moreover have "map_of (AList.update k' s environ) k = Some v" using False "2.prems"(2,3) by (auto simp: update_conv')
    ultimately show ?thesis using "2.IH"(2) [OF False w(1) _ w(2) _ "2.prems"(3)] "2.prems"(1) False by (simp split: if_splits)
  qed
qed simp

end
