(* ===== verification/Spec2Isabelle.thy ===== *)
theory Spec2Isabelle
  imports Sync_Mirror Mcp_Session Writer_Output Writer_Race Skill_Lifecycle Report_Properties Command_Lines Eval_Run
begin

text \<open>
  \<^bold>\<open>The oracle skills, verified.\<close>

  The repository keeps a catalog of skills (directories with a \<^verbatim>\<open>SKILL.md\<close>) that agents write themselves,
  and the tools around it. One program writes a skill, one gathers the skills of all agents into the
  catalog and publishes it, one copies the catalog back to where the agents look, one serves the catalog
  over MCP, and small hooks and reports watch over the rest. All of them meet in the file system and in
  the frontmatter of \<^verbatim>\<open>SKILL.md\<close>. This library models the Python programs on a common tree of files and
  proves what they promise each other and their users.

  \<^bold>\<open>Foundations.\<close>
  \<^item> \<open>Oracle_Prelude\<close>: Python's strings as lists of code points, with \<^verbatim>\<open>strip\<close>, \<^verbatim>\<open>split\<close>, \<^verbatim>\<open>splitlines\<close>,
    \<^verbatim>\<open>replace\<close>, \<^verbatim>\<open>count\<close>, \<^verbatim>\<open>lower\<close> and universal newlines, and their laws. Case and category of characters
    above Latin 1 are a parameter (\<open>unidb\<close>); \<open>latin_db\<close> is the instance the examples use.
  \<^item> \<open>File_Tree\<close>: files, links and directories, path resolution as \<^verbatim>\<open>realpath\<close> does it, and the operations
    of \<^verbatim>\<open>os\<close> and \<^verbatim>\<open>shutil\<close> with their errors as values. At most 40 links are followed (\<open>link_limit\<close>, the
    kernel's own bound, after which it reports a loop). The locale \<open>tree_store\<close> has the frame laws.
  \<^item> \<open>Py_Regex\<close>: the part of \<^verbatim>\<open>re\<close> in use, a backtracking matcher in Python's order of preference. The
    fuel of a repetition is one more than the length of the text, enough because every copy moves on.
  \<^item> \<open>Py_Json\<close>: the values of \<^verbatim>\<open>json\<close> and YAML with truth, \<^verbatim>\<open>or\<close>, \<^verbatim>\<open>get\<close>, \<^verbatim>\<open>str\<close> and \<^verbatim>\<open>dict\<close>.
  \<^item> \<open>Frontmatter\<close>: the writer's and the janitor's reader and the scalar writer. Locales \<open>scalar_codec\<close>
    and \<open>frontmatter_reader\<close> state what a codec and a reader owe; both readers are interpretations.

  \<^bold>\<open>The writer\<close>, \<^verbatim>\<open>auto-skill/scripts/auto_skill.py\<close>.
  \<open>Skill_Writer\<close> has the repair of inputs (\<open>kebab\<close>, \<open>fit_desc\<close>), \<open>render\<close>, the duplicate report and the commands
  \<open>cmd_create\<close>, \<open>cmd_validate\<close>, \<open>cmd_list\<close>. \<open>Writer_Store\<close> follows \<open>cmd_create\<close> through the tree;
  \<open>Writer_Properties\<close> has the properties: nothing is lost without \<^verbatim>\<open>--force\<close>, what is created reads back,
  is valid and listed, creating it again changes nothing, invalid input changes nothing. \<open>Writer_Output\<close> has the line each
  command prints, with its messages, and its exit code, which \<open>create_exit_truth\<close> shows can be relied on. \<open>Writer_Race\<close> is
  the same command run by several processes at once, as a step relation on the system calls: one winner,
  no stuck state, and the window in which an identical skill is refused.

  \<^bold>\<open>The catalog\<close>, \<^verbatim>\<open>tools/collect_commit.py\<close> and \<^verbatim>\<open>tools/sync_skills.py\<close>.
  \<open>Catalog_Paths\<close> has the checks both tools copy (\<open>bad_segment\<close>, \<open>inside\<close>) and the walk, with the locales
  \<open>segment_check\<close> (what an accepted name owes) and \<open>kept_relation\<close> (relations every step of a run keeps).
  \<open>Collect_Commit\<close> is the collecting loop and the publishing sequence over a parameter for git;
  \<open>Collect_Properties\<close> shows confinement below \<^verbatim>\<open>skills/\<close>, that every skill is accounted for, that renaming
  ends, and that publishing reports a commit only when there is one. \<open>Sync_Skills\<close> is the sync; \<open>Sync_Properties\<close>
  shows that its copied helpers are the same functions, that it changes nothing outside its destination,
  keeps hand-written skills, copies the catalog and archives what left it. \<open>Live_Walk\<close> is the loop both tools run as it
  is: a walk that lists a directory when it comes to it, while the body already changes the tree, as a partial
  function. Its locale \<open>live_walk\<close> is the contract under which the walk may be read as one look at the tree; \<open>Collect_Live\<close>
  and \<open>Sync_Mirror\<close> interpret it and close the two runs (\<open>collect_live\<close>, \<open>sync_live\<close>). \<open>Sync_Mirror\<close> also shows that after
  a sync the destination has the catalog.

  \<^bold>\<open>The librarian\<close>, \<^verbatim>\<open>skills-mcp/server.py\<close>.
  \<open>Mcp_Frontmatter\<close>: the YAML reader with its flat fallback and the in-place editing of a head.
  \<open>Mcp_Catalog\<close>: roots, entries, the cache (locale \<open>memoised\<close>, interpreted on \<open>parse_entry\<close>), the index and
  its specification \<open>first_wins\<close>. \<open>Mcp_Tools\<close>: requirements, \<^verbatim>\<open>skills_list\<close>, \<^verbatim>\<open>skill_view\<close>, \<^verbatim>\<open>skill_patch\<close> and
  the JSON-RPC loop; the state is the tree and the cache, \<open>server\<close>. \<open>Mcp_Serving\<close> shows that the cached
  index refines its specification, that what is listed can be viewed, that only files inside a skill are
  served, that hiding has a reason, and that every line is answered as JSON-RPC or this server has it, once and in order, up
  to a line on which \<^verbatim>\<open>json.loads\<close> raises what the loop does not catch (\<open>m_aborts\<close>): that ends it.
  \<open>Mcp_Patching\<close> shows that a patch is all or nothing and that the hash it stamps is true. \<open>Mcp_Wire\<close> has the
  declared tools with their input schemas and the JSON of every reply; calls that have the declared type
  do not crash. \<open>Mcp_Session\<close> is a run of the server from its start, with the tree changed by others between two
  lines: the cache is bounded and never stale, no client can tell it is there, and a patch is seen by the
  next view. That stamps tell contents apart is the hypothesis \<open>stamped\<close> on the history of the tree.

  \<^bold>\<open>The life of a skill.\<close> \<open>Skill_Lifecycle\<close> joins the programs: the server reads what the writer renders (a
  third interpretation of \<open>frontmatter_reader\<close>) and computes the same hash, the writer's names pass the catalog's
  checks, and each walk finds what the step before has left. The two theorems at the end of this theory
  follow a skill from \<open>cmd_create\<close> through collecting and syncing to another agent, and to \<open>tool_skill_view\<close>.

  \<^bold>\<open>Around it.\<close>
  \<open>Janitor\<close> and \<open>Janitor_Properties\<close> (\<^verbatim>\<open>skills-mcp/janitor.py\<close>): the sweep for cold skills and the guarded edit
  of the settings. Every file operation of the edit can fail or tear the file it writes (\<open>j_fault\<close>); the settings are lost only where
  the last, restoring copy fails, and then the backup has them. \<open>Inventory_Hook\<close> (\<^verbatim>\<open>skills-mcp/inventory-hook.py\<close>).
  \<open>Listing_Report\<close> and \<open>Listing_Properties\<close> (\<^verbatim>\<open>skills-mcp/eval/listing_report.py\<close>): the parser that accounts for
  every character, the search through a record, the simulated fit. \<open>Listing_Main\<close> and \<open>Report_Properties\<close>: the report
  \<^verbatim>\<open>main\<close> prints, as a value; its saving, its demoted sessions and its weekly table are exact. \<open>Build_Pairs\<close>
  (\<^verbatim>\<open>skills-mcp/eval/build_pairs.py\<close>): harvesting and the closest pairs. \<open>Eval_Run\<close>: what it writes, and the environment
  \<^verbatim>\<open>skills-mcp/eval/run_eval.py\<close> takes over. \<open>Bash_Guard\<close> (\<^verbatim>\<open>rules/bash_guard.py\<close>):
  denials are narrow and catch what they must. \<open>Rule_Injector\<close> (\<^verbatim>\<open>rules/inject_rules.py\<close>): silence for other
  directories, both rule files or a line naming the missing one, and no role leads out of the directory.
  \<open>Tool_Mains\<close> closes the collector, the sync and the three hooks to processes: text of standard input in, one JSON
  object and an exit code out. The collector's report names every skill and claims only what happened. Exceptions of the
  hooks are values that their handlers turn into exit codes: the guard fails open on every input, the injector on all but a name that
  standard output, strict UTF-8, cannot encode. \<open>Arg_Parser\<close> models what the tools use of \<^verbatim>\<open>argparse\<close>, abbreviations included, and
  \<open>Command_Lines\<close> closes the writer, the collector, the sync and the janitor to their arguments: what overwrites,
  publishes or edits must be asked for, and what is written behind \<^verbatim>\<open>=\<close> arrives.

  \<^bold>\<open>Parameters.\<close> SHA-256, clocks and timestamps, the environment, git, the JSON and YAML libraries,
  floating powers, \<^verbatim>\<open>which\<close>, modification times and the random name of \<^verbatim>\<open>mkstemp\<close> are arguments or record fields;
  a theorem that needs more of them says so in a named hypothesis (\<open>env_ok\<close>, \<open>coherent\<close>, \<open>stamped\<close>, \<open>dumps_objects\<close>,
  and \<open>yaml_agrees\<close>: YAML reads this head as the flat reader does), and
  its witness instantiates them. Files hold decoded text, in which a surrogate stands for a byte
  that is not UTF-8; the rule injector, the janitor and the hooks' output refuse it (\<open>utf8_ok\<close>), elsewhere encoding errors are not modelled. Outside the
  janitor the writes of small files are single steps that do not tear.

  \<^bold>\<open>Bounds and fuel.\<close> Besides the links and the repetitions above, \<open>find_groups\<close> searches at most once more
  than the line has characters, as every match consumes some. The walks of the collector and the sync are partial functions, shown to
  end where the skills lie apart from the copies. All other loops are total functions.

  \<^bold>\<open>Not modelled.\<close> Usage and help texts, the command lines of the evaluations, messages to standard error, the layout of reports that are printed as text
  (the janitor, the evaluations); what is printed as JSON is exact but for the texts of
  exceptions. Set-up of the server's streams, logging, a reply whose id is nested too
  deeply for \<^verbatim>\<open>json.dumps\<close>, and configuration files that \<^verbatim>\<open>json.load\<close> refuses otherwise than by \<^verbatim>\<open>JSONDecodeError\<close>. The scoring of
  \<^verbatim>\<open>run_eval.py\<close>, which calls functions \<^verbatim>\<open>server.py\<close> no longer has. Reports are values: their floating-point numbers are rationals, and the quotients rounded
  with floating-point error are a parameter (\<open>scaled\<close>). The TypeScript and shell files under \<^verbatim>\<open>infra/\<close> and
  \<^verbatim>\<open>tools/\<close>, the service units, the skills themselves and the tests are outside this library. Concurrent runs
  are modelled for \<^verbatim>\<open>create\<close> without \<^verbatim>\<open>--force\<close> only; the server's tools are atomic between two changes of the tree.
\<close>

section \<open>From the writer to every agent\<close>

text \<open>
  C1. A skill an agent creates reaches the others unchanged. Once \<^verbatim>\<open>create\<close> has reported it as created without
  \<^verbatim>\<open>--force\<close>, the collector's walk over the agent's skills finds it; where the catalog has no skill of the name the
  collector stores it and reports it as committed or updated, refusing nothing; the sync's walk over the catalog finds it there;
  and the sync copies it into any other destination, where the directory is then the one the writer made.
\<close>

theorem skill_reaches_every_agent:
  assumes create: "cmd_create U E a fs = (fs', Inr r)" "r_status r = Created" "\<not> a_force a" "env_ok E" "texts_ok E a"
    and home: "plain_path (skill_dir U E a)" "tget fs' (skill_dir U E a) = Some (Dir cs)" "\<not> links_in (Dir cs)"
    and repo: "dir_at fs' R" "plain_path R" "R \<noteq> []" "map_of (c_existing st) (used_name U a) = None"
      "tget fs' (R @ [stored_category U a]) = None \<or> dir_at fs' (R @ [stored_category U a])"
      "tget fs' (R @ [stored_category U a, used_name U a]) = None"
    and dest: "plain_path dest" "dir_at fs' dest" "dest \<noteq> []" "\<not> prefix R dest" "\<not> prefix dest R"
      "tget fs' (dest @ [used_name U a]) = None \<or> (\<exists>ds. tget fs' (dest @ [used_name U a]) = Some (Dir ds))"
  shows "\<exists>fm t st' fs''.
       Inr (used_name U a, skill_dir U E a, fm) \<in> set (skill_dirs fs' (target_dir E a))
     \<and> collect_skill R (used_name U a, skill_dir U E a, fm) st fs' = (t, Inr st')
     \<and> used_name U a \<in> set (c_committed st' @ c_updated st) \<and> c_rejected st' = c_rejected st
     \<and> Inr (used_name U a, R @ [stored_category U a, used_name U a], fm) \<in> set (sync_skill_dirs t R)
     \<and> sync_one dest (used_name U a, R @ [stored_category U a, used_name U a], fm) ss t =
         (fs'', Inr (ss\<lparr>s_names := s_names ss @ [used_name U a], s_synced := s_synced ss @ [used_name U a]\<rparr>))
     \<and> tget fs'' (dest @ [used_name U a]) = Some (Dir cs)"
proof -
  let ?n = "used_name U a" and ?c = "stored_category U a"
  obtain fm t st' where t: "Inr (?n, skill_dir U E a, fm) \<in> set (skill_dirs fs' (target_dir E a))"
    "collect_skill R (?n, skill_dir U E a, fm) st fs' = (t, Inr st')"
    "?n \<in> set (c_committed st' @ c_updated st)" "c_rejected st' = c_rejected st"
    "Inr (?n, R @ [?c, ?n], fm) \<in> set (sync_skill_dirs t R)" "tget t (R @ [?c, ?n]) = Some (Dir cs)"
    "\<forall>q. \<not> prefix R q \<longrightarrow> \<not> prefix q R \<longrightarrow> tget t q = tget fs' q"
    by (rule created_collected [OF create home repo])
  have b: "inputs_valid U E a" by (rule created_node [OF create(1-3) home])
  note seg = writer_segments [OF b] writer_category [OF b]
  have "\<not> prefix R (dest @ [?n])" "\<not> prefix (dest @ [?n]) R"
    using dest(4,5) by (metis prefix_snoc append_prefixD prefix_order.refl prefixI)+
  with t(7) dest(2,4,5) have d: "dir_at t dest" "tget t (dest @ [?n]) = tget fs' (dest @ [?n])"
    by (simp_all add: dir_at_def)
  have "plain_path (R @ [?c, ?n])" using repo(2) seg(1,3) bad_segment_plain by simp
  then obtain fs'' where "sync_one dest (?n, R @ [?c, ?n], fm) ss t =
      (fs'', Inr (ss\<lparr>s_names := s_names ss @ [?n], s_synced := s_synced ss @ [?n]\<rparr>))"
    "tget fs'' (dest @ [?n]) = Some (Dir cs)"
    using d dest(6) stored_synced [OF dest(1) d(1) dest(3-5) _ seg(1) t(6) _ home(3), where fm = fm and ss = ss] by metis
  with t(1-5) show ?thesis by blast
qed

definition travel_tree :: node where
  "travel_tree = Dir [(lit ''sk'', Dir []), (lit ''repo'', Dir [(lit ''skills'', Dir [])]), (lit ''d'', Dir [])]"

definition travelled :: node where
  "travelled = fst (cmd_create latin_db sample_env sample_args travel_tree)"

lemma travel_created:
  "\<exists>r. cmd_create latin_db sample_env sample_args travel_tree = (travelled, Inr r) \<and> r_status r = Created"
proof -
  have "case snd (cmd_create latin_db sample_env sample_args travel_tree) of Inr r \<Rightarrow> r_status r = Created | _ \<Rightarrow> False"
    by code_simp
  then show ?thesis
    by (cases "cmd_create latin_db sample_env sample_args travel_tree") (auto simp: travelled_def split: sum.splits)
qed

definition travel_skill :: "(pystr \<times> node) list" where
  "travel_skill = (case tget travelled [lit ''sk'', lit ''my-skill''] of Some (Dir cs) \<Rightarrow> cs | _ \<Rightarrow> [])"

lemma travel_facts:
  "used_name latin_db sample_args = lit ''my-skill''" "skill_dir latin_db sample_env sample_args = [lit ''sk'', lit ''my-skill'']"
  "stored_category latin_db sample_args = lit ''uncategorized''" "target_dir sample_env sample_args = [lit ''sk'']"
  "tget travelled [lit ''sk'', lit ''my-skill''] = Some (Dir travel_skill)" "\<not> links_in (Dir travel_skill)"
  "dir_at travelled [lit ''repo'', lit ''skills'']" "tget travelled [lit ''repo'', lit ''skills'', lit ''uncategorized''] = None"
  "tget travelled [lit ''repo'', lit ''skills'', lit ''uncategorized'', lit ''my-skill''] = None"
  "dir_at travelled [lit ''d'']" "tget travelled [lit ''d'', lit ''my-skill''] = None"
  by code_simp+

theorem skill_reaches_every_agent_witness:
  "\<exists>fm t st' fs''.
       collect_skill [lit ''repo'', lit ''skills''] (lit ''my-skill'', [lit ''sk'', lit ''my-skill''], fm) first_state travelled = (t, Inr st')
     \<and> sync_one [lit ''d''] (lit ''my-skill'', [lit ''repo'', lit ''skills'', lit ''uncategorized'', lit ''my-skill''], fm) sync_start t
         = (fs'', Inr (sync_start\<lparr>s_names := [lit ''my-skill''], s_synced := [lit ''my-skill'']\<rparr>))
     \<and> tget fs'' [lit ''d'', lit ''my-skill''] = tget travelled [lit ''sk'', lit ''my-skill'']"
proof -
  obtain r where r: "cmd_create latin_db sample_env sample_args travel_tree = (travelled, Inr r)" "r_status r = Created"
    using travel_created by blast
  have p: "plain_path [lit ''sk'', lit ''my-skill'']" "plain_path [lit ''repo'', lit ''skills'']" "plain_path [lit ''d'']"
    "\<not> a_force sample_args" by code_simp+
  show ?thesis
    using skill_reaches_every_agent [OF r p(4) sample_env_ok sample_texts, where R = "[lit ''repo'', lit ''skills'']"
        and dest = "[lit ''d'']" and st = first_state and ss = sync_start and cs = travel_skill] p travel_facts
    by (auto simp: first_state_def sync_start_def)
qed

section \<open>From the writer to the librarian\<close>

text \<open>
  C6. What the writer creates the server serves. After \<^verbatim>\<open>create\<close> reported a skill as created, the catalog of a
  server that has the directory among its roots lists it under its name with its description, \<^verbatim>\<open>skill_view\<close> of the name
  gives its content, and the hash in its head is the one the server computes of the content it gives.
  The server's YAML library is assumed to read the head as the flat reader does.
\<close>

theorem created_is_served:
  assumes create: "cmd_create U E a fs = (fs', Inr r)" "r_status r = Created" "\<not> a_force a" "env_ok E" "texts_ok E a"
    and roots: "target_dir E a \<in> set (m_roots M)" "coherent M fs' c" "registered_mcp_servers M fs' = Inr reg"
    and md: "stat fs' (skill_dir U E a @ [skill_md]) = Some (File t)" "utf8_len t \<le> MAX_FILE_BYTES" "yaml_agrees M t"
    and name: "unshadowed M fs' (used_name U a) (skill_dir U E a @ [skill_md])"
    and body: "given_body a fs = Inr body" "lf_only (body_text (used_name U a) (used_desc a) body)" "m_sha M = env_sha E"
  shows "\<exists>e j content. e \<in> set (load_catalog M fs' c)
     \<and> e_name e = used_name U a \<and> e_desc e = Some (used_desc a) \<and> e_path e = skill_dir U E a @ [skill_md]
     \<and> snd (tool_skill_view M [(lit ''name'', JStr (used_name U a))] \<lparr>v_fs = fs', v_cache = c\<rparr>) = Inr (JObj j)
     \<and> jget j (lit ''content'') = JStr content
     \<and> map_of (fst (read_frontmatter (univ_nl t))) (lit ''content_hash'') = Some (mcp_hash M content)"
proof -
  let ?e = "served_as U E a (target_dir E a) (used_name U a)"
  let ?content = "normal_body (py_rstrip (body_text (used_name U a) (used_desc a) body) @ [newline])"
  from created_stat [OF create(1-3)] body(1) md(1) have c: "inputs_valid U E a" "\<not> a_stage a" "t = rendered_for U E a body"
    by auto
  have "mcp_hash M ?content = hash_for U E a body" by (rule rendered_hash_agrees [OF body(2,3)])
  then have h: "map_of (fst (read_frontmatter (univ_nl t))) (lit ''content_hash'') = Some (mcp_hash M ?content)"
    unfolding c(3) rendered_read [OF c(1) create(4,5)] by (simp add: head_values_hash hash_for_def)
  have e: "e_name ?e = used_name U a" "e_desc ?e = Some (used_desc a)" "e_path ?e = skill_dir U E a @ [skill_md]"
    using c(2) by (simp_all add: served_as_def skill_dir_def)
  from created_served [OF create roots md name] body(1) h e show ?thesis by (metis sum.inject(2))
qed

definition flat_yaml :: "pystr \<Rightarrow> yaml_result" where
  "flat_yaml block = YMapping (map (\<lambda>(k, v). (JStr k, JStr v)) (flat_fields block))"

definition served_mcp :: mcp_env where
  "served_mcp = sample_mcp\<lparr>m_yaml := Some flat_yaml, m_roots := [[lit ''sk'']], m_sha := env_sha sample_env\<rparr>"

theorem created_is_served_witness:
  "\<exists>e j. e \<in> set (load_catalog served_mcp travelled []) \<and> e_name e = lit ''my-skill''
     \<and> snd (tool_skill_view served_mcp [(lit ''name'', JStr (lit ''my-skill''))] \<lparr>v_fs = travelled, v_cache = []\<rparr>) = Inr (JObj j)"
proof -
  obtain r where r: "cmd_create latin_db sample_env sample_args travel_tree = (travelled, Inr r)" "r_status r = Created"
    using travel_created by blast
  have "case stat travelled [lit ''sk'', lit ''my-skill'', skill_md] of
      Some (File t) \<Rightarrow> utf8_len t \<le> MAX_FILE_BYTES \<and> yaml_agrees served_mcp t | _ \<Rightarrow> False" by code_simp
  then obtain t where t: "stat travelled [lit ''sk'', lit ''my-skill'', skill_md] = Some (File t)"
      "utf8_len t \<le> MAX_FILE_BYTES" "yaml_agrees served_mcp t"
    by (auto split: option.splits node.splits)
  have f: "\<not> a_force sample_args" "target_dir sample_env sample_args \<in> set (m_roots served_mcp)"
    "registered_mcp_servers served_mcp travelled = Inr []"
    "unshadowed served_mcp travelled (used_name latin_db sample_args) (skill_dir latin_db sample_env sample_args @ [skill_md])"
    "given_body sample_args travel_tree = Inr (lit ''Do it'')"
    "lf_only (body_text (used_name latin_db sample_args) (used_desc sample_args) (lit ''Do it''))"
    by code_simp+
  have s: "m_sha served_mcp = env_sha sample_env" by (simp add: served_mcp_def)
  show ?thesis
    using created_is_served [OF r f(1) sample_env_ok sample_texts f(2) coherent_Nil f(3) _ t(2,3) f(4-6) s] t(1)
    by (auto simp: travel_facts)
qed

end
